(* ===== verification/Udtcp_Prelude.thy ===== *)
theory Udtcp_Prelude
  imports Main "HOL-Library.Word" "HOL-Library.State_Monad" "HOL-Library.Multiset"
    "HOL-Library.While_Combinator"
begin

text \<open>
  Shared vocabulary of the development: machine types, the byte-level helpers of the C
  memory model (a field of fixed size, \<open>memcpy\<close> into a block, little-endian integers),
  and the weakest-precondition calculus in which the component proofs are carried out.

  The C functions are translated into the state monad of the library.  \<open>wp m Q s\<close>
  says that running \<open>m\<close> from \<open>s\<close> ends in a result and a state that satisfy \<open>Q\<close>;
  the equations of \<open>wp_simps\<close> evaluate it over the monad's constructs.
\<close>

section \<open>Machine types\<close>

type_synonym byte = "8 word"
type_synonym u16 = "16 word"
type_synonym u32 = "32 word"
type_synonym u64 = "64 word"

text \<open>A value of a wider type converted to the 32-bit signed type \<open>int\<close> of C.\<close>

definition c_int :: "int \<Rightarrow> int" where
  "c_int x = sint (word_of_int x :: u32)"

lemma c_int_id: "- (2 ^ 31) \<le> x \<Longrightarrow> x < 2 ^ 31 \<Longrightarrow> c_int x = x"
  by (simp add: c_int_def signed_of_int signed_take_bit_int_eq_self)

section \<open>Blocks of bytes\<close>

text \<open>\<open>fit n xs\<close>: exactly \<open>n\<close> bytes, \<open>xs\<close> cut or padded with zeros.\<close>

definition fit :: "nat \<Rightarrow> byte list \<Rightarrow> byte list" where
  "fit n xs = take n xs @ replicate (n - length xs) 0"

lemma length_fit [simp]: "length (fit n xs) = n"
  by (simp add: fit_def)

lemma fit_id [simp]: "length xs = n \<Longrightarrow> fit n xs = xs"
  by (simp add: fit_def)

lemma fit_idem [simp]: "fit n (fit n xs) = fit n xs"
  by simp

text \<open>\<open>overlay off src dst\<close>: the block \<open>dst\<close> after \<open>memcpy(dst + off, src, length src)\<close>.\<close>

definition overlay :: "nat \<Rightarrow> 'a list \<Rightarrow> 'a list \<Rightarrow> 'a list" where
  "overlay off src dst = take off dst @ src @ drop (off + length src) dst"

lemma length_overlay [simp]:
  "off + length src \<le> length dst \<Longrightarrow> length (overlay off src dst) = length dst"
  by (simp add: overlay_def)

lemma overlay_nil [simp]: "overlay off [] dst = dst"
  by (simp add: overlay_def)

lemma overlay_all [simp]: "length src = length dst \<Longrightarrow> overlay 0 src dst = src"
  by (simp add: overlay_def)

lemma take_overlay_0: "take (length src) (overlay 0 src dst) = src"
  by (simp add: overlay_def)

lemma take_overlay_end:
  "off + length src \<le> length dst \<Longrightarrow>
   take (off + length src) (overlay off src dst) = take off dst @ src"
  by (simp add: overlay_def)

text \<open>\<open>slice off n xs\<close>: the \<open>n\<close> elements from \<open>off\<close> on.\<close>

definition slice :: "nat \<Rightarrow> nat \<Rightarrow> 'a list \<Rightarrow> 'a list" where
  "slice off n xs = take n (drop off xs)"

lemma slice_skip: "length xs = k \<Longrightarrow> k \<le> off \<Longrightarrow> slice off n (xs @ ys) = slice (off - k) n ys"
  by (simp add: slice_def)

lemma slice_hit: "length xs = n \<Longrightarrow> slice 0 n (xs @ ys) = xs"
  by (simp add: slice_def)

lemma slice_hit_end: "length xs = n \<Longrightarrow> slice 0 n xs = xs"
  by (simp add: slice_def)

lemmas slice_simps = slice_skip slice_hit slice_hit_end

section \<open>Little-endian integers\<close>

primrec le_encode :: "nat \<Rightarrow> nat \<Rightarrow> byte list" where
  "le_encode 0 v = []"
| "le_encode (Suc n) v = of_nat v # le_encode n (v div 256)"

primrec le_decode :: "byte list \<Rightarrow> nat" where
  "le_decode [] = 0"
| "le_decode (b # bs) = unat b + 256 * le_decode bs"

lemma length_le_encode [simp]: "length (le_encode n v) = n"
  by (induction n arbitrary: v) auto

lemma unat_of_nat_byte: "unat (of_nat v :: byte) = v mod 256"
  by (simp add: unat_of_nat)

lemma le_decode_encode: "le_decode (le_encode n v) = v mod 256 ^ n"
proof (induction n arbitrary: v)
  case 0
  then show ?case by simp
next
  case (Suc n)
  have "v mod (256 * 256 ^ n) = 256 * (v div 256 mod 256 ^ n) + v mod 256"
    by (rule mod_mult2_eq)
  with Suc show ?case by (simp add: unat_of_nat_byte)
qed

lemma le_decode_bound: "le_decode bs < 256 ^ length bs"
proof (induction bs)
  case Nil
  then show ?case by simp
next
  case (Cons b bs)
  have "unat b < 256" using unsigned_less [of b] by simp
  moreover from Cons have "256 * le_decode bs + 256 \<le> 256 * 256 ^ length bs"
    by (metis Suc_leI mult_Suc_right add.commute mult_le_mono2)
  ultimately show ?case by simp
qed

lemma le_encode_decode: "le_encode (length bs) (le_decode bs) = bs"
proof (induction bs)
  case Nil
  then show ?case by simp
next
  case (Cons b bs)
  have lt: "unat b < 256" using unsigned_less [of b] by simp
  have "(of_nat (unat b + 256 * le_decode bs) :: byte) = b"
    by (rule word_unat_eq_iff [THEN iffD2]) (simp only: unat_of_nat, simp add: lt)
  moreover from lt have "(unat b + 256 * le_decode bs) div 256 = le_decode bs"
    by simp
  ultimately show ?case using Cons by simp
qed

text \<open>The header of a frame: a \<open>uint32_t\<close> as the four bytes of its memory image.\<close>

definition u32_bytes :: "u32 \<Rightarrow> byte list" where
  "u32_bytes w = le_encode 4 (unat w)"

definition u32_of_bytes :: "byte list \<Rightarrow> u32" where
  "u32_of_bytes bs = of_nat (le_decode bs)"

lemma length_u32_bytes [simp]: "length (u32_bytes w) = 4"
  by (simp add: u32_bytes_def)

lemma u32_of_bytes_u32_bytes [simp]: "u32_of_bytes (u32_bytes w) = w"
proof -
  have "unat w < 256 ^ 4" using unsigned_less [of w] by simp
  then show ?thesis by (simp add: u32_of_bytes_def u32_bytes_def le_decode_encode)
qed

lemma u32_bytes_u32_of_bytes: "length bs = 4 \<Longrightarrow> u32_bytes (u32_of_bytes bs) = bs"
  using le_decode_bound [of bs] le_encode_decode [of bs]
  by (simp add: u32_bytes_def u32_of_bytes_def unat_of_nat)

section \<open>Weakest preconditions over the state monad\<close>

abbreviation skip :: "('s, unit) state" where
  "skip \<equiv> State_Monad.return ()"

abbreviation ret :: "'a \<Rightarrow> ('s, 'a) state" where
  "ret \<equiv> State_Monad.return"

definition gets :: "('s \<Rightarrow> 'a) \<Rightarrow> ('s, 'a) state" where
  "gets f = State (\<lambda>s. (f s, s))"

definition modify :: "('s \<Rightarrow> 's) \<Rightarrow> ('s, unit) state" where
  "modify f = State (\<lambda>s. ((), f s))"

definition wp :: "('s, 'a) state \<Rightarrow> ('a \<Rightarrow> 's \<Rightarrow> bool) \<Rightarrow> 's \<Rightarrow> bool" where
  "wp m Q s \<longleftrightarrow> (case run_state m s of (r, s') \<Rightarrow> Q r s')"

named_theorems wp_simps
named_theorems inv_intros

lemma run_gets [simp]: "run_state (gets f) s = (f s, s)"
  by (simp add: gets_def)

lemma run_modify [simp]: "run_state (modify f) s = ((), f s)"
  by (simp add: modify_def)

lemma wp_return [wp_simps]: "wp (ret x) Q = Q x"
  by (simp add: wp_def fun_eq_iff)

lemma wp_bind [wp_simps]: "wp (State_Monad.bind m f) Q = wp m (\<lambda>x. wp (f x) Q)"
  by (simp add: wp_def fun_eq_iff split: prod.splits)

lemma wp_gets [wp_simps]: "wp (gets f) Q s = Q (f s) s"
  by (simp add: wp_def)

lemma wp_modify [wp_simps]: "wp (modify f) Q s = Q () (f s)"
  by (simp add: wp_def)

lemma wp_State [wp_simps]: "wp (State f) Q s = (case f s of (r, s') \<Rightarrow> Q r s')"
  by (simp add: wp_def)

lemma wp_if [wp_simps]:
  "wp (if b then m else n) Q s \<longleftrightarrow> (b \<longrightarrow> wp m Q s) \<and> (\<not> b \<longrightarrow> wp n Q s)"
  by simp

lemma wp_case_option [wp_simps]:
  "wp (case x of None \<Rightarrow> m | Some y \<Rightarrow> f y) Q s \<longleftrightarrow>
   (x = None \<longrightarrow> wp m Q s) \<and> (\<forall>y. x = Some y \<longrightarrow> wp (f y) Q s)"
  by (cases x) auto

lemma wp_case_prod [wp_simps]:
  "wp (case x of (a, b) \<Rightarrow> f a b) Q s = wp (f (fst x) (snd x)) Q s"
  by (simp split: prod.splits)

lemma wp_Let [wp_simps]: "wp (Let x f) Q s = wp (f x) Q s"
  by simp

lemma wp_mono: "wp m Q s \<Longrightarrow> (\<And>r s'. Q r s' \<Longrightarrow> R r s') \<Longrightarrow> wp m R s"
  by (auto simp: wp_def)

lemma wp_bindI:
  "wp m R s \<Longrightarrow> (\<And>x s'. R x s' \<Longrightarrow> wp (f x) Q s') \<Longrightarrow> wp (State_Monad.bind m f) Q s"
  unfolding wp_bind by (blast intro: wp_mono)

lemma wp_bind_gets: "wp (f (g s)) Q s \<Longrightarrow> wp (State_Monad.bind (gets g) f) Q s"
  by (simp add: wp_bind wp_gets)

lemma wp_ifI:
  "(b \<Longrightarrow> wp m Q s) \<Longrightarrow> (\<not> b \<Longrightarrow> wp n Q s) \<Longrightarrow> wp (if b then m else n) Q s"
  by simp

lemma wp_runI: "wp m Q s \<Longrightarrow> run_state m s = (r, s') \<Longrightarrow> Q r s'"
  by (simp add: wp_def)

lemma wp_returns:
  assumes "wp m (\<lambda>r s'. r = k \<and> Q s') s"
  shows "\<exists>s'. run_state m s = (k, s') \<and> Q s'"
  using wp_runI [OF assms surjective_pairing] by (metis prod.collapse)

lemma wp_run: "wp m Q s \<longleftrightarrow> (\<forall>r s'. run_state m s = (r, s') \<longrightarrow> Q r s')"
  by (auto simp: wp_def split: prod.splits)

lemma wp_conj: "wp m (\<lambda>r s'. P r s' \<and> Q r s') s \<longleftrightarrow> wp m P s \<and> wp m Q s"
  by (simp add: wp_def split: prod.splits)

text \<open>An operation keeps a state predicate.\<close>

definition keeps :: "('s \<Rightarrow> bool) \<Rightarrow> ('s, 'a) state \<Rightarrow> bool" where
  "keeps I m \<longleftrightarrow> (\<forall>s. I s \<longrightarrow> wp m (\<lambda>_. I) s)"

lemma keeps_return [inv_intros]: "keeps I (ret x)"
  by (simp add: keeps_def wp_simps)

lemma keeps_bind [inv_intros]:
  "keeps I m \<Longrightarrow> (\<And>x. keeps I (f x)) \<Longrightarrow> keeps I (State_Monad.bind m f)"
  unfolding keeps_def wp_bind by (blast intro: wp_mono)

lemma keeps_if [inv_intros]:
  "(b \<Longrightarrow> keeps I m) \<Longrightarrow> (\<not> b \<Longrightarrow> keeps I n) \<Longrightarrow> keeps I (if b then m else n)"
  by simp

lemma keeps_case_option [inv_intros]:
  "(x = None \<Longrightarrow> keeps I m) \<Longrightarrow> (\<And>y. x = Some y \<Longrightarrow> keeps I (f y)) \<Longrightarrow>
   keeps I (case x of None \<Rightarrow> m | Some y \<Rightarrow> f y)"
  by (cases x) auto

lemma keeps_case_prod [inv_intros]:
  "(\<And>a b. x = (a, b) \<Longrightarrow> keeps I (f a b)) \<Longrightarrow> keeps I (case x of (a, b) \<Rightarrow> f a b)"
  by (cases x) auto

lemma keeps_Let [inv_intros]: "(\<And>y. y = x \<Longrightarrow> keeps I (f y)) \<Longrightarrow> keeps I (Let x f)"
  by simp

lemma keeps_gets [inv_intros]: "keeps I (gets f)"
  by (simp add: keeps_def wp_simps)

lemma keeps_modify: "(\<And>s. I s \<Longrightarrow> I (f s)) \<Longrightarrow> keeps I (modify f)"
  by (simp add: keeps_def wp_simps)

lemma keeps_run: "keeps I m \<Longrightarrow> I s \<Longrightarrow> run_state m s = (r, s') \<Longrightarrow> I s'"
  unfolding keeps_def by (blast dest: wp_runI)

lemma keeps_run_state: "keeps I m \<Longrightarrow> I s \<Longrightarrow> I (snd (run_state m s))"
  by (metis keeps_run prod.collapse)

lemma keeps_conj: "keeps I m \<Longrightarrow> keeps J m \<Longrightarrow> keeps (\<lambda>s. I s \<and> J s) m"
  by (simp add: keeps_def wp_conj)

end
