(* ===== verification/Udtcp_Types.thy ===== *)
theory Udtcp_Types
  imports Udtcp_Prelude
begin

text \<open>
  The data of \<open>udtcp.h\<close>: the enumerations, the structures and their memory images.

  A structure that crosses the network is sent as its memory image (\<open>send(sock,
  server_infos, sizeof(udtcp_infos))\<close>), so \<open>infos_bytes\<close> and \<open>infos_of_bytes\<close> fix the
  layout the System V ABI for x86-64 gives to \<open>struct udtcp_infos_s\<close>: little-endian,
  4-byte \<open>int\<close>, 8-byte \<open>size_t\<close> and pointers, 360 bytes with 6 bytes of padding before
  the \<open>send\<close> pointer.  The locale \<open>wire_codec\<close> states what the protocol needs of such a
  pair of functions.
\<close>

section \<open>Enumerations and constants\<close>

datatype udtcp_log_level_e =
  UDTCP_LOG_LEVEL_ERROR | UDTCP_LOG_LEVEL_INFO | UDTCP_LOG_LEVEL_DEBUG

datatype udtcp_connect_e =
  UDTCP_CONNECT_SUCCESS | UDTCP_CONNECT_ERROR | UDTCP_CONNECT_TIMEOUT | UDTCP_CONNECT_TOO_MANY

datatype udtcp_poll_e =
  UDTCP_POLL_SUCCESS | UDTCP_POLL_ERROR | UDTCP_POLL_TIMEOUT | UDTCP_POLL_SIGNAL

text \<open>The levels are ordered by the value the enumeration gives them.\<close>

primrec log_level_value :: "udtcp_log_level_e \<Rightarrow> nat" where
  "log_level_value UDTCP_LOG_LEVEL_ERROR = 0"
| "log_level_value UDTCP_LOG_LEVEL_INFO = 1"
| "log_level_value UDTCP_LOG_LEVEL_DEBUG = 2"

lemma log_level_value_inj: "log_level_value a = log_level_value b \<Longrightarrow> a = b"
  by (cases a; cases b) simp_all

instantiation udtcp_log_level_e :: linorder
begin

definition less_eq_udtcp_log_level_e :: "udtcp_log_level_e \<Rightarrow> udtcp_log_level_e \<Rightarrow> bool" where
  "less_eq_udtcp_log_level_e a b \<longleftrightarrow> log_level_value a \<le> log_level_value b"

definition less_udtcp_log_level_e :: "udtcp_log_level_e \<Rightarrow> udtcp_log_level_e \<Rightarrow> bool" where
  "less_udtcp_log_level_e a b \<longleftrightarrow> log_level_value a < log_level_value b"

instance
  by standard
    (auto simp: less_eq_udtcp_log_level_e_def less_udtcp_log_level_e_def
      intro: log_level_value_inj)

end

definition UDTCP_MAX_CONNECTION :: nat where
  "UDTCP_MAX_CONNECTION = 42"

definition UDTCP_POLL_TABLE_SIZE :: nat where
  "UDTCP_POLL_TABLE_SIZE = 2 + UDTCP_MAX_CONNECTION"

lemma table_size_gt_2: "2 < UDTCP_POLL_TABLE_SIZE"
  by (simp add: UDTCP_POLL_TABLE_SIZE_def UDTCP_MAX_CONNECTION_def)

text \<open>Constants of the C library the sources use (Linux, x86-64).\<close>

definition AF_INET :: u16 where "AF_INET = 2"
definition POLLIN :: u16 where "POLLIN = 1"
definition POLLOUT :: u16 where "POLLOUT = 4"
definition POLLERR :: u16 where "POLLERR = 8"
definition POLLHUP :: u16 where "POLLHUP = 16"
definition O_NONBLOCK :: u32 where "O_NONBLOCK = 0x800"
definition EINTR :: int where "EINTR = 4"
definition EWOULDBLOCK :: int where "EWOULDBLOCK = 11"
definition ETIMEDOUT :: int where "ETIMEDOUT = 110"
definition ECONNREFUSED :: int where "ECONNREFUSED = 111"
definition EHOSTUNREACH :: int where "EHOSTUNREACH = 113"
definition EINPROGRESS :: int where "EINPROGRESS = 115"

lemmas errno_defs = EINTR_def EWOULDBLOCK_def ETIMEDOUT_def ECONNREFUSED_def
  EHOSTUNREACH_def EINPROGRESS_def
lemmas poll_flag_defs = POLLIN_def POLLOUT_def POLLERR_def POLLHUP_def

section \<open>Byte order\<close>

definition htons :: "u16 \<Rightarrow> u16" where
  "htons w = of_nat (le_decode (rev (le_encode 2 (unat w))))"

definition htonl :: "u32 \<Rightarrow> u32" where
  "htonl w = u32_of_bytes (rev (u32_bytes w))"

lemma htons_htons [simp]: "htons (htons w) = w"
proof -
  have b: "le_decode (rev (le_encode 2 (unat w))) < 256 ^ 2"
    using le_decode_bound [of "rev (le_encode 2 (unat w))"] by simp
  have "le_encode 2 (unat (htons w)) = rev (le_encode 2 (unat w))"
    using b le_encode_decode [of "rev (le_encode 2 (unat w))"]
    by (simp add: htons_def unat_of_nat)
  moreover have "unat w < 256 ^ 2" using unsigned_less [of w] by simp
  ultimately show ?thesis
    by (simp add: htons_def [of "htons w"] le_decode_encode)
qed

lemma u32_bytes_htonl: "u32_bytes (htonl w) = rev (u32_bytes w)"
  by (simp add: htonl_def u32_bytes_u32_of_bytes)

lemma htonl_htonl [simp]: "htonl (htonl w) = w"
  by (simp add: htonl_def [of "htonl w"] u32_bytes_htonl)

section \<open>Structures\<close>

text \<open>\<open>sin_port\<close> and \<open>sin_addr\<close> hold the field as the processor loads it, so a port that
  the protocol calls \<open>p\<close> is stored as \<open>htons p\<close>.\<close>

record sockaddr_in =
  sin_family :: u16
  sin_port :: u16
  sin_addr :: u32
  sin_zero :: "byte list"

record udtcp_infos =
  info_id :: u64
  hostname :: "byte list"
  ip :: "byte list"
  tcp_socket :: int
  udp_server_socket :: int
  udp_client_socket :: int
  tcp_addr :: sockaddr_in
  udp_server_addr :: sockaddr_in
  udp_client_addr :: sockaddr_in
  tcp_port :: u16
  udp_server_port :: u16
  udp_client_port :: u16
  send_ptr :: u64

record pollfd =
  pfd :: int
  events :: u16
  revents :: u16

text \<open>A heap block: its address and its bytes, as many as were allocated.\<close>

record block =
  block_addr :: int
  block_bytes :: "byte list"

text \<open>\<open>size_offset\<close> and \<open>payload_offset\<close> are pointers into \<open>send_buffer\<close>: \<open>None\<close> is NULL,
  \<open>Some k\<close> the byte \<open>k\<close> of the block.\<close>

record udtcp_send =
  send_buffer_size :: u32
  send_buffer :: "block option"
  size_offset :: "nat option"
  payload_offset :: "nat option"

text \<open>Memory cleared by \<open>memset(_, 0, _)\<close>.\<close>

definition zero_sockaddr :: sockaddr_in where
  "zero_sockaddr = \<lparr>sin_family = 0, sin_port = 0, sin_addr = 0, sin_zero = replicate 8 0\<rparr>"

definition zero_infos :: udtcp_infos where
  "zero_infos = \<lparr>info_id = 0, hostname = replicate 256 0, ip = replicate 16 0,
     tcp_socket = 0, udp_server_socket = 0, udp_client_socket = 0,
     tcp_addr = zero_sockaddr, udp_server_addr = zero_sockaddr, udp_client_addr = zero_sockaddr,
     tcp_port = 0, udp_server_port = 0, udp_client_port = 0, send_ptr = 0\<rparr>"

definition zero_send :: udtcp_send where
  "zero_send = \<lparr>send_buffer_size = 0, send_buffer = None, size_offset = None,
     payload_offset = None\<rparr>"

definition zero_pollfd :: pollfd where
  "zero_pollfd = \<lparr>pfd = 0, events = 0, revents = 0\<rparr>"

section \<open>Memory images\<close>

definition sockaddr_bytes :: "sockaddr_in \<Rightarrow> byte list" where
  "sockaddr_bytes a = le_encode 2 (unat (sin_family a)) @ le_encode 2 (unat (sin_port a)) @
     u32_bytes (sin_addr a) @ fit 8 (sin_zero a)"

definition sockaddr_of_bytes :: "byte list \<Rightarrow> sockaddr_in" where
  "sockaddr_of_bytes bs = \<lparr>sin_family = of_nat (le_decode (slice 0 2 bs)),
     sin_port = of_nat (le_decode (slice 2 2 bs)),
     sin_addr = u32_of_bytes (slice 4 4 bs), sin_zero = fit 8 (slice 8 8 bs)\<rparr>"

definition int_bytes :: "int \<Rightarrow> byte list" where
  "int_bytes i = u32_bytes (word_of_int i)"

definition int_of_bytes :: "byte list \<Rightarrow> int" where
  "int_of_bytes bs = sint (u32_of_bytes bs)"

definition sizeof_udtcp_infos :: nat where
  "sizeof_udtcp_infos = 360"

definition infos_bytes :: "udtcp_infos \<Rightarrow> byte list" where
  "infos_bytes x =
     le_encode 8 (unat (info_id x)) @ fit 256 (hostname x) @ fit 16 (ip x) @
     int_bytes (tcp_socket x) @ int_bytes (udp_server_socket x) @ int_bytes (udp_client_socket x) @
     sockaddr_bytes (tcp_addr x) @ sockaddr_bytes (udp_server_addr x) @
     sockaddr_bytes (udp_client_addr x) @
     le_encode 2 (unat (tcp_port x)) @ le_encode 2 (unat (udp_server_port x)) @
     le_encode 2 (unat (udp_client_port x)) @ replicate 6 0 @
     le_encode 8 (unat (send_ptr x))"

definition infos_of_bytes :: "byte list \<Rightarrow> udtcp_infos" where
  "infos_of_bytes bs = \<lparr>info_id = of_nat (le_decode (slice 0 8 bs)),
     hostname = fit 256 (slice 8 256 bs), ip = fit 16 (slice 264 16 bs),
     tcp_socket = int_of_bytes (slice 280 4 bs),
     udp_server_socket = int_of_bytes (slice 284 4 bs),
     udp_client_socket = int_of_bytes (slice 288 4 bs),
     tcp_addr = sockaddr_of_bytes (slice 292 16 bs),
     udp_server_addr = sockaddr_of_bytes (slice 308 16 bs),
     udp_client_addr = sockaddr_of_bytes (slice 324 16 bs),
     tcp_port = of_nat (le_decode (slice 340 2 bs)),
     udp_server_port = of_nat (le_decode (slice 342 2 bs)),
     udp_client_port = of_nat (le_decode (slice 344 2 bs)),
     send_ptr = of_nat (le_decode (slice 352 8 bs))\<rparr>"

text \<open>The values the structures can hold: arrays of their declared size, \<open>int\<close> in range.\<close>

definition in_int :: "int \<Rightarrow> bool" where
  "in_int i \<longleftrightarrow> - (2 ^ 31) \<le> i \<and> i < 2 ^ 31"

definition sockaddr_wf :: "sockaddr_in \<Rightarrow> bool" where
  "sockaddr_wf a \<longleftrightarrow> length (sin_zero a) = 8"

definition infos_wf :: "udtcp_infos \<Rightarrow> bool" where
  "infos_wf x \<longleftrightarrow> length (hostname x) = 256 \<and> length (ip x) = 16 \<and>
     in_int (tcp_socket x) \<and> in_int (udp_server_socket x) \<and> in_int (udp_client_socket x) \<and>
     sockaddr_wf (tcp_addr x) \<and> sockaddr_wf (udp_server_addr x) \<and> sockaddr_wf (udp_client_addr x)"

lemma length_sockaddr_bytes [simp]: "length (sockaddr_bytes a) = 16"
  by (simp add: sockaddr_bytes_def)

lemma length_int_bytes [simp]: "length (int_bytes i) = 4"
  by (simp add: int_bytes_def)

lemma length_infos_bytes [simp]: "length (infos_bytes x) = sizeof_udtcp_infos"
  by (simp add: infos_bytes_def sizeof_udtcp_infos_def)

lemma int_of_bytes_int_bytes: "in_int i \<Longrightarrow> int_of_bytes (int_bytes i) = i"
  using c_int_id [of i] by (simp add: int_of_bytes_def int_bytes_def in_int_def c_int_def)

lemma of_nat_le_decode_encode_16:
  "of_nat (le_decode (le_encode 2 (unat (w :: u16)))) = w"
  using unsigned_less [of w, where ?'a = nat] by (simp add: le_decode_encode)

lemma of_nat_le_decode_encode_64:
  "of_nat (le_decode (le_encode 8 (unat (w :: u64)))) = w"
  using unsigned_less [of w, where ?'a = nat] by (simp add: le_decode_encode)

lemma sockaddr_roundtrip: "sockaddr_wf a \<Longrightarrow> sockaddr_of_bytes (sockaddr_bytes a) = a"
  by (cases a)
    (simp add: sockaddr_of_bytes_def sockaddr_bytes_def sockaddr_wf_def slice_simps
      of_nat_le_decode_encode_16)

lemma infos_roundtrip: "infos_wf x \<Longrightarrow> infos_of_bytes (infos_bytes x) = x"
  by (cases x)
    (simp add: infos_of_bytes_def infos_bytes_def infos_wf_def slice_simps
      int_of_bytes_int_bytes sockaddr_roundtrip of_nat_le_decode_encode_16
      of_nat_le_decode_encode_64)

lemma sockaddr_wf_of_bytes [simp]: "sockaddr_wf (sockaddr_of_bytes bs)"
  by (simp add: sockaddr_wf_def sockaddr_of_bytes_def)

lemma in_int_of_bytes [simp]: "in_int (int_of_bytes bs)"
  using sint_ge [of "u32_of_bytes bs"] sint_lt [of "u32_of_bytes bs"]
  by (simp add: in_int_def int_of_bytes_def)

lemma infos_wf_of_bytes [simp]: "infos_wf (infos_of_bytes bs)"
  by (simp add: infos_wf_def infos_of_bytes_def)

section \<open>What the protocol needs of a memory image\<close>

text \<open>
  A value sent as its \<open>size\<close> bytes and read back into a block of that size: the receiver
  holds the sender's value, whatever the block held before and whatever follows on the wire.
\<close>

locale wire_codec =
  fixes enc :: "'v \<Rightarrow> byte list"
    and dec :: "byte list \<Rightarrow> 'v"
    and size :: nat
    and ok :: "'v \<Rightarrow> bool"
  assumes length_enc: "length (enc x) = size"
    and dec_enc: "ok x \<Longrightarrow> dec (enc x) = x"
begin

lemma dec_overlay: "ok x \<Longrightarrow> length old = size \<Longrightarrow> dec (overlay 0 (enc x) old) = x"
  by (simp add: length_enc dec_enc)

lemma dec_prefix: "ok x \<Longrightarrow> dec (take size (enc x @ rest)) = x"
  by (simp add: length_enc dec_enc)

lemma enc_inj: "ok x \<Longrightarrow> ok y \<Longrightarrow> enc x = enc y \<Longrightarrow> x = y"
  by (metis dec_enc)

end

interpretation header_codec: wire_codec u32_bytes u32_of_bytes 4 "\<lambda>_. True"
  by unfold_locales simp_all

interpretation sockaddr_codec: wire_codec sockaddr_bytes sockaddr_of_bytes 16 sockaddr_wf
  by unfold_locales (simp_all add: sockaddr_roundtrip)

interpretation infos_codec: wire_codec infos_bytes infos_of_bytes sizeof_udtcp_infos infos_wf
  by unfold_locales (simp_all add: infos_roundtrip)

text \<open>\<open>recv\<close> of \<open>bs\<close> into a structure that held \<open>old\<close>: the bytes of the structure that
  arrived replace its first bytes.\<close>

definition infos_recv :: "byte list \<Rightarrow> udtcp_infos \<Rightarrow> udtcp_infos" where
  "infos_recv bs old =
     infos_of_bytes (overlay 0 (take sizeof_udtcp_infos bs) (infos_bytes old))"

lemma infos_recv_whole:
  "infos_wf x \<Longrightarrow> infos_recv (infos_bytes x) old = x"
  by (simp add: infos_recv_def infos_roundtrip)

lemma infos_wf_infos_recv [simp]: "infos_wf (infos_recv bs old)"
  by (simp add: infos_recv_def)

end
