(* ===== verification/Udtcp_Posix.thy ===== *)
theory Udtcp_Posix
  imports Udtcp_Types
begin

text \<open>
  The operating system as the sources see it.  Every call into libc that the library makes
  is a value of \<open>call\<close>; an environment answers it from the whole history of events of the
  process, so a statement that holds for every \<open>env\<close> holds for every behaviour of the
  kernel, of the peers and of the other threads.  What POSIX promises about an answer is
  written into the wrappers (\<open>recv\<close> returns at most the bytes asked for, \<open>send\<close> never
  claims more than it was given, \<open>poll\<close> reports one \<open>revents\<close> per descriptor).

  The history also records the callbacks of the user and the undefined behaviours (\<open>Fault\<close>)
  a run meets: a memory-safety statement says that a run adds no \<open>Fault\<close>.
\<close>

section \<open>Calls, replies, events\<close>

datatype sock_kind = SOCK_STREAM | SOCK_DGRAM

datatype sock_option = SO_REUSEADDR | SO_REUSEPORT

datatype call =
    C_gethostbyname "byte list"
  | C_gethostbyaddr "byte list"
  | C_malloc nat
  | C_free "block option"
  | C_new_client
  | C_free_client u64
  | C_new_server
  | C_free_server u64
  | C_socket sock_kind
  | C_setsockopt int sock_option
  | C_bind int sockaddr_in
  | C_getsockname int
  | C_listen int nat
  | C_getfl int
  | C_setfl int u32
  | C_connect int sockaddr_in
  | C_accept int
  | C_poll "(int \<times> u16) list" int
  | C_recv int nat
  | C_recvfrom int nat bool
  | C_send int "byte list"
  | C_sendto int "byte list" sockaddr_in
  | C_shutdown int
  | C_close int
  | C_mutex_init u64
  | C_mutex_destroy u64
  | C_mutex_lock u64
  | C_mutex_unlock u64
  | C_pthread_create
  | C_pthread_kill
  | C_pthread_join
  | C_sigaction nat
  | C_sleep nat
  | C_strerror int
  | C_fprintf "byte list"

text \<open>\<open>rv\<close> is the returned integer or pointer, \<open>err\<close> the \<open>errno\<close> of a failure,
  \<open>payload\<close> the bytes received (for the resolver, the first address), \<open>from_addr\<close> the
  address a call fills in, \<open>revs\<close> the \<open>revents\<close> of \<open>poll\<close>, \<open>h_name\<close> a host name.\<close>

record reply =
  rv :: int
  err :: int
  payload :: "byte list"
  from_addr :: sockaddr_in
  revs :: "u16 list"
  h_name :: "byte list"

datatype callback = ConnectCb | DisconnectCb | ReceiveTcpCb | ReceiveUdpCb

datatype fault =
    NullPointer
  | WildPointer
  | HeapOverflow
  | StructOverflow
  | ArrayOverrun
  | MemcpyOverlap

text \<open>\<open>Cb c i d\<close>: the user's callback \<open>c\<close> is called for \<open>infos[i]\<close> with the data \<open>d\<close>.\<close>

datatype event =
    Ev call reply
  | Cb callback nat "byte list"
  | Log udtcp_log_level_e
  | Fault fault

text \<open>\<open>stop_seen h\<close>: by the time the history is \<open>h\<close>, another thread (\<open>udtcp_stop_server\<close>,
  \<open>udtcp_stop_client\<close>) or a callback has cleared \<open>poll_loop\<close>.  \<open>log_build\<close>: the highest
  level the build keeps, \<open>None\<close> for the release build, whose log macros are empty.\<close>

record env =
  os :: "event list \<Rightarrow> call \<Rightarrow> reply"
  stop_seen :: "event list \<Rightarrow> bool"
  log_build :: "udtcp_log_level_e option"

record sys =
  hist :: "event list"
  errno :: int

section \<open>Making a call\<close>

fun call_failed :: "call \<Rightarrow> reply \<Rightarrow> bool" where
  "call_failed (C_malloc _) r = (rv r = 0)"
| "call_failed C_new_client r = (rv r = 0)"
| "call_failed C_new_server r = (rv r = 0)"
| "call_failed (C_gethostbyname _) r = False"
| "call_failed (C_gethostbyaddr _) r = False"
| "call_failed (C_mutex_init _) r = False"
| "call_failed (C_mutex_destroy _) r = False"
| "call_failed (C_mutex_lock _) r = False"
| "call_failed (C_mutex_unlock _) r = False"
| "call_failed C_pthread_create r = False"
| "call_failed C_pthread_kill r = False"
| "call_failed C_pthread_join r = False"
| "call_failed (C_sleep _) r = False"
| "call_failed (C_strerror _) r = False"
| "call_failed _ r = (rv r < 0)"

definition emit :: "event \<Rightarrow> ('a sys_scheme, unit) state" where
  "emit ev = modify (\<lambda>s. s\<lparr>hist := hist s @ [ev]\<rparr>)"

definition syscall :: "env \<Rightarrow> call \<Rightarrow> ('a sys_scheme, reply) state" where
  "syscall e c = State (\<lambda>s. let r = os e (hist s) c in
     (r, s\<lparr>hist := hist s @ [Ev c r], errno := (if call_failed c r then err r else errno s)\<rparr>))"

definition sys_int :: "env \<Rightarrow> call \<Rightarrow> ('a sys_scheme, int) state" where
  "sys_int e c = do { r \<leftarrow> syscall e c; ret (rv r) }"

definition sys_do :: "env \<Rightarrow> call \<Rightarrow> ('a sys_scheme, unit) state" where
  "sys_do e c = do { _ \<leftarrow> syscall e c; skip }"

definition set_errno :: "int \<Rightarrow> ('a sys_scheme, unit) state" where
  "set_errno x = modify (\<lambda>s. s\<lparr>errno := x\<rparr>)"

section \<open>The calls that carry data\<close>

text \<open>\<open>recv(fd, _, n, 0)\<close>: \<open>-1\<close>, or the number of bytes received, which are at most \<open>n\<close>.\<close>

definition recv_result :: "nat \<Rightarrow> reply \<Rightarrow> int \<times> byte list" where
  "recv_result n r = (if rv r < 0 then (-1, [])
     else (int (length (take n (payload r))), take n (payload r)))"

definition sys_recv :: "env \<Rightarrow> int \<Rightarrow> nat \<Rightarrow> ('a sys_scheme, int \<times> byte list) state" where
  "sys_recv e fd n = do { r \<leftarrow> syscall e (C_recv fd n); ret (recv_result n r) }"

text \<open>\<open>recvfrom(fd, _, n, MSG_PEEK or 0, addr, _)\<close>, whose result the sources store in an \<open>int\<close>.\<close>

definition sys_recvfrom ::
    "env \<Rightarrow> int \<Rightarrow> nat \<Rightarrow> bool \<Rightarrow> ('a sys_scheme, int \<times> byte list \<times> sockaddr_in) state" where
  "sys_recvfrom e fd n peek = do {
     r \<leftarrow> syscall e (C_recvfrom fd n peek);
     ret (c_int (fst (recv_result n r)), snd (recv_result n r), from_addr r) }"

definition sys_send :: "env \<Rightarrow> int \<Rightarrow> byte list \<Rightarrow> ('a sys_scheme, int) state" where
  "sys_send e fd bs = do {
     r \<leftarrow> syscall e (C_send fd bs);
     ret (if rv r < 0 then -1 else min (rv r) (int (length bs))) }"

definition sys_sendto ::
    "env \<Rightarrow> int \<Rightarrow> byte list \<Rightarrow> sockaddr_in \<Rightarrow> ('a sys_scheme, int) state" where
  "sys_sendto e fd bs a = do {
     r \<leftarrow> syscall e (C_sendto fd bs a);
     ret (if rv r < 0 then -1 else min (rv r) (int (length bs))) }"

definition sys_accept :: "env \<Rightarrow> int \<Rightarrow> ('a sys_scheme, int \<times> sockaddr_in) state" where
  "sys_accept e fd = do {
     r \<leftarrow> syscall e (C_accept fd);
     ret (if rv r < 0 then -1 else rv r, from_addr r) }"

text \<open>\<open>poll\<close> on one descriptor: the result and the \<open>revents\<close> written.\<close>

definition sys_poll1 :: "env \<Rightarrow> int \<Rightarrow> u16 \<Rightarrow> int \<Rightarrow> ('a sys_scheme, int \<times> u16) state" where
  "sys_poll1 e fd evs timeout = do {
     r \<leftarrow> syscall e (C_poll [(fd, evs)] timeout);
     ret (rv r, case revs r of [] \<Rightarrow> 0 | x # _ \<Rightarrow> x) }"

section \<open>Reading a history\<close>

fun is_fault :: "event \<Rightarrow> bool" where
  "is_fault (Fault _) = True"
| "is_fault _ = False"

definition faults :: "event list \<Rightarrow> event list" where
  "faults h = filter is_fault h"

fun is_callback :: "event \<Rightarrow> bool" where
  "is_callback (Cb _ _ _) = True"
| "is_callback _ = False"

definition callbacks :: "event list \<Rightarrow> event list" where
  "callbacks h = filter is_callback h"

text \<open>Descriptors opened and closed, blocks allocated and freed, as multisets.\<close>

fun event_opened :: "event \<Rightarrow> int multiset" where
  "event_opened (Ev (C_socket _) r) = (if rv r < 0 then {#} else {#rv r#})"
| "event_opened (Ev (C_accept _) r) = (if rv r < 0 then {#} else {#rv r#})"
| "event_opened _ = {#}"

fun event_closed :: "event \<Rightarrow> int multiset" where
  "event_closed (Ev (C_close fd) _) = {#fd#}"
| "event_closed _ = {#}"

text \<open>A pointer as the 64-bit word it is stored in.\<close>

definition pointer :: "int \<Rightarrow> int" where
  "pointer p = uint (word_of_int p :: u64)"

fun event_allocated :: "event \<Rightarrow> int multiset" where
  "event_allocated (Ev (C_malloc _) r) = (if rv r = 0 then {#} else {#rv r#})"
| "event_allocated (Ev C_new_client r) = (if rv r = 0 then {#} else {#pointer (rv r)#})"
| "event_allocated (Ev C_new_server r) = (if rv r = 0 then {#} else {#pointer (rv r)#})"
| "event_allocated _ = {#}"

fun event_freed :: "event \<Rightarrow> int multiset" where
  "event_freed (Ev (C_free (Some b)) _) = {#block_addr b#}"
| "event_freed (Ev (C_free_client a) _) = {#uint a#}"
| "event_freed (Ev (C_free_server a) _) = {#uint a#}"
| "event_freed _ = {#}"

text \<open>Mutexes initialised and destroyed, by their address.\<close>

fun event_inited :: "event \<Rightarrow> u64 multiset" where
  "event_inited (Ev (C_mutex_init m) r) = (if rv r = 0 then {#m#} else {#})"
| "event_inited _ = {#}"

fun event_destroyed :: "event \<Rightarrow> u64 multiset" where
  "event_destroyed (Ev (C_mutex_destroy m) _) = {#m#}"
| "event_destroyed _ = {#}"

definition inited :: "event list \<Rightarrow> u64 multiset" where
  "inited h = \<Sum>\<^sub># (mset (map event_inited h))"

definition destroyed :: "event list \<Rightarrow> u64 multiset" where
  "destroyed h = \<Sum>\<^sub># (mset (map event_destroyed h))"

definition opened :: "event list \<Rightarrow> int multiset" where
  "opened h = \<Sum>\<^sub># (mset (map event_opened h))"

definition closed :: "event list \<Rightarrow> int multiset" where
  "closed h = \<Sum>\<^sub># (mset (map event_closed h))"

definition allocated :: "event list \<Rightarrow> int multiset" where
  "allocated h = \<Sum>\<^sub># (mset (map event_allocated h))"

definition freed :: "event list \<Rightarrow> int multiset" where
  "freed h = \<Sum>\<^sub># (mset (map event_freed h))"

lemma history_append [simp]:
  "faults (h @ h') = faults h @ faults h'"
  "callbacks (h @ h') = callbacks h @ callbacks h'"
  "opened (h @ h') = opened h + opened h'"
  "closed (h @ h') = closed h + closed h'"
  "allocated (h @ h') = allocated h + allocated h'"
  "freed (h @ h') = freed h + freed h'"
  "inited (h @ h') = inited h + inited h'"
  "destroyed (h @ h') = destroyed h + destroyed h'"
  by (simp_all add: inited_def destroyed_def faults_def callbacks_def opened_def closed_def allocated_def freed_def)

lemma history_simps [simp]:
  "faults [] = []" "callbacks [] = []"
  "opened [] = {#}" "closed [] = {#}" "allocated [] = {#}" "freed [] = {#}"
  "inited [] = {#}" "destroyed [] = {#}"
  "faults (ev # h) = (if is_fault ev then ev # faults h else faults h)"
  "callbacks (ev # h) = (if is_callback ev then ev # callbacks h else callbacks h)"
  "opened (ev # h) = event_opened ev + opened h" "closed (ev # h) = event_closed ev + closed h"
  "allocated (ev # h) = event_allocated ev + allocated h"
  "freed (ev # h) = event_freed ev + freed h"
  "inited (ev # h) = event_inited ev + inited h"
  "destroyed (ev # h) = event_destroyed ev + destroyed h"
  by (simp_all add: inited_def destroyed_def faults_def callbacks_def opened_def closed_def allocated_def freed_def)

section \<open>Rules\<close>

lemma run_emit [simp]: "run_state (emit ev) s = ((), s\<lparr>hist := hist s @ [ev]\<rparr>)"
  by (simp add: emit_def)

lemma wp_emit [wp_simps]: "wp (emit ev) Q s = Q () (s\<lparr>hist := hist s @ [ev]\<rparr>)"
  by (simp add: wp_def)

lemma run_syscall: "run_state (syscall e c) s =
   (os e (hist s) c, s\<lparr>hist := hist s @ [Ev c (os e (hist s) c)],
      errno := (if call_failed c (os e (hist s) c) then err (os e (hist s) c) else errno s)\<rparr>)"
  by (simp add: syscall_def Let_def)

lemma wp_syscall: "wp (syscall e c) Q s = Q (os e (hist s) c)
   (s\<lparr>hist := hist s @ [Ev c (os e (hist s) c)],
      errno := (if call_failed c (os e (hist s) c) then err (os e (hist s) c) else errno s)\<rparr>)"
  by (simp add: wp_def run_syscall)

text \<open>What a call can do to a state predicate, whatever the environment answers.\<close>

lemma wp_syscallI:
  "(\<And>r x. Q r (s\<lparr>hist := hist s @ [Ev c r], errno := x\<rparr>)) \<Longrightarrow> wp (syscall e c) Q s"
  by (simp add: wp_syscall)

lemma wp_sys_int: "wp (sys_int e c) Q s = wp (syscall e c) (\<lambda>r. Q (rv r)) s"
  by (simp add: sys_int_def wp_simps)

lemma wp_sys_do: "wp (sys_do e c) Q s = wp (syscall e c) (\<lambda>_. Q ()) s"
  by (simp add: sys_do_def wp_simps)

text \<open>One order for the two updates.\<close>

lemma hist_errno_swap: "s\<lparr>errno := x, hist := h\<rparr> = s\<lparr>hist := h, errno := x\<rparr>"
  by simp

lemma wp_set_errno [wp_simps]: "wp (set_errno x) Q s = Q () (s\<lparr>errno := x\<rparr>)"
  by (simp add: set_errno_def wp_simps)

lemma wp_sys_recv: "wp (sys_recv e fd n) Q s =
   wp (syscall e (C_recv fd n)) (\<lambda>r. Q (recv_result n r)) s"
  by (simp add: sys_recv_def wp_simps)

lemma wp_sys_recvfrom: "wp (sys_recvfrom e fd n p) Q s =
   wp (syscall e (C_recvfrom fd n p))
     (\<lambda>r. Q (c_int (fst (recv_result n r)), snd (recv_result n r), from_addr r)) s"
  by (simp add: sys_recvfrom_def wp_simps)

lemma wp_sys_send: "wp (sys_send e fd bs) Q s = wp (syscall e (C_send fd bs))
   (\<lambda>r. Q (if rv r < 0 then -1 else min (rv r) (int (length bs)))) s"
  by (simp add: sys_send_def wp_simps)

lemma wp_sys_sendto: "wp (sys_sendto e fd bs a) Q s = wp (syscall e (C_sendto fd bs a))
   (\<lambda>r. Q (if rv r < 0 then -1 else min (rv r) (int (length bs)))) s"
  by (simp add: sys_sendto_def wp_simps)

lemma wp_sys_accept: "wp (sys_accept e fd) Q s = wp (syscall e (C_accept fd))
   (\<lambda>r. Q (if rv r < 0 then -1 else rv r, from_addr r)) s"
  by (simp add: sys_accept_def wp_simps)

lemma wp_sys_poll1: "wp (sys_poll1 e fd evs t) Q s = wp (syscall e (C_poll [(fd, evs)] t))
   (\<lambda>r. Q (rv r, case revs r of [] \<Rightarrow> 0 | x # _ \<Rightarrow> x)) s"
  by (simp add: sys_poll1_def wp_simps)

lemmas wp_calls = wp_sys_int wp_sys_do wp_sys_recv wp_sys_recvfrom wp_sys_send wp_sys_sendto
  wp_sys_accept wp_sys_poll1

lemmas sys_defs = sys_int_def sys_do_def sys_recv_def sys_recvfrom_def sys_send_def
  sys_sendto_def sys_accept_def sys_poll1_def set_errno_def

lemma keeps_syscall:
  "(\<And>s r x. I s \<Longrightarrow> I (s\<lparr>hist := hist s @ [Ev c r], errno := x\<rparr>)) \<Longrightarrow> keeps I (syscall e c)"
  unfolding keeps_def by (auto intro: wp_syscallI)

lemma keeps_emit: "(\<And>s. I s \<Longrightarrow> I (s\<lparr>hist := hist s @ [ev]\<rparr>)) \<Longrightarrow> keeps I (emit ev)"
  by (simp add: keeps_def wp_simps)

lemma keeps_set_errno: "(\<And>s. I s \<Longrightarrow> I (s\<lparr>errno := x\<rparr>)) \<Longrightarrow> keeps I (set_errno x)"
  by (simp add: keeps_def wp_simps)

text \<open>A predicate that no system call can change: it reads neither the history nor \<open>errno\<close>.\<close>

definition os_stable :: "('a sys_scheme \<Rightarrow> bool) \<Rightarrow> bool" where
  "os_stable I \<longleftrightarrow> (\<forall>s h x. I s \<longrightarrow> I (s\<lparr>hist := h, errno := x\<rparr>))"

lemma os_stable_keeps:
  assumes "os_stable I"
  shows "keeps I (syscall e c)" "keeps I (emit ev)" "keeps I (set_errno x)"
proof -
  have s1: "I (s\<lparr>hist := h, errno := y\<rparr>)" if "I s" for s h y
    using assms that by (simp add: os_stable_def)
  have s2: "I (s\<lparr>hist := h\<rparr>)" if "I s" for s h
    using s1 [OF that, where h = h and y = "errno s"] by simp
  have s3: "I (s\<lparr>errno := y\<rparr>)" if "I s" for s y
    using s1 [OF that, where h = "hist s" and y = y] by simp
  show "keeps I (syscall e c)" by (rule keeps_syscall) (rule s1)
  show "keeps I (emit ev)" by (rule keeps_emit) (rule s2)
  show "keeps I (set_errno x)" by (rule keeps_set_errno) (rule s3)
qed

text \<open>Only the history and \<open>errno\<close> differ.\<close>

definition sys_frame :: "'a sys_scheme \<Rightarrow> 'a sys_scheme \<Rightarrow> bool" where
  "sys_frame s0 s \<longleftrightarrow> s\<lparr>hist := hist s0, errno := errno s0\<rparr> = s0"

lemma sys_frame_refl [simp]: "sys_frame s s"
  by (simp add: sys_frame_def)

lemma sys_frame_update [simp]:
  "sys_frame s0 s \<Longrightarrow> sys_frame s0 (s\<lparr>hist := h\<rparr>)"
  "sys_frame s0 s \<Longrightarrow> sys_frame s0 (s\<lparr>errno := x\<rparr>)"
  by (simp_all add: sys_frame_def)

lemma sys_frame_trans: "sys_frame s0 s \<Longrightarrow> sys_frame s t \<Longrightarrow> sys_frame s0 t"
  unfolding sys_frame_def by (cases s0; cases s; cases t) simp

lemma keeps_sys_frame [inv_intros]:
  "keeps (sys_frame s0) (syscall e c)" "keeps (sys_frame s0) (emit ev)"
  "keeps (sys_frame s0) (set_errno x)"
  by (auto simp: keeps_def wp_simps intro: wp_syscallI)

text \<open>The result of \<open>recv\<close>: its length is the bytes delivered, at most those asked for.\<close>

lemma recv_result_bounds:
  assumes "recv_result n r = (k, d)"
  shows "k = -1 \<and> d = [] \<or> k = int (length d)" "length d \<le> n" "k \<le> int n"
  using assms by (auto simp: recv_result_def split: if_splits)

lemma recv_result_nonneg: "recv_result n r = (k, d) \<Longrightarrow> 0 \<le> k \<Longrightarrow> length d = nat k"
  by (auto simp: recv_result_def split: if_splits)

lemma fst_recv_result_le: "fst (recv_result n r) \<le> int n"
  by (simp add: recv_result_def)

lemma fst_recv_result_nonneg:
  "0 \<le> fst (recv_result n r) \<Longrightarrow> fst (recv_result n r) = int (length (snd (recv_result n r)))"
  by (simp add: recv_result_def split: if_splits)

lemma length_snd_recv_result_le [simp]: "length (snd (recv_result n r)) \<le> n"
  by (simp add: recv_result_def)

section \<open>Resources\<close>

text \<open>What a function does to descriptors and mutexes, from the history \<open>h\<close> on: the descriptors
  \<open>D\<close> are closed, the mutexes \<open>M\<close> destroyed, nothing is opened or initialised.\<close>

definition releases :: "int multiset \<Rightarrow> u64 multiset \<Rightarrow> event list \<Rightarrow> event list \<Rightarrow> bool" where
  "releases D M h h' \<longleftrightarrow> opened h' = opened h \<and> closed h' = closed h + D \<and>
     inited h' = inited h \<and> destroyed h' = destroyed h + M"

lemma releases_refl [simp]: "releases {#} {#} h h"
  by (simp add: releases_def)

lemma releases_trans:
  "releases D M h h' \<Longrightarrow> releases D' M' h' h'' \<Longrightarrow> releases (D + D') (M + M') h h''"
  by (simp add: releases_def)

text \<open>Every descriptor opened, and every mutex initialised, since \<open>h\<close> is released again.\<close>

definition balanced :: "event list \<Rightarrow> event list \<Rightarrow> bool" where
  "balanced h h' \<longleftrightarrow> opened h' + closed h = opened h + closed h' \<and>
     inited h' + destroyed h = inited h + destroyed h'"

end
