(* ===== verification/Udtcp_Peer.thy ===== *)
theory Udtcp_Peer
  imports Udtcp_Posix
begin

text \<open>
  The members \<open>struct udtcp_server_s\<close> and \<open>struct udtcp_client_s\<close> share, the allocation
  functions of \<open>new_free.c\<close>, and the receive buffer with its reallocation, which both poll
  functions use in the same way.

  The record \<open>peer\<close> is the common part; \<open>server\<close> and \<open>client\<close> extend it.  A callback is
  represented by whether it is set; what a callback does to the structure is not modelled
  beyond clearing \<open>poll_loop\<close>, which \<open>stop_seen\<close> covers.
\<close>

section \<open>State\<close>

record peer = sys +
  infos :: "udtcp_infos list"
  poll_fds :: "pollfd list"
  poll_nfds :: nat
  connect_callback :: bool
  disconnect_callback :: bool
  receive_tcp_callback :: bool
  receive_udp_callback :: bool
  log_callback :: bool
  poll_loop :: int
  is_started :: int
  buffer_data :: "block option"
  buffer_size :: nat

text \<open>A read of \<open>poll_loop\<close>, which another thread may have cleared.\<close>

definition looping :: "env \<Rightarrow> 'a peer_scheme \<Rightarrow> bool" where
  "looping e s \<longleftrightarrow> poll_loop s \<noteq> 0 \<and> \<not> stop_seen e (hist s)"

text \<open>\<open>UDTCP_LOG_ERROR\<close> and its kin: nothing unless the build keeps the level and the
  callback is set.\<close>

definition log_enabled :: "env \<Rightarrow> udtcp_log_level_e \<Rightarrow> bool" where
  "log_enabled e l = (case log_build e of None \<Rightarrow> False | Some m \<Rightarrow> l \<le> m)"

definition udtcp_log :: "env \<Rightarrow> udtcp_log_level_e \<Rightarrow> ('a peer_scheme, unit) state" where
  "udtcp_log e l = do {
     on \<leftarrow> gets log_callback;
     if log_enabled e l \<and> on then emit (Log l) else skip }"

abbreviation log_error :: "env \<Rightarrow> ('a peer_scheme, unit) state" where
  "log_error e \<equiv> udtcp_log e UDTCP_LOG_LEVEL_ERROR"

abbreviation log_info :: "env \<Rightarrow> ('a peer_scheme, unit) state" where
  "log_info e \<equiv> udtcp_log e UDTCP_LOG_LEVEL_INFO"

text \<open>Defining \<open>UDTCP_LOG_INFO\<close> also defines \<open>UDTCP_LOG_ERROR\<close>, and so on downwards.\<close>

lemma log_enabled_down: "log_enabled e l \<Longrightarrow> l' \<le> l \<Longrightarrow> log_enabled e l'"
  by (auto simp: log_enabled_def split: option.splits)

text \<open>\<open>if (cb != NULL) cb(peer, infos, data, data_size)\<close>.\<close>

definition call_back ::
    "('a peer_scheme \<Rightarrow> bool) \<Rightarrow> callback \<Rightarrow> nat \<Rightarrow> byte list \<Rightarrow> ('a peer_scheme, unit) state" where
  "call_back set_cb c i d = do {
     on \<leftarrow> gets set_cb;
     if on then emit (Cb c i d) else skip }"

text \<open>An assignment to members of \<open>infos[i]\<close>.\<close>

definition set_infos :: "nat \<Rightarrow> (udtcp_infos \<Rightarrow> udtcp_infos) \<Rightarrow> ('a peer_scheme, unit) state" where
  "set_infos i f = modify (\<lambda>s. s\<lparr>infos := (infos s)[i := f (infos s ! i)]\<rparr>)"

lemma run_set_infos [simp]:
  "run_state (set_infos i f) s = ((), s\<lparr>infos := (infos s)[i := f (infos s ! i)]\<rparr>)"
  by (simp add: set_infos_def)

lemma wp_set_infos [wp_simps]:
  "wp (set_infos i f) Q s = Q () (s\<lparr>infos := (infos s)[i := f (infos s ! i)]\<rparr>)"
  by (simp add: wp_def)

lemma wp_bind_set_infos:
  "wp (f ()) Q (s\<lparr>infos := (infos s)[i := g (infos s ! i)]\<rparr>) \<Longrightarrow>
   wp (State_Monad.bind (set_infos i g) f) Q s"
  by (simp add: wp_bind wp_set_infos)

text \<open>\<open>recv(fd, &infos[i], sizeof(udtcp_infos) + 1, 0)\<close>, with which both sides of the handshake
  read the other's structure: the bytes overwrite the slot, and the byte after its end when
  there is one more.\<close>

definition recv_infos :: "env \<Rightarrow> int \<Rightarrow> nat \<Rightarrow> ('a peer_scheme, int) state" where
  "recv_infos e fd i = do {
     (r, d) \<leftarrow> sys_recv e fd (sizeof_udtcp_infos + 1);
     (if length d > sizeof_udtcp_infos then emit (Fault StructOverflow) else skip);
     (if d \<noteq> [] then set_infos i (infos_recv d) else skip);
     ret r }"

section \<open>Buffers\<close>

definition udtcp_new_buffer :: "env \<Rightarrow> u32 \<Rightarrow> ('a sys_scheme, block option) state" where
  "udtcp_new_buffer e sz = do {
     r \<leftarrow> syscall e (C_malloc (unat sz));
     ret (if rv r = 0 then None
          else Some \<lparr>block_addr = rv r, block_bytes = fit (unat sz) (payload r)\<rparr>) }"

definition udtcp_free_buffer :: "env \<Rightarrow> block option \<Rightarrow> ('a sys_scheme, unit) state" where
  "udtcp_free_buffer e b = sys_do e (C_free b)"

text \<open>\<open>need\<close> is computed in \<open>size_t\<close>; the parameter of \<open>udtcp_new_buffer\<close> is a
  \<open>uint32_t\<close>, so the call converts it modulo \<open>2 ^ 32\<close>.\<close>

definition ensure_buffer :: "env \<Rightarrow> nat \<Rightarrow> ('a peer_scheme, bool) state" where
  "ensure_buffer e need = do {
     sz \<leftarrow> gets buffer_size;
     if need > sz then do {
       new_buffer_data \<leftarrow> udtcp_new_buffer e (of_nat need);
       case new_buffer_data of
         None \<Rightarrow> do { log_error e; ret False }
       | Some b \<Rightarrow> do {
           old \<leftarrow> gets buffer_data;
           (if old \<noteq> None then udtcp_free_buffer e old else skip);
           modify (\<lambda>s. s\<lparr>buffer_data := Some b, buffer_size := need\<rparr>);
           ret True } }
     else ret True }"

text \<open>Bytes the kernel writes at \<open>buffer_data + off\<close>.\<close>

definition store_buffer :: "nat \<Rightarrow> byte list \<Rightarrow> ('a peer_scheme, unit) state" where
  "store_buffer off d = (if d = [] then skip else do {
     b \<leftarrow> gets buffer_data;
     case b of
       None \<Rightarrow> emit (Fault NullPointer)
     | Some k \<Rightarrow>
         if off + length d \<le> length (block_bytes k)
         then modify (\<lambda>s. s\<lparr>buffer_data :=
                Some (k\<lparr>block_bytes := overlay off d (block_bytes k)\<rparr>)\<rparr>)
         else emit (Fault HeapOverflow) })"

text \<open>\<open>recv(fd, buffer_data + off, n, 0)\<close>.\<close>

definition recv_into :: "env \<Rightarrow> int \<Rightarrow> nat \<Rightarrow> nat \<Rightarrow> ('a peer_scheme, int) state" where
  "recv_into e fd off n = do {
     (r, d) \<leftarrow> sys_recv e fd n;
     store_buffer off d;
     ret r }"

definition recvfrom_into ::
    "env \<Rightarrow> int \<Rightarrow> nat \<Rightarrow> ('a peer_scheme, int \<times> sockaddr_in) state" where
  "recvfrom_into e fd n = do {
     (r, d, a) \<leftarrow> sys_recvfrom e fd n False;
     store_buffer 0 d;
     ret (r, a) }"

text \<open>The bytes a callback is given: \<open>n\<close> bytes from \<open>buffer_data + off\<close>.\<close>

definition buffer_slice :: "nat \<Rightarrow> nat \<Rightarrow> 'a peer_scheme \<Rightarrow> byte list" where
  "buffer_slice off n s =
     (case buffer_data s of None \<Rightarrow> [] | Some b \<Rightarrow> slice off n (block_bytes b))"

section \<open>Waiting on the poll table\<close>

text \<open>\<open>poll(peer->poll_fds, peer->poll_nfds, timeout)\<close>: the \<open>long\<close> timeout becomes an \<open>int\<close>,
  and unless the call fails every entry polled has its \<open>revents\<close> written.\<close>

definition set_revents :: "nat \<Rightarrow> u16 list \<Rightarrow> pollfd list \<Rightarrow> pollfd list" where
  "set_revents n vs ps = map (\<lambda>i. if i < n
     then (ps ! i)\<lparr>revents := (if i < length vs then vs ! i else 0)\<rparr> else ps ! i) [0..<length ps]"

definition poll_table :: "env \<Rightarrow> int \<Rightarrow> ('a peer_scheme, int) state" where
  "poll_table e timeout = do {
     fds \<leftarrow> gets (\<lambda>s. map (\<lambda>p. (pfd p, events p)) (take (poll_nfds s) (poll_fds s)));
     r \<leftarrow> syscall e (C_poll fds (c_int timeout));
     (if rv r < 0 then skip else modify (\<lambda>s. s\<lparr>poll_fds := set_revents (poll_nfds s)
        (if rv r = 0 then [] else revs r) (poll_fds s)\<rparr>));
     ret (rv r) }"

lemma length_set_revents [simp]: "length (set_revents n vs ps) = length ps"
  by (simp add: set_revents_def)

lemma set_revents_nth [simp]:
  "i < length ps \<Longrightarrow> pfd (set_revents n vs ps ! i) = pfd (ps ! i)"
  "i < length ps \<Longrightarrow> events (set_revents n vs ps ! i) = events (ps ! i)"
  by (simp_all add: set_revents_def)

lemma set_revents_idle:
  "i < n \<Longrightarrow> n \<le> length ps \<Longrightarrow> revents (set_revents n [] ps ! i) = 0"
  by (simp add: set_revents_def)

section \<open>The invariant of the buffer\<close>

text \<open>\<open>buffer_size\<close> never claims more than was allocated.\<close>

definition buffer_ok :: "'a peer_scheme \<Rightarrow> bool" where
  "buffer_ok s \<longleftrightarrow> (case buffer_data s of None \<Rightarrow> buffer_size s = 0
     | Some b \<Rightarrow> buffer_size s \<le> length (block_bytes b))"

definition buffer_block :: "'a peer_scheme \<Rightarrow> int multiset" where
  "buffer_block s = (case buffer_data s of None \<Rightarrow> {#} | Some b \<Rightarrow> {#block_addr b#})"

text \<open>Of the blocks allocated, those not freed are the receive buffer and \<open>K\<close>.\<close>

definition heap_balanced :: "int multiset \<Rightarrow> 'a peer_scheme \<Rightarrow> bool" where
  "heap_balanced K s \<longleftrightarrow> allocated (hist s) = freed (hist s) + buffer_block s + K"

text \<open>Everything but the history, \<open>errno\<close> and the receive buffer is as in \<open>s0\<close>.\<close>

definition buffer_frame :: "'a peer_scheme \<Rightarrow> 'a peer_scheme \<Rightarrow> bool" where
  "buffer_frame s0 s \<longleftrightarrow> s\<lparr>hist := hist s0, errno := errno s0, buffer_data := buffer_data s0,
     buffer_size := buffer_size s0\<rparr> = s0"

definition rx_inv :: "'a peer_scheme \<Rightarrow> int multiset \<Rightarrow> 'a peer_scheme \<Rightarrow> bool" where
  "rx_inv s0 K s \<longleftrightarrow> buffer_frame s0 s \<and> buffer_ok s \<and> faults (hist s) = faults (hist s0) \<and>
     heap_balanced K s"

definition rx_room :: "'a peer_scheme \<Rightarrow> int multiset \<Rightarrow> nat \<Rightarrow> 'a peer_scheme \<Rightarrow> bool" where
  "rx_room s0 K n s \<longleftrightarrow> rx_inv s0 K s \<and> n \<le> buffer_size s"

lemma buffer_update [simp]:
  "buffer_ok (s\<lparr>hist := h\<rparr>) = buffer_ok s" "buffer_ok (s\<lparr>errno := x\<rparr>) = buffer_ok s"
  "buffer_block (s\<lparr>hist := h\<rparr>) = buffer_block s"
  "buffer_block (s\<lparr>errno := x\<rparr>) = buffer_block s"
  by (cases "buffer_data s"; simp add: buffer_ok_def buffer_block_def)+

lemma buffer_frame_refl [simp]: "buffer_frame s s"
  by (simp add: buffer_frame_def)

lemma buffer_frame_fields:
  assumes "buffer_frame s0 s"
  shows "infos s = infos s0" "poll_fds s = poll_fds s0" "poll_nfds s = poll_nfds s0"
    "poll_loop s = poll_loop s0" "is_started s = is_started s0" "peer.more s = peer.more s0"
    "connect_callback s = connect_callback s0" "disconnect_callback s = disconnect_callback s0"
    "receive_tcp_callback s = receive_tcp_callback s0"
    "receive_udp_callback s = receive_udp_callback s0" "log_callback s = log_callback s0"
proof -
  let ?t = "s\<lparr>hist := hist s0, errno := errno s0, buffer_data := buffer_data s0,
    buffer_size := buffer_size s0\<rparr>"
  have eq: "?t = s0" using assms by (simp add: buffer_frame_def)
  from arg_cong [OF eq, of infos] show "infos s = infos s0" by simp
  from arg_cong [OF eq, of poll_fds] show "poll_fds s = poll_fds s0" by simp
  from arg_cong [OF eq, of poll_nfds] show "poll_nfds s = poll_nfds s0" by simp
  from arg_cong [OF eq, of poll_loop] show "poll_loop s = poll_loop s0" by simp
  from arg_cong [OF eq, of is_started] show "is_started s = is_started s0" by simp
  from arg_cong [OF eq, of peer.more] show "peer.more s = peer.more s0" by simp
  from arg_cong [OF eq, of connect_callback]
  show "connect_callback s = connect_callback s0" by simp
  from arg_cong [OF eq, of disconnect_callback]
  show "disconnect_callback s = disconnect_callback s0" by simp
  from arg_cong [OF eq, of receive_tcp_callback]
  show "receive_tcp_callback s = receive_tcp_callback s0" by simp
  from arg_cong [OF eq, of receive_udp_callback]
  show "receive_udp_callback s = receive_udp_callback s0" by simp
  from arg_cong [OF eq, of log_callback] show "log_callback s = log_callback s0" by simp
qed

lemma buffer_frame_trans: "buffer_frame s0 s \<Longrightarrow> buffer_frame s s' \<Longrightarrow> buffer_frame s0 s'"
  unfolding buffer_frame_def by (cases s0; cases s; cases s') simp

lemma buffer_frame_update:
  "buffer_frame s0 s \<Longrightarrow> buffer_frame s0 (s\<lparr>hist := h\<rparr>)"
  "buffer_frame s0 s \<Longrightarrow> buffer_frame s0 (s\<lparr>errno := x\<rparr>)"
  "buffer_frame s0 s \<Longrightarrow> buffer_frame s0 (s\<lparr>buffer_data := b\<rparr>)"
  "buffer_frame s0 s \<Longrightarrow> buffer_frame s0 (s\<lparr>buffer_size := n\<rparr>)"
  by (simp_all add: buffer_frame_def)

lemma rx_inv_refl: "buffer_ok s \<Longrightarrow> heap_balanced K s \<Longrightarrow> rx_inv s K s"
  by (simp add: rx_inv_def)

lemma rx_inv_buffer_ok: "rx_inv s0 K s \<Longrightarrow> buffer_ok s"
  by (simp add: rx_inv_def)

lemma rx_inv_trans: "rx_inv s0 K s \<Longrightarrow> rx_inv s K s' \<Longrightarrow> rx_inv s0 K s'"
  by (auto simp: rx_inv_def elim: buffer_frame_trans)

text \<open>An event that is no fault, no allocation and no release keeps the invariant.\<close>

definition silent :: "event \<Rightarrow> bool" where
  "silent ev \<longleftrightarrow> \<not> is_fault ev \<and> event_allocated ev = {#} \<and> event_freed ev = {#}"

fun heap_call :: "call \<Rightarrow> bool" where
  "heap_call (C_malloc _) = True"
| "heap_call (C_free _) = True"
| "heap_call C_new_client = True"
| "heap_call (C_free_client _) = True"
| "heap_call C_new_server = True"
| "heap_call (C_free_server _) = True"
| "heap_call _ = False"

lemma silent_call: "\<not> heap_call c \<Longrightarrow> silent (Ev c r)"
  by (cases c) (simp_all add: silent_def)

lemma rx_inv_event:
  "silent ev \<Longrightarrow> rx_inv s0 K s \<Longrightarrow> rx_inv s0 K (s\<lparr>hist := hist s @ [ev], errno := x\<rparr>)"
  "silent ev \<Longrightarrow> rx_inv s0 K s \<Longrightarrow> rx_inv s0 K (s\<lparr>hist := hist s @ [ev]\<rparr>)"
  by (simp_all add: rx_inv_def silent_def buffer_frame_update heap_balanced_def)

lemma rx_room_event:
  "silent ev \<Longrightarrow> rx_room s0 K n s \<Longrightarrow> rx_room s0 K n (s\<lparr>hist := hist s @ [ev], errno := x\<rparr>)"
  "silent ev \<Longrightarrow> rx_room s0 K n s \<Longrightarrow> rx_room s0 K n (s\<lparr>hist := hist s @ [ev]\<rparr>)"
  by (simp_all add: rx_room_def rx_inv_event)

lemma silent_events [simp]:
  "silent (Cb c i d)" "silent (Log l)" "silent (Ev (C_recv fd n) r)"
  "silent (Ev (C_recvfrom fd n p) r)" "silent (Ev (C_poll fs t) r)"
  "silent (Ev (C_send fd bs) r)" "silent (Ev (C_shutdown fd) r)" "silent (Ev (C_close fd) r)"
  by (simp_all add: silent_def)

lemma rx_inv_fail: "rx_inv s0 K s \<Longrightarrow> rv r = 0 \<Longrightarrow>
   rx_inv s0 K (s\<lparr>hist := hist s @ [Ev (C_malloc n) r], errno := x\<rparr>)"
  by (simp add: rx_inv_def buffer_frame_update heap_balanced_def)

text \<open>The state after a log macro and after a callback.\<close>

definition after_log :: "env \<Rightarrow> udtcp_log_level_e \<Rightarrow> 'a peer_scheme \<Rightarrow> 'a peer_scheme" where
  "after_log e l s = (if log_enabled e l \<and> log_callback s then s\<lparr>hist := hist s @ [Log l]\<rparr> else s)"

definition after_cb :: "bool \<Rightarrow> callback \<Rightarrow> nat \<Rightarrow> byte list \<Rightarrow> 'a peer_scheme \<Rightarrow> 'a peer_scheme" where
  "after_cb on c i d s = (if on then s\<lparr>hist := hist s @ [Cb c i d]\<rparr> else s)"

lemma run_udtcp_log [simp]: "run_state (udtcp_log e l) s = ((), after_log e l s)"
  by (simp add: udtcp_log_def after_log_def)

lemma run_call_back [simp]: "run_state (call_back f c i d) s = ((), after_cb (f s) c i d s)"
  by (simp add: call_back_def after_cb_def)

lemma wp_udtcp_log [wp_simps]: "wp (udtcp_log e l) Q s = Q () (after_log e l s)"
  by (simp add: wp_def)

lemma wp_call_back [wp_simps]: "wp (call_back f c i d) Q s = Q () (after_cb (f s) c i d s)"
  by (simp add: wp_def)

text \<open>Logging and calling back write the history only.\<close>

lemma after_fields [simp]:
  "infos (after_log e l s) = infos s" "poll_fds (after_log e l s) = poll_fds s"
  "poll_nfds (after_log e l s) = poll_nfds s" "buffer_data (after_log e l s) = buffer_data s"
  "buffer_size (after_log e l s) = buffer_size s" "errno (after_log e l s) = errno s"
  "poll_loop (after_log e l s) = poll_loop s" "peer.more (after_log e l s) = peer.more s"
  "is_started (after_log e l s) = is_started s"
  "infos (after_cb b c i d s) = infos s" "poll_fds (after_cb b c i d s) = poll_fds s"
  "poll_nfds (after_cb b c i d s) = poll_nfds s" "buffer_data (after_cb b c i d s) = buffer_data s"
  "buffer_size (after_cb b c i d s) = buffer_size s" "errno (after_cb b c i d s) = errno s"
  "poll_loop (after_cb b c i d s) = poll_loop s" "peer.more (after_cb b c i d s) = peer.more s"
  "is_started (after_cb b c i d s) = is_started s"
  by (simp_all add: after_log_def after_cb_def)

lemma after_histories [simp]:
  "faults (hist (after_log e l s)) = faults (hist s)"
  "callbacks (hist (after_log e l s)) = callbacks (hist s)"
  "opened (hist (after_log e l s)) = opened (hist s)"
  "closed (hist (after_log e l s)) = closed (hist s)"
  "allocated (hist (after_log e l s)) = allocated (hist s)"
  "freed (hist (after_log e l s)) = freed (hist s)"
  "inited (hist (after_log e l s)) = inited (hist s)"
  "destroyed (hist (after_log e l s)) = destroyed (hist s)"
  "faults (hist (after_cb b c i d s)) = faults (hist s)"
  "callbacks (hist (after_cb b c i d s)) = callbacks (hist s) @ (if b then [Cb c i d] else [])"
  "opened (hist (after_cb b c i d s)) = opened (hist s)"
  "closed (hist (after_cb b c i d s)) = closed (hist s)"
  "allocated (hist (after_cb b c i d s)) = allocated (hist s)"
  "freed (hist (after_cb b c i d s)) = freed (hist s)"
  "inited (hist (after_cb b c i d s)) = inited (hist s)"
  "destroyed (hist (after_cb b c i d s)) = destroyed (hist s)"
  by (simp_all add: after_log_def after_cb_def)

lemma buffer_frame_after [simp]:
  "buffer_frame s0 s \<Longrightarrow> buffer_frame s0 (after_log e l s)"
  "buffer_frame s0 s \<Longrightarrow> buffer_frame s0 (after_cb b c i d s)"
  by (simp_all add: after_log_def after_cb_def buffer_frame_update)

lemma rx_inv_after [simp]:
  "rx_inv s0 K s \<Longrightarrow> rx_inv s0 K (after_log e l s)"
  "rx_inv s0 K s \<Longrightarrow> rx_inv s0 K (after_cb b c i d s)"
  "rx_room s0 K n s \<Longrightarrow> rx_room s0 K n (after_log e l s)"
  "rx_room s0 K n s \<Longrightarrow> rx_room s0 K n (after_cb b c i d s)"
  by (simp_all add: after_log_def after_cb_def rx_inv_event rx_room_event)

lemma sys_recv_inv:
  "rx_inv s0 K s \<Longrightarrow> wp (sys_recv e fd n) (\<lambda>_. rx_inv s0 K) s"
  unfolding wp_sys_recv by (rule wp_syscallI) (rule rx_inv_event, simp_all)

lemma sys_recvfrom_inv:
  "rx_inv s0 K s \<Longrightarrow> wp (sys_recvfrom e fd n p) (\<lambda>_. rx_inv s0 K) s"
  unfolding wp_sys_recvfrom by (rule wp_syscallI) (rule rx_inv_event, simp_all)

lemma keeps_rx [inv_intros]:
  "(\<And>r. silent (Ev c r)) \<Longrightarrow> keeps (rx_inv s0 K) (syscall e c)"
  "keeps (rx_inv s0 K) (udtcp_log e l)"
  "keeps (rx_inv s0 K) (call_back f cb i d)"
  by (auto simp: keeps_def wp_simps intro: wp_syscallI rx_inv_event)

lemma keepsD: "keeps I m \<Longrightarrow> I s \<Longrightarrow> wp m (\<lambda>_. I) s"
  by (simp add: keeps_def)

section \<open>Reallocation\<close>

text \<open>Enough room for \<open>need\<close> bytes, or no change but an allocation that failed.\<close>

lemma ensure_buffer_room:
  assumes "rx_inv s0 K s" "need < 2 ^ 32"
  shows "wp (ensure_buffer e need)
           (\<lambda>ok s'. rx_inv s0 K s' \<and> (ok \<longrightarrow> rx_room s0 K need s')) s"
proof (cases "need > buffer_size s")
  case False
  with assms show ?thesis
    by (simp add: ensure_buffer_def wp_simps rx_room_def)
next
  case True
  have sz: "unat (of_nat need :: u32) = need"
    using assms(2) by (simp add: unat_of_nat)
  show ?thesis
  proof (cases "buffer_data s")
    case None
    with True assms sz show ?thesis
      by (auto simp: ensure_buffer_def udtcp_new_buffer_def wp_simps wp_syscall rx_room_def
          rx_inv_def buffer_ok_def heap_balanced_def buffer_block_def buffer_frame_update)
  next
    case (Some b)
    with True assms sz show ?thesis
      by (auto simp: ensure_buffer_def udtcp_new_buffer_def udtcp_free_buffer_def wp_simps
          wp_calls wp_syscall rx_room_def rx_inv_def buffer_ok_def heap_balanced_def
          buffer_block_def buffer_frame_update)
  qed
qed

text \<open>Bytes stored where there is room for them.\<close>

lemma store_buffer_room:
  assumes "rx_room s0 K n s" "off + length d \<le> n"
  shows "wp (store_buffer off d) (\<lambda>_. rx_room s0 K n) s"
proof (cases "buffer_data s")
  case None
  with assms show ?thesis
    by (auto simp: store_buffer_def wp_simps rx_room_def rx_inv_def buffer_ok_def)
next
  case (Some b)
  with assms show ?thesis
    by (auto simp: store_buffer_def wp_simps rx_room_def rx_inv_def buffer_ok_def
        heap_balanced_def buffer_block_def buffer_frame_update)
qed

lemma recv_into_room:
  assumes "rx_room s0 K n s" "off + k \<le> n"
  shows "wp (recv_into e fd off k) (\<lambda>r s'. rx_room s0 K n s' \<and> r \<le> int k) s"
proof -
  have "wp (store_buffer off (snd (recv_result k r)))
      (\<lambda>_ s'. rx_room s0 K n s' \<and> fst (recv_result k r) \<le> int k)
      (s\<lparr>hist := hist s @ [Ev (C_recv fd k) r], errno := x\<rparr>)" for r x
  proof (rule wp_mono [OF store_buffer_room [where n = n]])
    show "rx_room s0 K n (s\<lparr>hist := hist s @ [Ev (C_recv fd k) r], errno := x\<rparr>)"
      by (rule rx_room_event) (simp_all add: assms(1))
    show "off + length (snd (recv_result k r)) \<le> n"
      using assms(2) length_snd_recv_result_le [of k r] by linarith
  qed (simp add: fst_recv_result_le)
  then show ?thesis
    by (simp add: recv_into_def wp_simps wp_sys_recv)
      (rule wp_syscallI, simp add: wp_simps)
qed

lemma recvfrom_into_room:
  assumes "rx_room s0 K n s" "k \<le> n"
  shows "wp (recvfrom_into e fd k) (\<lambda>_. rx_room s0 K n) s"
proof -
  have "wp (store_buffer 0 (snd (recv_result k r))) (\<lambda>_. rx_room s0 K n)
      (s\<lparr>hist := hist s @ [Ev (C_recvfrom fd k False) r], errno := x\<rparr>)" for r x
  proof (rule store_buffer_room)
    show "rx_room s0 K n (s\<lparr>hist := hist s @ [Ev (C_recvfrom fd k False) r], errno := x\<rparr>)"
      by (rule rx_room_event) (simp_all add: assms(1))
    show "0 + length (snd (recv_result k r)) \<le> n"
      using assms(2) length_snd_recv_result_le [of k r] by linarith
  qed
  then show ?thesis
    by (simp add: recvfrom_into_def wp_simps wp_sys_recvfrom)
      (rule wp_syscallI, simp add: wp_simps)
qed

section \<open>Receiving a structure\<close>

lemma wp_recv_infos:
  "wp (recv_infos e fd i) Q s = (let r = os e (hist s) (C_recv fd (sizeof_udtcp_infos + 1));
      d = snd (recv_result (sizeof_udtcp_infos + 1) r);
      h = hist s @ [Ev (C_recv fd (sizeof_udtcp_infos + 1)) r];
      s1 = s\<lparr>hist := (if length d > sizeof_udtcp_infos then h @ [Fault StructOverflow] else h),
             errno := (if rv r < 0 then err r else errno s)\<rparr>
    in Q (fst (recv_result (sizeof_udtcp_infos + 1) r))
         (if d \<noteq> [] then s1\<lparr>infos := (infos s)[i := infos_recv d (infos s ! i)]\<rparr> else s1))"
  by (auto simp: recv_infos_def wp_simps wp_sys_recv wp_syscall Let_def hist_errno_swap)

end
