(* ===== verification/Udtcp_Receive.thy ===== *)
theory Udtcp_Receive
  imports Udtcp_Peer
begin

text \<open>
  The functions \<open>receive_tcp\<close> and \<open>receive_udp\<close>, which \<open>server_poll.c\<close> and \<open>client_poll.c\<close>
  define each for itself with the same statements.  Where the two differ there is a parameter:
  \<open>q\<close> (the client leaves an interrupted \<open>poll\<close> unlogged), \<open>res\<close> (what is returned for a
  message of a given size), \<open>close_log\<close> (the client logs an empty datagram) and \<open>sender\<close>
  (how the peer of a datagram is found).  Results are those of the C functions: negative for
  an error, \<open>0\<close> for a closed connection, positive for a message.
\<close>

section \<open>One TCP frame\<close>

text \<open>The bytes read never exceed those asked for.\<close>

lemma recv_into_le:
  "run_state (recv_into e fd off k) s = (r, s') \<Longrightarrow> r \<le> int k"
  by (auto simp: recv_into_def sys_recv_def recv_result_def run_syscall split: prod.splits if_splits)

lemma rest_decreases:
  fixes dsize got :: u32
  assumes "0 < r" "r \<le> int (unat (dsize - got))"
  shows "unat (dsize - (got + word_of_int r)) + nat r = unat (dsize - got)"
proof -
  let ?d = "dsize - got"
  have w: "(word_of_int r :: u32) = of_nat (nat r)" using assms(1) by simp
  have below: "nat r \<le> unat ?d"
    using assms by linarith
  moreover have "unat ?d < 2 ^ 32"
    using unsigned_less [of ?d, where ?'a = nat] by simp
  ultimately have small: "nat r < 2 ^ 32" by linarith
  then have un: "unat (word_of_int r :: u32) = nat r"
    by (simp add: w unat_of_nat)
  then have le: "(word_of_int r :: u32) \<le> ?d"
    using below by (simp add: word_le_nat_alt)
  have eq: "dsize - (got + word_of_int r) = ?d - word_of_int r" by simp
  show ?thesis
    unfolding eq using le un below by (simp add: unat_sub)
qed

text \<open>The loop that waits for the rest of a payload.  \<open>got\<close> is the C variable \<open>buffer_size\<close>;
  the result is \<open>1\<close> when the loop ends with all \<open>dsize\<close> bytes read, otherwise the value the
  enclosing function returns.  It ends because every pass reads at least one of the
  \<open>dsize - got\<close> missing bytes.\<close>

function recv_rest ::
    "bool \<Rightarrow> env \<Rightarrow> int \<Rightarrow> u32 \<Rightarrow> u32 \<Rightarrow> 'a peer_scheme \<Rightarrow> int \<times> 'a peer_scheme" where
  "recv_rest q e fd dsize got s =
     (if got = dsize then (1, s) else
      case run_state (sys_poll1 e fd POLLIN (-1)) s of ((ret_poll, _), s1) \<Rightarrow>
      if ret_poll < 0 then
        (if q \<and> errno s1 = EINTR then (-1, s1) else run_state (do { log_error e; ret (-1) }) s1)
      else if ret_poll = 0 then run_state (do { log_error e; ret (-1) }) s1
      else case run_state (recv_into e fd (unat got) (unat (dsize - got))) s1 of (ret_recv, s2) \<Rightarrow>
      if ret_recv < 0 then run_state (do { log_error e; ret (-1) }) s2
      else if ret_recv = 0 then (0, s2)
      else recv_rest q e fd dsize (got + word_of_int ret_recv) s2)"
  by pat_completeness auto

termination
proof (relation "measure (\<lambda>(q, e, fd, dsize, got, s). unat (dsize - got))", goal_cases)
  case 1
  then show ?case by simp
next
  case (2 q e fd dsize got s a s1 ret_poll x ret_recv s2)
  from 2 have "run_state (recv_into e fd (unat got) (unat (dsize - got))) s1 = (ret_recv, s2)"
    by simp
  from recv_into_le [OF this] have "ret_recv \<le> int (unat (dsize - got))" .
  moreover from 2 have "0 < ret_recv" by simp
  ultimately have "unat (dsize - (got + word_of_int ret_recv)) + nat ret_recv = unat (dsize - got)"
    by (intro rest_decreases)
  with \<open>0 < ret_recv\<close> show ?case by simp
qed

declare recv_rest.simps [simp del]

text \<open>The function after the size of the payload is known, and the whole function; \<open>i\<close> is the
  index of the peer's structure.\<close>

definition receive_payload ::
    "bool \<Rightarrow> (u32 \<Rightarrow> int) \<Rightarrow> env \<Rightarrow> nat \<Rightarrow> int \<Rightarrow> u32 \<Rightarrow> ('a peer_scheme, int) state" where
  "receive_payload q res e i fd data_size = do {
     ok \<leftarrow> ensure_buffer e (unat data_size);
     if \<not> ok then ret (-1) else do {
       ret_recv \<leftarrow> recv_into e fd 0 (unat data_size);
       if ret_recv < 0 then ret (-1)
       else if ret_recv = 0 then ret 0
       else do {
         rest \<leftarrow> (if ret_recv \<noteq> uint data_size
           then State (recv_rest q e fd data_size (word_of_int ret_recv)) else ret 1);
         if rest \<le> 0 then ret rest else do {
           data \<leftarrow> gets (buffer_slice 0 (unat data_size));
           call_back receive_tcp_callback ReceiveTcpCb i data;
           ret (res data_size) } } } }"

definition receive_tcp ::
    "bool \<Rightarrow> (u32 \<Rightarrow> int) \<Rightarrow> env \<Rightarrow> nat \<Rightarrow> ('a peer_scheme, int) state" where
  "receive_tcp q res e i = do {
     fd \<leftarrow> gets (\<lambda>s. tcp_socket (infos s ! i));
     (ret_recv, header) \<leftarrow> sys_recv e fd 4;
     if ret_recv < 0 then ret (-1)
     else if ret_recv = 0 then ret 0
     else if ret_recv \<noteq> 4 then do { log_error e; ret (-1) }
     else receive_payload q res e i fd (u32_of_bytes header) }"

section \<open>One UDP datagram\<close>

text \<open>\<open>ret_recv - sizeof(uint32_t) != data_size\<close>: the subtraction is made in \<open>size_t\<close>.\<close>

definition udp_size_bad :: "int \<Rightarrow> u32 \<Rightarrow> bool" where
  "udp_size_bad ret_recv data_size \<longleftrightarrow>
     ((word_of_int ret_recv :: u64) - 4) \<noteq> (of_nat (unat data_size) :: u64)"

definition receive_datagram ::
    "bool \<Rightarrow> (sockaddr_in \<Rightarrow> 'a peer_scheme \<Rightarrow> nat option) \<Rightarrow> (u32 \<Rightarrow> int) \<Rightarrow> env \<Rightarrow> int \<Rightarrow> u32 \<Rightarrow>
     ('a peer_scheme, int) state" where
  "receive_datagram close_log sender res e fd data_size = do {
     ok \<leftarrow> ensure_buffer e (4 + unat data_size);
     if \<not> ok then ret (-1) else do {
       (ret_recv, addr) \<leftarrow> recvfrom_into e fd (4 + unat data_size);
       if ret_recv < 0 then do { log_error e; ret (-1) }
       else if ret_recv = 0 then do { (if close_log then log_info e else skip); ret 0 }
       else if udp_size_bad ret_recv data_size then do { log_error e; ret (-1) }
       else do {
         peer_infos \<leftarrow> gets (sender addr);
         case peer_infos of
           None \<Rightarrow> do { log_error e; ret (-1) }
         | Some j \<Rightarrow> do {
             data \<leftarrow> gets (buffer_slice 4 (unat data_size));
             call_back receive_udp_callback ReceiveUdpCb j data;
             ret (res data_size) } } } }"

definition receive_udp ::
    "bool \<Rightarrow> (sockaddr_in \<Rightarrow> 'a peer_scheme \<Rightarrow> nat option) \<Rightarrow> (u32 \<Rightarrow> int) \<Rightarrow> env \<Rightarrow>
     ('a peer_scheme, int) state" where
  "receive_udp close_log sender res e = do {
     fd \<leftarrow> gets (\<lambda>s. udp_server_socket (infos s ! 0));
     (ret_recv, header, _) \<leftarrow> sys_recvfrom e fd 4 True;
     if ret_recv < 0 then ret (-1)
     else if ret_recv = 0 then ret 0
     else if ret_recv \<noteq> 4 then do { log_error e; ret (-1) }
     else receive_datagram close_log sender res e fd (u32_of_bytes header) }"

section \<open>The buffer stays within bounds\<close>

lemma recv_rest_room:
  assumes "rx_room s0 K n s" "unat got + unat (dsize - got) \<le> n"
  shows "case recv_rest q e fd dsize got s of (r, s') \<Rightarrow> rx_room s0 K n s' \<and> r \<le> 1"
  using assms
proof (induction q e fd dsize got s rule: recv_rest.induct)
  case (1 q e fd dsize got s)
  define s1 where "s1 = snd (run_state (sys_poll1 e fd POLLIN (-1)) s)"
  have poll: "rx_room s0 K n s1"
    using "1.prems"(1) by (simp add: s1_def sys_poll1_def run_syscall rx_room_event)
  have into: "rx_room s0 K n s2 \<and> r \<le> int (unat (dsize - got))"
    if "run_state (recv_into e fd (unat got) (unat (dsize - got))) s1 = (r, s2)" for r s2
    using wp_runI [OF recv_into_room [OF poll "1.prems"(2)] that] .
  show ?case
  proof (cases "got = dsize")
    case True
    with "1.prems" show ?thesis by (subst recv_rest.simps) simp
  next
    case False
    obtain p x where p: "run_state (sys_poll1 e fd POLLIN (-1)) s = ((p, x), s1)"
      by (cases "run_state (sys_poll1 e fd POLLIN (-1)) s") (auto simp: s1_def)
    obtain r s2 where r: "run_state (recv_into e fd (unat got) (unat (dsize - got))) s1 = (r, s2)"
      by fastforce
    have room2: "rx_room s0 K n s2" using into [OF r] by simp
    have step: "case recv_rest q e fd dsize (got + word_of_int r) s2 of
        (x, s') \<Rightarrow> rx_room s0 K n s' \<and> x \<le> 1" if "0 < p" "0 < r"
    proof (rule "1.IH" [OF False p [symmetric] refl _ _ r [symmetric]])
      have dec: "unat (dsize - (got + word_of_int r)) + nat r = unat (dsize - got)"
        using that into [OF r] by (intro rest_decreases) auto
      moreover have "unat (got + word_of_int r) \<le> unat got + nat r"
        using that by (simp add: unat_word_ariths unat_of_nat flip: of_nat_nat)
      ultimately show "unat (got + word_of_int r) + unat (dsize - (got + word_of_int r)) \<le> n"
        using "1.prems"(2) by linarith
    qed (use that room2 in auto)
    show ?thesis
      using False step poll room2
      by (auto simp: recv_rest.simps [of q e fd dsize got s] p r)
  qed
qed

text \<open>What the part after the first \<open>recv\<close> of a payload keeps.\<close>

lemma rest_inv:
  assumes "recv_rest q e fd n (word_of_int r) s = (x, s')"
    and "rx_inv s0 K s" "unat n \<le> buffer_size s" "r \<le> uint n" "0 \<le> r"
  shows "rx_inv s0 K s'" "x \<le> 1"
proof -
  have "uint n < 2 ^ 32" using unsigned_less [of n, where ?'a = int] by simp
  then have "uint (word_of_int r :: u32) = r"
    using assms(4,5) by (simp add: uint_word_of_int)
  then have le: "word_of_int r \<le> n" using assms(4) by (simp add: word_le_def)
  then have "unat (word_of_int r :: u32) + unat (n - word_of_int r) \<le> unat n"
    by (simp add: unat_sub word_le_nat_alt)
  moreover have "rx_room s0 K (unat n) s" using assms(2,3) by (simp add: rx_room_def)
  ultimately have "case recv_rest q e fd n (word_of_int r) s of
      (y, t) \<Rightarrow> rx_room s0 K (unat n) t \<and> y \<le> 1"
    by (intro recv_rest_room)
  with assms(1) show "rx_inv s0 K s'" "x \<le> 1" by (auto simp: rx_room_def)
qed

lemma receive_payload_inv:
  assumes "rx_inv s0 K s"
  shows "wp (receive_payload q res e i fd n) (\<lambda>_. rx_inv s0 K) s"
proof -
  have "unat n < 2 ^ 32" using unsigned_less [of n, where ?'a = nat] by simp
  note room = ensure_buffer_room [OF assms this]
  show ?thesis
    unfolding receive_payload_def wp_bind
    by (rule wp_mono [OF room], clarsimp simp: wp_simps)
      (rule wp_mono [OF recv_into_room [where n = "unat n"]],
        auto simp: wp_simps rx_room_def dest: rest_inv)
qed

lemma receive_tcp_inv:
  assumes "rx_inv s0 K s"
  shows "wp (receive_tcp q res e i) (\<lambda>_. rx_inv s0 K) s"
  unfolding receive_tcp_def wp_bind wp_gets
  by (rule wp_mono [OF sys_recv_inv [OF assms]])
    (auto simp: wp_simps intro: receive_payload_inv)

text \<open>For a datagram this needs that no peer announces a size whose frame does not fit a
  \<open>uint32_t\<close>.\<close>

definition udp_sizes_fit :: "env \<Rightarrow> bool" where
  "udp_sizes_fit e \<longleftrightarrow> (\<forall>h fd. length (payload (os e h (C_recvfrom fd 4 True))) \<ge> 4 \<longrightarrow>
     unat (u32_of_bytes (take 4 (payload (os e h (C_recvfrom fd 4 True))))) + 4 < 2 ^ 32)"

lemma receive_datagram_inv:
  assumes "rx_inv s0 K s" "unat n + 4 < 2 ^ 32"
  shows "wp (receive_datagram close_log sender res e fd n) (\<lambda>_. rx_inv s0 K) s"
proof -
  have "4 + unat n < 2 ^ 32" using assms(2) by simp
  note room = ensure_buffer_room [OF assms(1) this]
  show ?thesis
    unfolding receive_datagram_def wp_bind
    by (cases close_log; rule wp_mono [OF room], clarsimp simp: wp_simps,
        rule wp_mono [OF recvfrom_into_room [where n = "4 + unat n"]])
      (auto simp: wp_simps rx_room_def)
qed

lemma c_int_recv_4: "n \<le> 4 \<Longrightarrow> c_int (fst (recv_result n r)) = fst (recv_result n r)"
  by (rule c_int_id) (auto simp: recv_result_def)

lemma receive_udp_inv:
  assumes "rx_inv s0 K s" "udp_sizes_fit e"
  shows "wp (receive_udp close_log sender res e) (\<lambda>_. rx_inv s0 K) s"
proof -
  have header: "unat (u32_of_bytes (snd (recv_result 4 (os e h (C_recvfrom fd 4 True))))) + 4 < 2 ^ 32"
    if "fst (recv_result 4 (os e h (C_recvfrom fd 4 True))) = 4" for h fd
    using that assms(2) by (auto simp: recv_result_def udp_sizes_fit_def split: if_splits)
  show ?thesis
    unfolding receive_udp_def wp_bind
    by (auto simp: wp_simps wp_sys_recvfrom wp_syscall c_int_recv_4 assms(1) rx_inv_event
        intro!: receive_datagram_inv header)
qed

text \<open>The loop keeps what its three operations keep.\<close>

lemma rest_keeps:
  fixes I :: "'a peer_scheme \<Rightarrow> bool"
  assumes ops: "\<And>fds t. keeps I (syscall e (C_poll fds t))" "\<And>fd n. keeps I (syscall e (C_recv fd n))"
    "\<And>l. keeps I (udtcp_log e l)" "\<And>off d. keeps I (store_buffer off d)"
  shows "keeps I (State (recv_rest q e fd dsize got))"
proof -
  have "I s \<longrightarrow> I (snd (recv_rest q e fd dsize got s))" for s
    using ops
  proof (induction q e fd dsize got s rule: recv_rest.induct)
    case (1 q e fd dsize got s)
    note ops = "1.prems"
    obtain p x s1 where p: "run_state (sys_poll1 e fd POLLIN (-1)) s = ((p, x), s1)"
      by (metis prod.collapse)
    obtain r s2 where r: "run_state (recv_into e fd (unat got) (unat (dsize - got))) s1 = (r, s2)"
      by (metis prod.collapse)
    have k: "keeps I (sys_poll1 e fd POLLIN (-1))" "keeps I (recv_into e fd (unat got) (unat (dsize - got)))"
      unfolding sys_poll1_def recv_into_def sys_recv_def by (intro inv_intros ops)+
    have l: "I (after_log e lv t)" if "I t" for lv t
      using keepsD [OF ops(3) that] by (simp add: wp_simps)
    show ?case
    proof
      assume "I s"
      have f1: "I s1" by (rule keeps_run [OF k(1) \<open>I s\<close> p])
      have f2: "I s2" by (rule keeps_run [OF k(2) f1 r])
      show "I (snd (recv_rest q e fd dsize got s))"
        using \<open>I s\<close> f1 f2 l "1.IH" [OF _ p [symmetric] refl _ _ r [symmetric] _ _ ops]
        by (auto simp: recv_rest.simps [of q e fd dsize got s] p r)
    qed
  qed
  then show ?thesis
    by (clarsimp simp: keeps_def wp_simps split: prod.splits) (metis snd_conv)
qed

section \<open>Receivers change the buffer only\<close>

lemma keeps_buffer_frame [inv_intros]:
  "keeps (buffer_frame s0) (syscall e c)" "keeps (buffer_frame s0) (emit ev)"
  "keeps (buffer_frame s0) (udtcp_log e l)" "keeps (buffer_frame s0) (call_back f cb i d)"
  by (auto simp: keeps_def wp_simps intro: wp_syscallI buffer_frame_update)

lemma keeps_store_buffer [inv_intros]: "keeps (buffer_frame s0) (store_buffer off d)"
  unfolding store_buffer_def
  by (intro inv_intros keeps_modify) (simp_all add: buffer_frame_update)

lemma keeps_ensure_buffer [inv_intros]: "keeps (buffer_frame s0) (ensure_buffer e need)"
  unfolding ensure_buffer_def udtcp_new_buffer_def udtcp_free_buffer_def sys_do_def
  by (intro inv_intros keeps_modify) (simp_all add: buffer_frame_def)

lemma keeps_recv_into [inv_intros]:
  "keeps (buffer_frame s0) (recv_into e fd off n)" "keeps (buffer_frame s0) (recvfrom_into e fd n)"
  unfolding recv_into_def recvfrom_into_def sys_recv_def sys_recvfrom_def by (intro inv_intros)+

lemma keeps_recv_rest [inv_intros]:
  "keeps (buffer_frame s0) (State (recv_rest q e fd dsize got))"
  by (rule rest_keeps) (rule inv_intros)+

lemma receive_frame:
  "keeps (buffer_frame s0) (receive_tcp q res e i)"
  "keeps (buffer_frame s0) (receive_udp close_log sender res e)"
  unfolding receive_tcp_def receive_payload_def receive_udp_def receive_datagram_def
    sys_recv_def sys_recvfrom_def
  by (intro inv_intros)+

end
