(* ===== verification/Udtcp_Send.thy ===== *)
theory Udtcp_Send
  imports Udtcp_Peer
begin

text \<open>
  \<open>send.c\<close>: a message is sent as a frame, its length as a \<open>uint32_t\<close> in the byte order of
  the machine followed by its bytes, from a buffer that belongs to the receiver's
  \<open>infos->send\<close> and is protected by its mutex.  The functions take the structure \<open>*infos->send\<close>
  as an argument and return it updated; the mutex is named by its address, \<open>infos->send\<close>.
\<close>

section \<open>The functions\<close>

text \<open>\<open>memcpy\<close> to \<open>p\<close>, a pointer into \<open>b\<close>.\<close>

definition write_block ::
    "block option \<Rightarrow> nat option \<Rightarrow> byte list \<Rightarrow> ('a sys_scheme, block option) state" where
  "write_block b p d = (case b of
     None \<Rightarrow> do { emit (Fault NullPointer); ret b }
   | Some k \<Rightarrow> (case p of
       None \<Rightarrow> do { emit (Fault NullPointer); ret b }
     | Some off \<Rightarrow>
         if off + length d \<le> length (block_bytes k)
         then ret (Some (k\<lparr>block_bytes := overlay off d (block_bytes k)\<rparr>))
         else do { emit (Fault HeapOverflow); ret b }))"

text \<open>The reallocation part of \<open>buffer_copy\<close>: \<open>None\<close> when the allocation failed.  The sum
  \<open>data_size + sizeof(uint32_t)\<close> is a \<open>size_t\<close>, converted to the \<open>uint32_t\<close> parameter.\<close>

definition grow_send_buffer ::
    "env \<Rightarrow> udtcp_send \<Rightarrow> u32 \<Rightarrow> ('a sys_scheme, udtcp_send option) state" where
  "grow_send_buffer e sd data_size =
     (if send_buffer_size sd < data_size then do {
        new_buffer \<leftarrow> udtcp_new_buffer e (of_nat (unat data_size + 4));
        case new_buffer of
          None \<Rightarrow> ret None
        | Some b \<Rightarrow> do {
            (if send_buffer sd \<noteq> None then udtcp_free_buffer e (send_buffer sd) else skip);
            ret (Some (sd\<lparr>send_buffer := Some b, send_buffer_size := data_size,
              size_offset := Some 0, payload_offset := Some 4\<rparr>)) } }
      else ret (Some sd))"

definition buffer_copy ::
    "env \<Rightarrow> udtcp_send \<Rightarrow> byte list \<Rightarrow> u32 \<Rightarrow> ('a sys_scheme, int \<times> udtcp_send) state" where
  "buffer_copy e sd data data_size = do {
     grown \<leftarrow> grow_send_buffer e sd data_size;
     case grown of
       None \<Rightarrow> ret (-1, sd)
     | Some sd' \<Rightarrow> do {
         b1 \<leftarrow> write_block (send_buffer sd') (size_offset sd') (u32_bytes data_size);
         b2 \<leftarrow> write_block b1 (payload_offset sd') (take (unat data_size) data);
         ret (0, sd'\<lparr>send_buffer := b2\<rparr>) } }"

text \<open>The \<open>data_size + sizeof(uint32_t)\<close> bytes \<open>send\<close> reads from the buffer.\<close>

definition frame_out :: "udtcp_send \<Rightarrow> u32 \<Rightarrow> byte list" where
  "frame_out sd data_size =
     (case send_buffer sd of None \<Rightarrow> [] | Some b \<Rightarrow> take (unat data_size + 4) (block_bytes b))"

definition udtcp_send_tcp ::
    "env \<Rightarrow> udtcp_infos \<Rightarrow> udtcp_send \<Rightarrow> byte list \<Rightarrow> u32 \<Rightarrow>
     ('a sys_scheme, int \<times> udtcp_send) state" where
  "udtcp_send_tcp e x sd data data_size = do {
     l \<leftarrow> sys_int e (C_mutex_lock (send_ptr x));
     if l \<noteq> 0 then ret (0, sd) else do {
       (c, sd') \<leftarrow> buffer_copy e sd data data_size;
       if c \<noteq> 0 then do {
         sys_do e (C_mutex_unlock (send_ptr x));
         ret (0, sd') }
       else do {
         ret_send \<leftarrow> sys_send e (tcp_socket x) (frame_out sd' data_size);
         sys_do e (C_mutex_unlock (send_ptr x));
         ret (ret_send, sd') } } }"

definition udtcp_send_udp ::
    "env \<Rightarrow> udtcp_infos \<Rightarrow> udtcp_send \<Rightarrow> byte list \<Rightarrow> u32 \<Rightarrow>
     ('a sys_scheme, int \<times> udtcp_send) state" where
  "udtcp_send_udp e x sd data data_size = do {
     l \<leftarrow> sys_int e (C_mutex_lock (send_ptr x));
     if l \<noteq> 0 then ret (0, sd) else do {
       (c, sd') \<leftarrow> buffer_copy e sd data data_size;
       if c \<noteq> 0 then do {
         sys_do e (C_mutex_unlock (send_ptr x));
         ret (0, sd') }
       else do {
         ret_send \<leftarrow> sys_sendto e (udp_server_socket x) (frame_out sd' data_size)
           (udp_server_addr x);
         sys_do e (C_mutex_unlock (send_ptr x));
         ret (ret_send, sd') } } }"

section \<open>The invariant of a send structure\<close>

text \<open>The buffer holds the header and \<open>send_buffer_size\<close> bytes; the offsets point into it.\<close>

definition send_ok :: "udtcp_send \<Rightarrow> bool" where
  "send_ok sd \<longleftrightarrow> (case send_buffer sd of
     None \<Rightarrow> send_buffer_size sd = 0 \<and> size_offset sd = None \<and> payload_offset sd = None
   | Some b \<Rightarrow> unat (send_buffer_size sd) + 4 \<le> length (block_bytes b) \<and>
       size_offset sd = Some 0 \<and> payload_offset sd = Some 4)"

text \<open>A size that can be sent: not zero before the first buffer exists, and with its header
  within \<open>uint32_t\<close>.\<close>

definition sendable :: "udtcp_send \<Rightarrow> u32 \<Rightarrow> bool" where
  "sendable sd n \<longleftrightarrow> unat n + 4 < 2 ^ 32 \<and> (send_buffer sd = None \<longrightarrow> n \<noteq> 0)"

definition frame :: "byte list \<Rightarrow> byte list" where
  "frame data = u32_bytes (of_nat (length data)) @ data"

definition send_block :: "udtcp_send \<Rightarrow> int multiset" where
  "send_block sd = (case send_buffer sd of None \<Rightarrow> {#} | Some b \<Rightarrow> {#block_addr b#})"

lemma send_ok_zero: "send_ok zero_send"
  by (simp add: send_ok_def zero_send_def)

lemma length_frame [simp]: "length (frame data) = 4 + length data"
  by (simp add: frame_def)

text \<open>Growing: a structure with room for the frame, the old block freed and the new one owned.\<close>

lemma grow_send_buffer_ok:
  assumes "send_ok sd" "sendable sd n"
  shows "wp (grow_send_buffer e sd n)
    (\<lambda>g s'. (\<forall>t. g = Some t \<longrightarrow> send_ok t \<and> n \<le> send_buffer_size t \<and> send_buffer t \<noteq> None) \<and>
       faults (hist s') = faults (hist s) \<and>
       allocated (hist s') + freed (hist s) + send_block sd =
         allocated (hist s) + freed (hist s') +
         (case g of None \<Rightarrow> send_block sd | Some t \<Rightarrow> send_block t)) s"
proof (cases "send_buffer_size sd < n")
  case False
  then have "n \<le> send_buffer_size sd" by simp
  moreover from this assms have "send_buffer sd \<noteq> None"
    by (cases "send_buffer sd") (auto simp: send_ok_def sendable_def)
  ultimately show ?thesis
    using False assms by (simp add: grow_send_buffer_def wp_simps add_ac)
next
  case True
  have sz: "unat (of_nat (unat n + 4) :: u32) = unat n + 4"
    using assms(2) by (simp only: sendable_def unat_of_nat) simp
  from True assms show ?thesis
    by (cases "send_buffer sd")
      (auto simp: grow_send_buffer_def udtcp_new_buffer_def udtcp_free_buffer_def wp_simps
        wp_calls wp_syscall sz send_ok_def send_block_def add_ac simp del: of_nat_add of_nat_numeral)
qed

text \<open>Copying: the block begins with the frame of the data.\<close>

lemma buffer_copy_ok:
  assumes ok: "send_ok sd" "sendable sd n" and len: "length data = unat n"
  shows "wp (buffer_copy e sd data n)
    (\<lambda>(c, t) s'. send_ok t \<and> faults (hist s') = faults (hist s) \<and>
       (c = 0 \<longrightarrow> frame_out t n = frame data) \<and> (c \<noteq> 0 \<longrightarrow> c = -1 \<and> t = sd) \<and>
       allocated (hist s') + freed (hist s) + send_block sd =
         allocated (hist s) + freed (hist s') + send_block t) s"
proof -
  have n: "of_nat (length data) = n" using len by simp
  have copy: "wp (do {
        b1 \<leftarrow> write_block (send_buffer t) (size_offset t) (u32_bytes n);
        b2 \<leftarrow> write_block b1 (payload_offset t) (take (unat n) data);
        ret (0, t\<lparr>send_buffer := b2\<rparr>) })
      (\<lambda>(c, u) s''. s'' = s' \<and> c = 0 \<and> send_ok u \<and> frame_out u n = frame data \<and>
         send_block u = send_block t) s'"
    if t: "send_ok t" "n \<le> send_buffer_size t" "send_buffer t = Some b" for t b and s' :: "'a sys_scheme"
  proof -
    from t have room: "unat n + 4 \<le> length (block_bytes b)"
      by (simp add: send_ok_def word_le_nat_alt)
    with t len show ?thesis
      by (simp add: write_block_def wp_simps send_ok_def frame_out_def frame_def n overlay_def
          send_block_def)
  qed
  show ?thesis
    unfolding buffer_copy_def
  proof (simp only: wp_bind, rule wp_mono [OF grow_send_buffer_ok [OF ok]])
    fix g and s' :: "'a sys_scheme"
    assume g: "(\<forall>t. g = Some t \<longrightarrow> send_ok t \<and> n \<le> send_buffer_size t \<and> send_buffer t \<noteq> None) \<and>
       faults (hist s') = faults (hist s) \<and>
       allocated (hist s') + freed (hist s) + send_block sd =
         allocated (hist s) + freed (hist s') +
         (case g of None \<Rightarrow> send_block sd | Some t \<Rightarrow> send_block t)"
    show "wp (case g of None \<Rightarrow> ret (- 1 :: int, sd) | Some sd' \<Rightarrow> do {
        b1 \<leftarrow> write_block (send_buffer sd') (size_offset sd') (u32_bytes n);
        b2 \<leftarrow> write_block b1 (payload_offset sd') (take (unat n) data);
        ret (0, sd'\<lparr>send_buffer := b2\<rparr>) })
      (\<lambda>(c, t) s'. send_ok t \<and> faults (hist s') = faults (hist s) \<and>
       (c = 0 \<longrightarrow> frame_out t n = frame data) \<and> (c \<noteq> 0 \<longrightarrow> c = -1 \<and> t = sd) \<and>
       allocated (hist s') + freed (hist s) + send_block sd =
         allocated (hist s) + freed (hist s') + send_block t) s'"
    proof (cases g)
      case None
      with g ok show ?thesis by (simp add: wp_simps)
    next
      case (Some t)
      with g obtain b where t: "send_ok t" "n \<le> send_buffer_size t" "send_buffer t = Some b"
        by auto
      show ?thesis
        unfolding Some option.case
        by (rule wp_mono [OF copy [OF t]]) (use g Some in auto)
    qed
  qed
qed

end
