(* ===== verification/Udtcp_Stream.thy ===== *)
theory Udtcp_Stream
  imports Udtcp_Receive Udtcp_Send
begin

text \<open>
  What reaches the application.  A TCP connection is a stream of bytes of which every \<open>recv\<close>
  returns a next piece, of a size the kernel chooses; \<open>delivers\<close> states that of the
  environment.  The receivers then reassemble the frames of \<open>send.c\<close> whatever the pieces are.
\<close>

section \<open>The stream of a connection\<close>

fun event_bytes :: "int \<Rightarrow> event \<Rightarrow> nat" where
  "event_bytes fd (Ev (C_recv fd' n) r) = (if fd' = fd then length (snd (recv_result n r)) else 0)"
| "event_bytes fd _ = 0"

text \<open>The number of bytes read from \<open>fd\<close>.\<close>

definition consumed :: "int \<Rightarrow> event list \<Rightarrow> nat" where
  "consumed fd h = sum_list (map (event_bytes fd) h)"

lemma consumed_simps [simp]:
  "consumed fd [] = 0" "consumed fd (h @ h') = consumed fd h + consumed fd h'"
  "consumed fd (ev # h) = event_bytes fd ev + consumed fd h"
  by (simp_all add: consumed_def)

text \<open>As long as the stream has bytes, \<open>recv\<close> returns the next ones, at least one; waiting for
  them succeeds; and memory is not exhausted.\<close>

definition delivers :: "env \<Rightarrow> int \<Rightarrow> byte list \<Rightarrow> bool" where
  "delivers e fd stream \<longleftrightarrow>
     (\<forall>h n. 0 < n \<longrightarrow> consumed fd h < length stream \<longrightarrow>
        (let r = os e h (C_recv fd n); d = snd (recv_result n r) in
         0 \<le> rv r \<and> d \<noteq> [] \<and> d = take (length d) (drop (consumed fd h) stream))) \<and>
     (\<forall>h. 0 < rv (os e h (C_poll [(fd, POLLIN)] (-1)))) \<and>
     (\<forall>h n. rv (os e h (C_malloc n)) \<noteq> 0)"

lemma deliversD:
  assumes "delivers e fd stream" "0 < n" "consumed fd h < length stream"
  obtains d where "recv_result n (os e h (C_recv fd n)) = (int (length d), d)" "d \<noteq> []"
    "length d \<le> n" "d = take (length d) (drop (consumed fd h) stream)"
proof -
  let ?r = "os e h (C_recv fd n)"
  have "0 \<le> rv ?r \<and> snd (recv_result n ?r) \<noteq> [] \<and> snd (recv_result n ?r) =
      take (length (snd (recv_result n ?r))) (drop (consumed fd h) stream)"
    using assms by (auto simp: delivers_def Let_def)
  with that [of "snd (recv_result n ?r)"] show thesis
    by (simp add: recv_result_def split: if_splits)
qed

section \<open>One piece into the buffer\<close>

text \<open>What is known while a payload is being read: \<open>got\<close> bytes of \<open>data\<close> are in the buffer, the
  stream continues with the others.\<close>

definition reading ::
    "int \<Rightarrow> byte list \<Rightarrow> byte list \<Rightarrow> byte list \<Rightarrow> event list \<Rightarrow> nat \<Rightarrow> 'a peer_scheme \<Rightarrow> bool" where
  "reading fd stream data rest cbs got s \<longleftrightarrow>
     (\<exists>b. buffer_data s = Some b \<and> length data \<le> length (block_bytes b) \<and>
        take got (block_bytes b) = take got data) \<and> got \<le> length data \<and>
     consumed fd (hist s) \<le> length stream \<and>
     drop (consumed fd (hist s)) stream = drop got data @ rest \<and> callbacks (hist s) = cbs"

lemma take_overlay_next:
  assumes "take got ys = take got xs" "length xs \<le> length ys" "got + k \<le> length xs"
  shows "take (got + k) (overlay got (take k (drop got xs)) ys) = take (got + k) xs"
  using assms by (simp add: overlay_def min_absorb2 take_add)

lemma recv_into_reading:
  assumes del: "delivers e fd stream" and rd: "reading fd stream data rest cbs got s"
    and more: "got < length data"
  obtains k s' where "run_state (recv_into e fd got (length data - got)) s = (int k, s')"
    "0 < k" "got + k \<le> length data" "reading fd stream data rest cbs (got + k) s'"
    "buffer_frame s s'"
proof -
  let ?n = "length data - got" and ?h = "hist s"
  from rd obtain b where b: "buffer_data s = Some b" "length data \<le> length (block_bytes b)"
    "take got (block_bytes b) = take got data"
    and st: "drop (consumed fd ?h) stream = drop got data @ rest" "callbacks ?h = cbs"
    by (auto simp: reading_def)
  have "drop (consumed fd ?h) stream \<noteq> []" using st more by simp
  then have lt: "consumed fd ?h < length stream" by simp
  have n: "0 < ?n" using more by simp
  from deliversD [OF del n lt] obtain d where
    d: "recv_result ?n (os e ?h (C_recv fd ?n)) = (int (length d), d)" "d \<noteq> []" "length d \<le> ?n"
      "d = take (length d) (drop (consumed fd ?h) stream)" by metis
  from d(3,4) have piece: "d = take (length d) (drop got data)" by (simp add: st)
  have frame: "buffer_frame s (snd (run_state (recv_into e fd got ?n) s))"
    by (rule keeps_run_state [OF keeps_recv_into(1) buffer_frame_refl])
  have rv: "\<not> rv (os e ?h (C_recv fd ?n)) < 0"
    using d(1,2) by (auto simp: recv_result_def split: if_splits)
  define s' where "s' = snd (run_state (recv_into e fd got ?n) s)"
  have run: "run_state (recv_into e fd got ?n) s = (int (length d), s')"
    using d(2,3) b more rv
    by (simp add: s'_def recv_into_def sys_recv_def run_syscall d(1) store_buffer_def)
  have s': "s' = s\<lparr>hist := ?h @ [Ev (C_recv fd ?n) (os e ?h (C_recv fd ?n))],
      buffer_data := Some (b\<lparr>block_bytes := overlay got d (block_bytes b)\<rparr>)\<rparr>"
    using d(2,3) b more rv
    by (simp add: s'_def recv_into_def sys_recv_def run_syscall d(1) store_buffer_def)
  have "take (got + length d) (overlay got d (block_bytes b)) = take (got + length d) data"
    using take_overlay_next [OF b(3,2), of "length d"] d(3) more piece by simp
  moreover have "drop (consumed fd ?h + length d) stream = drop (got + length d) data @ rest"
    using d(3) by (simp add: add.commute [of "consumed fd ?h"] add.commute [of got] st flip: drop_drop)
  moreover have "consumed fd ?h + length d \<le> length stream"
    using d(4) lt by (metis add.commute le_diff_conv2 length_drop length_take less_imp_le min.cobounded1)
  ultimately have "reading fd stream data rest cbs (got + length d) s'"
    using b d(3) more by (simp add: s' reading_def d(1) st(2))
  with that [OF run] d(2,3) more frame show thesis by (simp add: s'_def)
qed

text \<open>The loop completes the payload.\<close>

lemma recv_rest_reading:
  assumes "delivers e fd stream" "reading fd stream data rest cbs (unat got) s"
    and "length data = unat dsize"
  shows "\<exists>s'. recv_rest q e fd dsize got s = (1, s') \<and>
    reading fd stream data rest cbs (length data) s' \<and> buffer_frame s s'"
  using assms
proof (induction q e fd dsize got s rule: recv_rest.induct)
  case (1 q e fd dsize got s)
  show ?case
  proof (cases "got = dsize")
    case True
    with "1.prems"(2,3) show ?thesis
      by (intro exI [of _ s]) (subst recv_rest.simps, simp)
  next
    case False
    from "1.prems"(2,3) have "unat got \<le> unat dsize" by (simp add: reading_def)
    with False have lt: "unat got < unat dsize"
      by (metis le_neq_implies_less word_unat_eq_iff)
    then have sub: "unat (dsize - got) = unat dsize - unat got"
      by (simp add: unat_sub word_le_nat_alt)
    define r where "r = os e (hist s) (C_poll [(fd, POLLIN)] (-1))"
    define s1 where "s1 = s\<lparr>hist := hist s @ [Ev (C_poll [(fd, POLLIN)] (-1)) r]\<rparr>"
    have pos: "0 < rv r" using "1.prems"(1) by (simp add: delivers_def r_def)
    then obtain x where p: "run_state (sys_poll1 e fd POLLIN (-1)) s = ((rv r, x), s1)"
      by (simp add: sys_poll1_def run_syscall r_def s1_def)
    have rd1: "reading fd stream data rest cbs (unat got) s1"
      using "1.prems"(2) by (simp add: reading_def s1_def)
    have "unat got < length data" using lt "1.prems"(3) by simp
    from recv_into_reading [OF "1.prems"(1) rd1 this] obtain k s2 where
      k: "run_state (recv_into e fd (unat got) (unat (dsize - got))) s1 = (int k, s2)" "0 < k"
        "unat got + k \<le> unat dsize" "reading fd stream data rest cbs (unat got + k) s2"
        "buffer_frame s1 s2"
      using "1.prems"(3) sub by metis
    have un: "unat (got + word_of_int (int k)) = unat got + k"
    proof -
      have "unat dsize < 2 ^ 32" using unsigned_less [of dsize, where ?'a = nat] by simp
      then show ?thesis using k(3) by (simp add: unat_word_ariths unat_of_nat)
    qed
    have "\<exists>s'. recv_rest q e fd dsize (got + word_of_int (int k)) s2 = (1, s') \<and>
      reading fd stream data rest cbs (length data) s' \<and> buffer_frame s2 s'"
      using pos k(2) "1.prems"(1,3) k(4)
      by (intro "1.IH" [OF False p [symmetric] refl _ _ k(1) [symmetric]]) (simp_all add: un [simplified])
    moreover have "buffer_frame s s2"
      by (rule buffer_frame_trans [OF _ k(5)]) (simp add: s1_def buffer_frame_update)
    ultimately show ?thesis
      using False pos k(1,2)
      by (auto simp: recv_rest.simps [of q e fd dsize got s] p intro: buffer_frame_trans)
  qed
qed

section \<open>A whole frame\<close>

lemma ensure_buffer_run:
  assumes "\<And>h n. rv (os e h (C_malloc n)) \<noteq> 0" "buffer_ok s" "0 < need" "need < 2 ^ 32"
  obtains s' b where "run_state (ensure_buffer e need) s = (True, s')" "buffer_frame s s'"
    "buffer_data s' = Some b" "need \<le> length (block_bytes b)"
    "\<And>fd. consumed fd (hist s') = consumed fd (hist s)" "callbacks (hist s') = callbacks (hist s)"
proof -
  define s' where "s' = snd (run_state (ensure_buffer e need) s)"
  have frame: "buffer_frame s s'"
    unfolding s'_def by (rule keeps_run_state [OF keeps_ensure_buffer buffer_frame_refl])
  have sz: "unat (of_nat need :: u32) = need" using assms(4) by (simp add: unat_of_nat)
  have "fst (run_state (ensure_buffer e need) s) \<and>
    (\<exists>b. buffer_data s' = Some b \<and> need \<le> length (block_bytes b)) \<and>
    (\<forall>fd. consumed fd (hist s') = consumed fd (hist s)) \<and> callbacks (hist s') = callbacks (hist s)"
  proof (cases "buffer_data s")
    case None
    with assms show ?thesis
      by (auto simp: s'_def ensure_buffer_def udtcp_new_buffer_def run_syscall buffer_ok_def sz)
  next
    case (Some b)
    with assms show ?thesis
      by (auto simp: s'_def ensure_buffer_def udtcp_new_buffer_def udtcp_free_buffer_def sys_do_def
          run_syscall buffer_ok_def sz)
  qed
  then obtain b where "run_state (ensure_buffer e need) s = (True, s')"
    "buffer_data s' = Some b" "need \<le> length (block_bytes b)"
    "\<And>fd. consumed fd (hist s') = consumed fd (hist s)" "callbacks (hist s') = callbacks (hist s)"
    by (auto simp: s'_def prod_eq_iff)
  with that frame show thesis by blast
qed

lemma receive_payload_delivers:
  assumes del: "delivers e fd stream" and ok: "buffer_ok s"
    and pos: "consumed fd (hist s) \<le> length stream"
    and st: "drop (consumed fd (hist s)) stream = data @ rest"
    and len: "length data = unat n" "data \<noteq> []"
  shows "\<exists>s'. run_state (receive_payload q res e i fd n) s = (res n, s') \<and>
    drop (consumed fd (hist s')) stream = rest \<and> consumed fd (hist s') \<le> length stream \<and>
    callbacks (hist s') = callbacks (hist s) @
      (if receive_tcp_callback s then [Cb ReceiveTcpCb i data] else []) \<and> buffer_frame s s'"
proof -
  have malloc: "\<And>h n. rv (os e h (C_malloc n)) \<noteq> 0" using del by (simp add: delivers_def)
  have n0: "0 < unat n" "0 < length data" using len by (simp_all flip: len(1))
  have n32: "unat n < 2 ^ 32" using unsigned_less [of n, where ?'a = nat] by simp
  obtain s1 b where
    s1: "run_state (ensure_buffer e (unat n)) s = (True, s1)" "buffer_frame s s1"
      "buffer_data s1 = Some b" "unat n \<le> length (block_bytes b)"
      "\<And>fd. consumed fd (hist s1) = consumed fd (hist s)" "callbacks (hist s1) = callbacks (hist s)"
    by (rule ensure_buffer_run [OF malloc ok n0(1) n32]) (rule that)
  have "reading fd stream data rest (callbacks (hist s)) 0 s1"
    using s1 st len pos by (simp add: reading_def)
  from recv_into_reading [OF del this n0(2)] obtain k s2 where
    k: "run_state (recv_into e fd 0 (unat n)) s1 = (int k, s2)" "0 < k" "k \<le> unat n"
      "reading fd stream data rest (callbacks (hist s)) k s2" "buffer_frame s1 s2"
    using len(1) by auto
  have uk: "unat (word_of_int (int k) :: u32) = k"
    using k(3) n32 by (simp add: unat_of_nat)
  have "\<exists>s3. run_state (if int k \<noteq> uint n then State (recv_rest q e fd n (word_of_int (int k)))
      else ret 1) s2 = (1, s3) \<and> reading fd stream data rest (callbacks (hist s)) (unat n) s3 \<and>
      buffer_frame s2 s3"
  proof (cases "int k = uint n")
    case True
    then have "k = unat n" by (metis nat_int unat_eq_nat_uint)
    with k(4) True show ?thesis by simp
  next
    case False
    with recv_rest_reading [OF del, of data rest "callbacks (hist s)" "word_of_int (int k)" s2 n q]
      k(4) len(1) uk show ?thesis by simp
  qed
  then obtain s3 where s3: "run_state (if int k \<noteq> uint n then State (recv_rest q e fd n
      (word_of_int (int k))) else ret 1) s2 = (1, s3)"
    "reading fd stream data rest (callbacks (hist s)) (unat n) s3" "buffer_frame s2 s3" by blast
  have slice: "buffer_slice 0 (unat n) s3 = data"
    using s3(2) len(1) by (auto simp: reading_def buffer_slice_def slice_def)
  have frame: "buffer_frame s s3" using s1(2) k(5) s3(3) by (blast intro: buffer_frame_trans)
  then have cb: "receive_tcp_callback s3 = receive_tcp_callback s" by (rule buffer_frame_fields)
  have "run_state (receive_payload q res e i fd n) s =
      (res n, after_cb (receive_tcp_callback s3) ReceiveTcpCb i data s3)"
    using k(2) by (simp add: receive_payload_def s1(1) k(1) s3(1) slice del: of_nat_0_less_iff)
  moreover have "drop (consumed fd (hist s3)) stream = rest"
    "consumed fd (hist s3) \<le> length stream" "callbacks (hist s3) = callbacks (hist s)"
    using s3(2) len by (auto simp: reading_def)
  ultimately show ?thesis
    using frame cb by (auto simp: after_cb_def intro: buffer_frame_update)
qed

text \<open>The header is four bytes, which \<open>receive_tcp\<close> expects from a single \<open>recv\<close>.\<close>

definition whole_header :: "env \<Rightarrow> int \<Rightarrow> event list \<Rightarrow> bool" where
  "whole_header e fd h \<longleftrightarrow> length (snd (recv_result 4 (os e h (C_recv fd 4)))) = 4"

lemma receive_tcp_delivers:
  assumes del: "delivers e fd stream" and ok: "buffer_ok s" and fd: "fd = tcp_socket (infos s ! i)"
    and pos: "consumed fd (hist s) \<le> length stream"
    and st: "drop (consumed fd (hist s)) stream = frame data @ rest"
    and len: "data \<noteq> []" "length data < 2 ^ 32" and header: "whole_header e fd (hist s)"
  shows "\<exists>s'. run_state (receive_tcp q res e i) s = (res (of_nat (length data)), s') \<and>
    drop (consumed fd (hist s')) stream = rest \<and> consumed fd (hist s') \<le> length stream \<and>
    callbacks (hist s') = callbacks (hist s) @
      (if receive_tcp_callback s then [Cb ReceiveTcpCb i data] else []) \<and> buffer_frame s s'"
proof -
  let ?r = "os e (hist s) (C_recv fd 4)"
  let ?n = "of_nat (length data) :: u32"
  have "drop (consumed fd (hist s)) stream \<noteq> []" by (simp add: st frame_def flip: length_0_conv)
  then have lt: "consumed fd (hist s) < length stream" by simp
  obtain d where d: "recv_result 4 ?r = (int (length d), d)" "d = take (length d) (frame data @ rest)"
    using deliversD [OF del zero_less_numeral lt] unfolding st by metis
  have l4: "length d = 4" using header d(1) by (simp add: whole_header_def)
  with d(2) have dh: "d = u32_bytes ?n" by (simp add: frame_def)
  have rv: "\<not> rv ?r < 0" using d(1) l4 by (auto simp: recv_result_def split: if_splits)
  define s1 where "s1 = s\<lparr>hist := hist s @ [Ev (C_recv fd 4) ?r]\<rparr>"
  have run: "run_state (receive_tcp q res e i) s = run_state (receive_payload q res e i fd ?n) s1"
    using rv by (simp add: receive_tcp_def sys_recv_def run_syscall d(1) l4 dh s1_def
        flip: fd)
  have un: "length data = unat ?n" using len(2) by (simp add: unat_of_nat)
  have st1: "drop (consumed fd (hist s1)) stream = data @ rest"
    using st by (simp add: s1_def d(1) l4 frame_def add.commute flip: drop_drop)
  have "consumed fd (hist s) + 4 \<le> length stream"
    using arg_cong [OF st, of length] lt by simp
  then have pos1: "consumed fd (hist s1) \<le> length stream" by (simp add: s1_def d(1) l4)
  have ok1: "buffer_ok s1" using ok by (simp add: s1_def)
  have f1: "buffer_frame s s1" by (simp add: s1_def buffer_frame_update)
  have c1: "callbacks (hist s1) = callbacks (hist s)" "receive_tcp_callback s1 = receive_tcp_callback s"
    by (simp_all add: s1_def)
  from receive_payload_delivers [OF del ok1 pos1 st1 un len(1), of q res i] c1
  show ?thesis unfolding run by (auto intro: buffer_frame_trans [OF f1])
qed

section \<open>A datagram\<close>

text \<open>The number of datagrams taken from \<open>fd\<close>; a peek takes none.\<close>

fun event_taken :: "int \<Rightarrow> event \<Rightarrow> nat" where
  "event_taken fd (Ev (C_recvfrom fd' n peek) r) = (if fd' = fd \<and> \<not> peek \<and> 0 \<le> rv r then 1 else 0)"
| "event_taken fd _ = 0"

definition taken :: "int \<Rightarrow> event list \<Rightarrow> nat" where
  "taken fd h = sum_list (map (event_taken fd) h)"

lemma taken_simps [simp]:
  "taken fd [] = 0" "taken fd (h @ h') = taken fd h + taken fd h'"
  "taken fd (ev # h) = event_taken fd ev + taken fd h"
  by (simp_all add: taken_def)

text \<open>The next datagram on \<open>fd\<close> is \<open>bs\<close> from \<open>a\<close>: a peek of four bytes shows its beginning, and until a
  datagram has been taken a read takes it.\<close>

definition next_datagram :: "env \<Rightarrow> int \<Rightarrow> byte list \<Rightarrow> sockaddr_in \<Rightarrow> event list \<Rightarrow> bool" where
  "next_datagram e fd bs a h \<longleftrightarrow>
     recv_result 4 (os e h (C_recvfrom fd 4 True)) = (int (length (take 4 bs)), take 4 bs) \<and>
     (\<forall>h' n. taken fd h' = taken fd h \<longrightarrow>
        recv_result n (os e h' (C_recvfrom fd n False)) = (int (length (take n bs)), take n bs) \<and>
        from_addr (os e h' (C_recvfrom fd n False)) = a) \<and>
     (\<forall>h n. rv (os e h (C_malloc n)) \<noteq> 0)"

lemma udp_size_ok:
  assumes "length data + 4 < 2 ^ 31"
  shows "\<not> udp_size_bad (c_int (int (length data + 4))) (of_nat (length data))"
proof -
  have "unat (of_nat (length data) :: u32) = length data" using assms by (simp add: unat_of_nat)
  then show ?thesis using assms by (simp add: udp_size_bad_def c_int_id)
qed

lemma receive_udp_delivers:
  assumes nx: "next_datagram e fd (frame data) a (hist s)" and ok: "buffer_ok s"
    and fd: "fd = udp_server_socket (infos s ! 0)" and len: "length data + 4 < 2 ^ 31"
    and sender: "\<And>t. buffer_frame s t \<Longrightarrow> sender a t = Some j"
  shows "\<exists>s'. run_state (receive_udp close_log sender res e) s = (res (of_nat (length data)), s') \<and>
    callbacks (hist s') = callbacks (hist s) @
      (if receive_udp_callback s then [Cb ReceiveUdpCb j data] else []) \<and> buffer_frame s s' \<and>
    taken fd (hist s') = Suc (taken fd (hist s))"
proof -
  let ?n = "of_nat (length data) :: u32" and ?r = "os e (hist s) (C_recvfrom fd 4 True)"
  have un: "unat ?n = length data" using len by (simp add: unat_of_nat)
  have malloc: "\<And>h n. rv (os e h (C_malloc n)) \<noteq> 0" using nx by (simp add: next_datagram_def)
  have hd4: "take 4 (frame data) = u32_bytes ?n" by (simp add: frame_def)
  with nx have r: "recv_result 4 ?r = (4, u32_bytes ?n)" by (simp add: next_datagram_def)
  then have rv: "\<not> rv ?r < 0" by (auto simp: recv_result_def split: if_splits)
  have c4: "c_int 4 = 4" by (simp add: c_int_id)
  define s1 where "s1 = s\<lparr>hist := hist s @ [Ev (C_recvfrom fd 4 True) ?r]\<rparr>"
  have run: "run_state (receive_udp close_log sender res e) s =
      run_state (receive_datagram close_log sender res e fd ?n) s1"
    using rv by (simp add: receive_udp_def sys_recvfrom_def run_syscall r c4 s1_def flip: fd)
  have f1: "buffer_frame s s1" by (simp add: s1_def buffer_frame_update)
  have ok1: "buffer_ok s1" using ok by (simp add: s1_def)
  have n4: "0 < 4 + length data" "4 + length data < 2 ^ 32" using len by simp_all
  obtain s2 b where s2: "run_state (ensure_buffer e (4 + length data)) s1 = (True, s2)"
    "buffer_frame s1 s2" "buffer_data s2 = Some b" "4 + length data \<le> length (block_bytes b)"
    "callbacks (hist s2) = callbacks (hist s1)"
    by (rule ensure_buffer_run [OF malloc ok1 n4]) (rule that)
  define q where "q = os e (hist s2) (C_recvfrom fd (4 + length data) False)"
  have t2: "taken fd (hist s2) = taken fd (hist s)"
  proof -
    have "keeps (\<lambda>t. taken fd (hist t) = taken fd (hist s)) (ensure_buffer e (4 + length data))"
      unfolding ensure_buffer_def udtcp_new_buffer_def udtcp_free_buffer_def sys_do_def
      by (intro inv_intros keeps_modify keeps_syscall) (auto simp: keeps_def wp_simps after_log_def)
    from keeps_run [OF this _ s2(1)] show ?thesis by (simp add: s1_def)
  qed
  from nx t2 have q: "recv_result (4 + length data) q = (int (4 + length data), frame data)"
    "from_addr q = a" by (simp_all add: next_datagram_def q_def)
  then have rvq: "\<not> rv q < 0" by (auto simp: recv_result_def split: if_splits)
  define s3 where "s3 = s2\<lparr>hist := hist s2 @ [Ev (C_recvfrom fd (4 + length data) False) q],
     buffer_data := Some (b\<lparr>block_bytes := overlay 0 (frame data) (block_bytes b)\<rparr>)\<rparr>"
  have ne: "frame data \<noteq> []" by (simp flip: length_0_conv)
  have ci: "c_int (int (4 + length data)) = int (4 + length data)" using len by (intro c_int_id) simp_all
  have s3: "run_state (recvfrom_into e fd (4 + length data)) s2 = ((int (4 + length data), a), s3)"
    using rvq s2(3,4) ne ci
    by (simp add: recvfrom_into_def sys_recvfrom_def run_syscall q s3_def store_buffer_def
        flip: q_def)
  have f3: "buffer_frame s s3"
    using buffer_frame_trans [OF f1 s2(2)] by (simp add: s3_def buffer_frame_update)
  have slice: "buffer_slice 4 (length data) s3 = data"
    using s2(4) by (simp add: buffer_slice_def s3_def slice_def overlay_def frame_def)
  have bad: "\<not> udp_size_bad (4 + int (length data)) ?n"
    using udp_size_ok [OF len] ci by (simp add: add.commute)
  have "run_state (receive_datagram close_log sender res e fd ?n) s1 =
      (res ?n, after_cb (receive_udp_callback s3) ReceiveUdpCb j data s3)"
    using bad by (simp add: receive_datagram_def un s2(1) s3 [simplified] sender [OF f3] slice)
  moreover have "receive_udp_callback s3 = receive_udp_callback s" by (rule buffer_frame_fields [OF f3])
  moreover have "callbacks (hist s3) = callbacks (hist s)" by (simp add: s3_def s2(5) s1_def)
  moreover have "taken fd (hist (after_cb b ReceiveUdpCb j data s3)) = Suc (taken fd (hist s))" for b
    using rvq by (simp add: after_cb_def s3_def t2)
  ultimately show ?thesis unfolding run using f3 by auto
qed

section \<open>What a sender puts on the network\<close>

text \<open>The bytes the kernel has accepted on a connection, the datagrams it has accepted, and
  how often a mutex is held.\<close>

fun event_sent :: "int \<Rightarrow> event \<Rightarrow> byte list" where
  "event_sent fd (Ev (C_send fd' bs) r) = (if fd' = fd \<and> 0 \<le> rv r then take (nat (rv r)) bs else [])"
| "event_sent fd _ = []"

fun event_datagram :: "event \<Rightarrow> (int \<times> byte list \<times> sockaddr_in) list" where
  "event_datagram (Ev (C_sendto fd bs a) r) = (if 0 \<le> rv r then [(fd, bs, a)] else [])"
| "event_datagram _ = []"

fun event_held :: "u64 \<Rightarrow> event \<Rightarrow> int" where
  "event_held m (Ev (C_mutex_lock m') r) = (if m' = m \<and> rv r = 0 then 1 else 0)"
| "event_held m (Ev (C_mutex_unlock m') r) = (if m' = m then -1 else 0)"
| "event_held m _ = 0"

definition sent_on :: "int \<Rightarrow> event list \<Rightarrow> byte list" where
  "sent_on fd h = concat (map (event_sent fd) h)"

definition datagrams :: "event list \<Rightarrow> (int \<times> byte list \<times> sockaddr_in) list" where
  "datagrams h = concat (map event_datagram h)"

definition held :: "u64 \<Rightarrow> event list \<Rightarrow> int" where
  "held m h = sum_list (map (event_held m) h)"

lemma network_simps [simp]:
  "sent_on fd [] = []" "datagrams [] = []" "held m [] = 0"
  "sent_on fd (h @ h') = sent_on fd h @ sent_on fd h'"
  "datagrams (h @ h') = datagrams h @ datagrams h'" "held m (h @ h') = held m h + held m h'"
  "sent_on fd (ev # h) = event_sent fd ev @ sent_on fd h"
  "datagrams (ev # h) = event_datagram ev @ datagrams h"
  "held m (ev # h) = event_held m ev + held m h"
  by (simp_all add: sent_on_def datagrams_def held_def)

text \<open>Filling the buffer does none of that.\<close>

definition network_same :: "event list \<Rightarrow> event list \<Rightarrow> bool" where
  "network_same h h' \<longleftrightarrow> (\<forall>fd. sent_on fd h' = sent_on fd h) \<and> datagrams h' = datagrams h \<and>
     (\<forall>m. held m h' = held m h)"

lemma write_block_network: "keeps (\<lambda>s. network_same h (hist s)) (write_block b p d)"
  unfolding write_block_def
  by (intro inv_intros keeps_emit) (simp_all add: network_same_def)

lemma buffer_copy_network: "keeps (\<lambda>s. network_same h (hist s)) (buffer_copy e sd data n)"
  unfolding buffer_copy_def grow_send_buffer_def udtcp_new_buffer_def udtcp_free_buffer_def
    sys_do_def
  by (intro inv_intros write_block_network keeps_syscall) (simp_all add: network_same_def)

lemma buffer_copy_frame:
  assumes "send_ok sd" "sendable sd n" "length data = unat n"
  shows "wp (buffer_copy e sd data n) (\<lambda>(c, t) s'. send_ok t \<and> faults (hist s') = faults (hist s) \<and>
    (c = 0 \<longrightarrow> frame_out t n = frame data) \<and> network_same (hist s) (hist s') \<and>
    allocated (hist s') + freed (hist s) + send_block sd =
      allocated (hist s) + freed (hist s') + send_block t) s"
proof -
  have "wp (buffer_copy e sd data n) (\<lambda>_ s'. network_same (hist s) (hist s')) s"
    by (rule keepsD [OF buffer_copy_network]) (simp add: network_same_def)
  with buffer_copy_ok [OF assms, of e s] show ?thesis
    unfolding wp_run by fastforce
qed

text \<open>The outcome of sending one message; \<open>sent\<close> says what the kernel took.\<close>

definition send_outcome ::
    "u64 \<Rightarrow> udtcp_send \<Rightarrow> event list \<Rightarrow> (int \<Rightarrow> event list \<Rightarrow> bool) \<Rightarrow> int \<times> udtcp_send \<Rightarrow> event list \<Rightarrow> bool" where
  "send_outcome m sd h sent = (\<lambda>(r, sd') h'. send_ok sd' \<and> faults h' = faults h \<and>
     held m h' = held m h \<and> sent r h' \<and>
     allocated h' + freed h + send_block sd = allocated h + freed h' + send_block sd')"

lemma send_tcp_outcome:
  assumes "send_ok sd" "sendable sd n" "length data = unat n"
  shows "wp (udtcp_send_tcp e x sd data n) (\<lambda>r s'. send_outcome (send_ptr x) sd (hist s)
    (\<lambda>r h'. sent_on (tcp_socket x) h' = sent_on (tcp_socket x) (hist s) @ take (nat r) (frame data))
    r (hist s')) s"
proof (cases "rv (os e (hist s) (C_mutex_lock (send_ptr x))) = 0")
  case False
  then show ?thesis
    using assms(1) by (simp add: udtcp_send_tcp_def wp_simps wp_calls wp_syscall send_outcome_def)
next
  case True
  have part: "take (nat (rv r)) ys = take (nat (min (rv r) (int (length ys)))) ys"
    for r :: reply and ys :: "byte list"
    by (cases "rv r \<le> int (length ys)") simp_all
  show ?thesis
    unfolding udtcp_send_tcp_def wp_bind wp_calls wp_syscall
    using True
    by (simp add: wp_bind)
      (rule wp_mono [OF buffer_copy_frame [OF assms]],
        auto simp: wp_simps wp_calls wp_syscall send_outcome_def network_same_def
          part [of _ "frame data"] add_ac)
qed

lemma send_udp_outcome:
  assumes "send_ok sd" "sendable sd n" "length data = unat n"
  shows "wp (udtcp_send_udp e x sd data n) (\<lambda>r s'. send_outcome (send_ptr x) sd (hist s)
    (\<lambda>r h'. datagrams h' = datagrams (hist s) \<and> r \<le> 0 \<or> datagrams h' =
       datagrams (hist s) @ [(udp_server_socket x, frame data, udp_server_addr x)] \<and> 0 \<le> r)
    r (hist s')) s"
proof (cases "rv (os e (hist s) (C_mutex_lock (send_ptr x))) = 0")
  case False
  then show ?thesis
    using assms(1) by (simp add: udtcp_send_udp_def wp_simps wp_calls wp_syscall send_outcome_def)
next
  case True
  show ?thesis
    unfolding udtcp_send_udp_def wp_bind wp_calls wp_syscall
    using True
    by (simp add: wp_bind)
      (rule wp_mono [OF buffer_copy_frame [OF assms]],
        auto simp: wp_simps wp_calls wp_syscall send_outcome_def network_same_def add_ac)
qed

end
