(* ===== verification/Udtcp_Server.thy ===== *)
theory Udtcp_Server
  imports Udtcp_Peer
begin

text \<open>
  \<open>struct udtcp_server_s\<close>.  Slot 0 of \<open>infos\<close> describes the server itself, slot 1 is
  unused, the slots from 2 to \<open>poll_nfds - 1\<close> describe the connected clients; \<open>poll_fds\<close>
  runs in parallel, with the listening socket in slot 0 and the UDP socket in slot 1.

  \<open>sends_base\<close> is the address of the array \<open>sends\<close>, whose elements take 72 bytes;
  \<open>stray_fd\<close> and \<open>stray_infos\<close> are the bytes behind the arrays \<open>poll_fds\<close> and \<open>infos\<close>,
  read as an element.
\<close>

record server = peer +
  sends :: "udtcp_send list"
  sends_base :: u64
  count_id :: u64
  stray_fd :: pollfd
  stray_infos :: udtcp_infos

definition sizeof_udtcp_send :: nat where
  "sizeof_udtcp_send = 72"

definition sends_addr :: "server \<Rightarrow> nat \<Rightarrow> u64" where
  "sends_addr s k = sends_base s + of_nat (sizeof_udtcp_send * k)"

section \<open>Invariants\<close>

definition server_wf :: "server \<Rightarrow> bool" where
  "server_wf s \<longleftrightarrow> length (infos s) = UDTCP_POLL_TABLE_SIZE \<and>
     length (poll_fds s) = UDTCP_POLL_TABLE_SIZE \<and> length (sends s) = UDTCP_POLL_TABLE_SIZE \<and>
     2 \<le> poll_nfds s \<and> poll_nfds s \<le> UDTCP_POLL_TABLE_SIZE"

text \<open>A connected slot polls the socket of its client.\<close>

definition slot_live :: "server \<Rightarrow> nat \<Rightarrow> bool" where
  "slot_live s i \<longleftrightarrow> pfd (poll_fds s ! i) = tcp_socket (infos s ! i) \<and> 0 \<le> tcp_socket (infos s ! i)"

definition server_inv :: "server \<Rightarrow> bool" where
  "server_inv s \<longleftrightarrow> server_wf s \<and> (\<forall>i. 2 \<le> i \<longrightarrow> i < poll_nfds s \<longrightarrow> slot_live s i)"

text \<open>During a scan a slot can also be marked for removal.\<close>

definition scan_inv :: "server \<Rightarrow> bool" where
  "scan_inv s \<longleftrightarrow> server_wf s \<and>
     (\<forall>i. 2 \<le> i \<longrightarrow> i < poll_nfds s \<longrightarrow> slot_live s i \<or> pfd (poll_fds s ! i) = -1)"

text \<open>The clients, in the order of the table.\<close>

definition clients :: "server \<Rightarrow> (pollfd \<times> udtcp_infos) list" where
  "clients s = drop 2 (take (poll_nfds s) (zip (poll_fds s) (infos s)))"

text \<open>The identifiers of the connected clients are distinct and below the counter.\<close>

definition ids :: "server \<Rightarrow> u64 list" where
  "ids s = map (\<lambda>c. info_id (snd c)) (clients s)"

definition ids_inv :: "server \<Rightarrow> bool" where
  "ids_inv s \<longleftrightarrow> distinct (ids s) \<and> (\<forall>x \<in> set (ids s). x < count_id s)"

lemma server_inv_scan: "server_inv s \<Longrightarrow> scan_inv s"
  by (simp add: server_inv_def scan_inv_def)

lemma length_clients: "server_wf s \<Longrightarrow> length (clients s) = poll_nfds s - 2"
  by (simp add: clients_def server_wf_def)

lemma clients_nth:
  assumes "server_wf s" "j < poll_nfds s - 2"
  shows "clients s ! j = (poll_fds s ! (j + 2), infos s ! (j + 2))"
proof -
  have "j + 2 < length (poll_fds s)" "j + 2 < length (infos s)"
    using assms by (auto simp: server_wf_def)
  then have "zip (poll_fds s) (infos s) ! (j + 2) = (poll_fds s ! (j + 2), infos s ! (j + 2))"
    by (rule nth_zip)
  then show ?thesis
    using assms by (simp add: clients_def server_wf_def)
qed

lemma clients_upt: "server_wf s \<Longrightarrow> clients s = map (\<lambda>k. (poll_fds s ! k, infos s ! k)) [2..<poll_nfds s]"
  by (rule nth_equalityI) (simp_all add: length_clients clients_nth add.commute)

lemma server_more:
  assumes "peer.more s = peer.more t"
  shows "sends s = sends t" "sends_base s = sends_base t" "count_id s = count_id t"
    "stray_fd s = stray_fd t" "stray_infos s = stray_infos t"
  using assms by (cases s; cases t; simp)+

text \<open>What the receive functions leave alone is enough to keep the invariants.\<close>

lemma rx_inv_fields:
  fixes s0 s :: server
  assumes "rx_inv s0 K s"
  shows "infos s = infos s0" "poll_fds s = poll_fds s0" "poll_nfds s = poll_nfds s0"
    "sends s = sends s0" "sends_base s = sends_base s0" "count_id s = count_id s0"
    "stray_fd s = stray_fd s0" "stray_infos s = stray_infos s0" "poll_loop s = poll_loop s0"
proof -
  have f: "buffer_frame s0 s" using assms by (simp add: rx_inv_def)
  show "infos s = infos s0" "poll_fds s = poll_fds s0" "poll_nfds s = poll_nfds s0"
    "poll_loop s = poll_loop s0"
    by (rule buffer_frame_fields [OF f])+
  show "sends s = sends s0" "sends_base s = sends_base s0" "count_id s = count_id s0"
    "stray_fd s = stray_fd s0" "stray_infos s = stray_infos s0"
    by (rule server_more [OF buffer_frame_fields(6) [OF f]])+
qed

lemma scan_inv_cong:
  assumes "infos s = infos s0" "poll_fds s = poll_fds s0" "poll_nfds s = poll_nfds s0"
    "sends s = sends s0"
  shows "scan_inv s = scan_inv s0" "server_inv s = server_inv s0" "server_wf s = server_wf s0"
    "clients s = clients s0" "ids s = ids s0"
  using assms
  by (simp_all add: scan_inv_def server_inv_def server_wf_def slot_live_def clients_def ids_def)

end
