(* ===== verification/Udtcp_Drain.thy ===== *)
theory Udtcp_Drain
  imports Udtcp_Peer
begin

text \<open>
  The pattern both poll functions use on a readable socket:
  \<^verbatim>\<open>
    ret = receive(...);
    while (peer->poll_loop && again(ret)) ret = receive(...);
  \<close>
  \<open>drain\<close> is that loop over any receiver; \<open>None\<close> means that it never ends.  The locale
  \<open>drained\<close> is the contract a receiver offers the loop (it keeps an invariant),
  \<open>drained_finite\<close> adds a bound on the number of times it can ask to be called again.
\<close>

definition drain ::
    "env \<Rightarrow> (int \<Rightarrow> bool) \<Rightarrow> ('a peer_scheme, int) state \<Rightarrow> 'a peer_scheme \<Rightarrow>
     (int \<times> 'a peer_scheme) option" where
  "drain e again m s = while_option (\<lambda>(r, s). looping e s \<and> again r) (\<lambda>(_, s). run_state m s)
     (run_state m s)"

locale drained =
  fixes m :: "('a peer_scheme, int) state"
    and inv :: "'a peer_scheme \<Rightarrow> bool"
  assumes step: "inv s \<Longrightarrow> wp m (\<lambda>_. inv) s"
begin

lemma run_inv: "inv s \<Longrightarrow> run_state m s = (r, s') \<Longrightarrow> inv s'"
  using step by (blast dest: wp_runI)

lemma drain_inv:
  assumes "inv s" "drain e again m s = Some (r, s')"
  shows "inv s'"
proof -
  have "case (r, s') of (_, t) \<Rightarrow> inv t"
  proof (rule while_option_rule [OF _ assms(2) [unfolded drain_def], where P = "\<lambda>(_, t). inv t"])
    show "case (case x of (_, t) \<Rightarrow> run_state m t) of (_, t) \<Rightarrow> inv t"
      if "case x of (_, t) \<Rightarrow> inv t" for x
      using that by (auto split: prod.splits dest: run_inv)
    show "case run_state m s of (_, t) \<Rightarrow> inv t"
      using assms(1) by (auto split: prod.splits dest: run_inv)
  qed
  then show ?thesis by simp
qed

end

text \<open>The loop ends only because it was told to.\<close>

lemma drain_stops:
  "drain e again m s = Some (r, s') \<Longrightarrow> \<not> again r \<or> \<not> looping e s'"
  by (auto simp: drain_def dest: while_option_stop)

locale drained_finite = drained +
  fixes again :: "int \<Rightarrow> bool"
    and room :: "'a peer_scheme \<Rightarrow> nat"
  assumes progress: "inv s \<Longrightarrow> run_state m s = (r, s') \<Longrightarrow> again r \<Longrightarrow> room s' < room s"
begin

lemma drain_terminates:
  assumes "inv s"
  shows "\<exists>r s'. drain e again m s = Some (r, s')"
proof -
  define b where "b = (\<lambda>(r, s :: 'a peer_scheme). looping e s \<and> again r)"
  define f where "f = (\<lambda>(q, t :: 'a peer_scheme). if again q then Suc (room t) else 0)"
  have "\<exists>t. while_option b (\<lambda>(_, s). run_state m s) (run_state m s) = Some t"
  proof (rule measure_while_option_Some [where P = "\<lambda>(_, t). inv t" and f = f])
    show "case run_state m s of (_, t) \<Rightarrow> inv t"
      using assms by (auto split: prod.splits dest: run_inv)
    fix x assume x: "case x of (_, t) \<Rightarrow> inv t" "b x"
    obtain q t where qt: "x = (q, t)" by (cases x)
    obtain q' t' where run: "run_state m t = (q', t')" by fastforce
    have "inv t'" using x qt run run_inv by simp
    moreover have "again q' \<Longrightarrow> room t' < room t" using x qt run progress by simp
    ultimately show "(case case x of (_, s) \<Rightarrow> run_state m s of (_, t) \<Rightarrow> inv t) \<and>
        f (case x of (_, s) \<Rightarrow> run_state m s) < f x"
      using x qt run by (simp add: b_def f_def)
  qed
  then show ?thesis by (auto simp: drain_def b_def)
qed

end

end
