(* ===== verification/Udtcp_Socket_Option.thy ===== *)
theory Udtcp_Socket_Option
  imports Udtcp_Posix
begin

text \<open>
  \<open>socket_option.c\<close>: setting and clearing file status flags with \<open>fcntl\<close>.  Both functions
  read the flags, change the requested bits and write them back; a negative answer of either
  \<open>fcntl\<close> makes them return \<open>-1\<close>.
\<close>

unbundle bit_operations_syntax

definition udtcp_socket_add_option :: "env \<Rightarrow> int \<Rightarrow> u32 \<Rightarrow> ('a sys_scheme, int) state" where
  "udtcp_socket_add_option e fd option = do {
     sock_opt \<leftarrow> sys_int e (C_getfl fd);
     if sock_opt < 0 then ret (-1) else do {
       r \<leftarrow> sys_int e (C_setfl fd (word_of_int sock_opt OR option));
       if r < 0 then ret (-1) else ret 0 } }"

definition udtcp_socket_sub_option :: "env \<Rightarrow> int \<Rightarrow> u32 \<Rightarrow> ('a sys_scheme, int) state" where
  "udtcp_socket_sub_option e fd option = do {
     sock_opt \<leftarrow> sys_int e (C_getfl fd);
     if sock_opt < 0 then ret (-1) else do {
       r \<leftarrow> sys_int e (C_setfl fd (word_of_int sock_opt AND NOT option));
       if r < 0 then ret (-1) else ret 0 } }"

lemmas socket_option_defs = udtcp_socket_add_option_def udtcp_socket_sub_option_def

text \<open>Either function makes at most the two calls and touches nothing but history and \<open>errno\<close>.\<close>

lemma keeps_add_option:
  assumes "\<And>s c r x. I s \<Longrightarrow> c = C_getfl fd \<or> (\<exists>v. c = C_setfl fd v) \<Longrightarrow>
     I (s\<lparr>hist := hist s @ [Ev c r], errno := x\<rparr>)"
  shows "keeps I (udtcp_socket_add_option e fd opt)"
  unfolding udtcp_socket_add_option_def sys_int_def
  by (intro inv_intros keeps_syscall assms) auto

lemma add_option_success:
  assumes "run_state (udtcp_socket_add_option e fd opt) s = (0, s')"
  shows "\<exists>g r. hist s' = hist s @ [Ev (C_getfl fd) g, Ev (C_setfl fd (word_of_int (rv g) OR opt)) r]
    \<and> 0 \<le> rv g \<and> 0 \<le> rv r"
  using assms
  by (auto simp: udtcp_socket_add_option_def sys_int_def run_syscall split: if_splits)

lemma sub_option_success:
  assumes "run_state (udtcp_socket_sub_option e fd opt) s = (0, s')"
  shows "\<exists>g r. hist s' =
      hist s @ [Ev (C_getfl fd) g, Ev (C_setfl fd (word_of_int (rv g) AND NOT opt)) r]
    \<and> 0 \<le> rv g \<and> 0 \<le> rv r"
  using assms
  by (auto simp: udtcp_socket_sub_option_def sys_int_def run_syscall split: if_splits)

end
