(* ===== verification/Udtcp_String_Infos.thy ===== *)
theory Udtcp_String_Infos
  imports Udtcp_Posix
begin

text \<open>
  \<open>set_string_infos.c\<close>: the textual address and the host name of a peer.  A name is copied
  with \<open>memcpy(field, s, strlen(s))\<close>, which writes no terminator: \<open>copy_string\<close> is that copy,
  and \<open>c_string\<close> reads a field back the way \<open>%s\<close> does.
\<close>

section \<open>C strings\<close>

definition c_string :: "byte list \<Rightarrow> byte list" where
  "c_string bs = takeWhile (\<lambda>b. b \<noteq> 0) bs"

text \<open>The decimal digits of a byte, and \<open>inet_ntoa\<close>.\<close>

definition digit :: "nat \<Rightarrow> byte" where
  "digit d = of_nat (48 + d)"

definition byte_digits :: "nat \<Rightarrow> byte list" where
  "byte_digits n = (if n < 10 then [digit n]
     else if n < 100 then [digit (n div 10), digit (n mod 10)]
     else [digit (n div 100), digit (n div 10 mod 10), digit (n mod 10)])"

definition dotted :: "byte \<Rightarrow> byte \<Rightarrow> byte \<Rightarrow> byte \<Rightarrow> byte list" where
  "dotted a b c d = byte_digits (unat a) @ [46] @ byte_digits (unat b) @ [46] @
     byte_digits (unat c) @ [46] @ byte_digits (unat d)"

definition inet_ntoa :: "u32 \<Rightarrow> byte list" where
  "inet_ntoa a = (case u32_bytes a of [w, x, y, z] \<Rightarrow> dotted w x y z | _ \<Rightarrow> [])"

section \<open>The function\<close>

text \<open>\<open>memcpy(field, s, strlen(s))\<close> into a field of \<open>n\<close> bytes.\<close>

definition copy_string ::
    "nat \<Rightarrow> byte list \<Rightarrow> byte list \<Rightarrow> ('a sys_scheme, byte list) state" where
  "copy_string n src field =
     (if length src \<le> n then ret (overlay 0 src field)
      else do { emit (Fault StructOverflow); ret field })"

text \<open>The resolver is given the first four bytes of the socket address.\<close>

definition udtcp_set_string_infos ::
    "env \<Rightarrow> udtcp_infos \<Rightarrow> sockaddr_in \<Rightarrow> ('a sys_scheme, udtcp_infos) state" where
  "udtcp_set_string_infos e x addr = do {
     host_entity \<leftarrow> syscall e (C_gethostbyaddr (take 4 (sockaddr_bytes addr)));
     if rv host_entity \<noteq> 0 then do {
       hn \<leftarrow> copy_string 256 (c_string (h_name host_entity)) (hostname x);
       i \<leftarrow> copy_string 16 (inet_ntoa (sin_addr addr)) (ip x);
       ret (x\<lparr>hostname := hn, ip := i\<rparr>) }
     else do {
       i \<leftarrow> copy_string 16 (inet_ntoa (sin_addr addr)) (ip x);
       hn \<leftarrow> copy_string 256 (inet_ntoa (sin_addr addr)) (hostname x);
       ret (x\<lparr>hostname := hn, ip := i\<rparr>) } }"

section \<open>Lemmas\<close>

lemma length_byte_digits: "length (byte_digits n) \<le> 3"
  by (simp add: byte_digits_def)

lemma digit_nonzero:
  assumes "d < 10"
  shows "digit d \<noteq> 0"
proof
  assume "digit d = 0"
  then have "unat (of_nat (48 + d) :: byte) = 0" by (simp only: digit_def unat_0)
  with assms show False by (simp only: unat_of_nat) simp
qed

lemma byte_digits_nonzero:
  assumes "n < 256" "b \<in> set (byte_digits n)"
  shows "b \<noteq> 0"
proof -
  have "digit (n mod 10) \<noteq> 0" "digit (n div 10 mod 10) \<noteq> 0"
    by (rule digit_nonzero, simp)+
  moreover have "n < 100 \<Longrightarrow> digit (n div 10) \<noteq> 0" "n < 10 \<Longrightarrow> digit n \<noteq> 0"
    by (rule digit_nonzero, simp)+
  moreover have "digit (n div 100) \<noteq> 0"
    using assms(1) by (intro digit_nonzero) simp
  ultimately show ?thesis
    using assms(2) unfolding byte_digits_def
    by (cases "n < 10"; cases "n < 100") (auto simp del: One_nat_def)
qed

lemma u32_bytes_four: "\<exists>a b c d. u32_bytes w = [a, b, c, d]"
proof -
  have "length (u32_bytes w) = Suc (Suc (Suc (Suc 0)))" by simp
  then show ?thesis by (simp only: length_Suc_conv length_0_conv) blast
qed

lemma inet_ntoa_shape: "\<exists>a b c d. inet_ntoa w = dotted a b c d"
proof -
  obtain a b c d where "u32_bytes w = [a, b, c, d]"
    using u32_bytes_four [of w] by blast
  then have "inet_ntoa w = dotted a b c d" by (simp add: inet_ntoa_def)
  then show ?thesis by metis
qed

lemma length_dotted: "length (dotted a b c d) \<le> 15"
  using length_byte_digits [of "unat a"] length_byte_digits [of "unat b"]
    length_byte_digits [of "unat c"] length_byte_digits [of "unat d"]
  by (simp add: dotted_def)

lemma dotted_nonzero: "x \<in> set (dotted a b c d) \<Longrightarrow> x \<noteq> 0"
proof -
  have lt: "unat v < 256" for v :: byte
    using unsigned_less [of v, where ?'a = nat] by simp
  assume "x \<in> set (dotted a b c d)"
  then have "x = 46 \<or> x \<in> set (byte_digits (unat a)) \<or> x \<in> set (byte_digits (unat b)) \<or>
      x \<in> set (byte_digits (unat c)) \<or> x \<in> set (byte_digits (unat d))"
    by (simp only: dotted_def set_append list.set Un_iff insert_iff empty_iff) blast
  then show ?thesis
    using byte_digits_nonzero [OF lt] by fastforce
qed

lemma length_inet_ntoa: "length (inet_ntoa w) \<le> 15"
  using inet_ntoa_shape [of w] length_dotted by metis

lemma inet_ntoa_nonzero: "b \<in> set (inet_ntoa w) \<Longrightarrow> b \<noteq> 0"
  using inet_ntoa_shape [of w] dotted_nonzero by metis

lemma c_string_nonzero: "b \<in> set (c_string bs) \<Longrightarrow> b \<noteq> 0"
  by (auto simp: c_string_def dest: set_takeWhileD)

lemma c_string_append:
  "(\<And>b. b \<in> set xs \<Longrightarrow> b \<noteq> 0) \<Longrightarrow> c_string (xs @ ys) = xs @ c_string ys"
  by (induction xs) (auto simp: c_string_def)

text \<open>What a field reads as after the copy: the new string, then what was left of the old one.\<close>

lemma c_string_copy:
  "(\<And>b. b \<in> set src \<Longrightarrow> b \<noteq> 0) \<Longrightarrow>
   c_string (overlay 0 src old) = src @ c_string (drop (length src) old)"
  by (simp add: overlay_def c_string_append)

lemma run_copy_string_ok:
  "length src \<le> n \<Longrightarrow> run_state (copy_string n src field) s = (overlay 0 src field, s)"
  by (simp add: copy_string_def)


text \<open>Whatever the resolver answers, only the two strings change.\<close>

lemma wp_set_string_infos:
  assumes "\<And>hn i t. sys_frame s t \<Longrightarrow> Q (y\<lparr>hostname := hn, ip := i\<rparr>) t"
  shows "wp (udtcp_set_string_infos e y a) Q s"
proof -
  have copy: "wp (copy_string n src f) R t" if "\<And>g t'. sys_frame s t' \<Longrightarrow> R g t'" "sys_frame s t"
    for n src f R t
    using that by (auto simp: copy_string_def wp_simps)
  show ?thesis
    unfolding udtcp_set_string_infos_def wp_bind
    by (rule wp_syscallI) (auto simp: wp_simps intro!: copy assms)
qed

end
