(* ===== verification/Udtcp_Server_Accept.thy ===== *)
theory Udtcp_Server_Accept
  imports Udtcp_Server Udtcp_Drain Udtcp_Socket_Option Udtcp_String_Infos
begin

text \<open>
  \<open>accept_client\<close> and the server's half of the handshake (\<open>initialize_connection\<close>) of
  \<open>server_poll.c\<close>.  The new client's slot is \<open>infos[poll_nfds]\<close>; it becomes a connected slot
  when the handshake has succeeded and \<open>poll_nfds\<close> is incremented.
\<close>

section \<open>The functions\<close>

definition apply_distant :: "udtcp_infos \<Rightarrow> udtcp_infos \<Rightarrow> udtcp_infos \<Rightarrow> udtcp_infos" where
  "apply_distant server_infos save x = (let a = sin_addr (tcp_addr save) in
     x\<lparr>tcp_addr := (tcp_addr x)\<lparr>sin_addr := a\<rparr>,
       udp_server_addr := (udp_server_addr x)\<lparr>sin_addr := a\<rparr>,
       udp_client_addr := (udp_client_addr x)\<lparr>sin_addr := a\<rparr>,
       tcp_socket := tcp_socket save,
       udp_server_socket := udp_client_socket server_infos,
       udp_client_socket := udp_server_socket server_infos\<rparr>)"

definition server_initialize_connection :: "env \<Rightarrow> nat \<Rightarrow> (server, int) state" where
  "server_initialize_connection e i = do {
     fd \<leftarrow> gets (\<lambda>s. tcp_socket (infos s ! i));
     server_infos \<leftarrow> gets (\<lambda>s. infos s ! 0);
     ret_send \<leftarrow> sys_send e fd (infos_bytes server_infos);
     if ret_send \<noteq> int sizeof_udtcp_infos then do { log_error e; ret (-1) }
     else do {
       (ret_poll, _) \<leftarrow> sys_poll1 e fd POLLIN (-1);
       if ret_poll < 0 then do { log_error e; ret (-1) }
       else if ret_poll = 0 then do { log_error e; ret (-1) }
       else do {
         save_client_infos \<leftarrow> gets (\<lambda>s. infos s ! i);
         ret_recv \<leftarrow> recv_infos e fd i;
         if ret_recv = 0 then do { log_error e; ret (-1) }
         else if ret_recv \<noteq> int sizeof_udtcp_infos then do { log_error e; ret (-1) }
         else do {
           set_infos i (apply_distant server_infos save_client_infos);
           ret 0 } } } }"

text \<open>The table is full: the connection is accepted, told so by one byte, and closed.\<close>

definition refuse_client :: "env \<Rightarrow> (server, int) state" where
  "refuse_client e = do {
     listen_fd \<leftarrow> gets (\<lambda>s. tcp_socket (infos s ! 0));
     (tmp_sock, _) \<leftarrow> sys_accept e listen_fd;
     if tmp_sock = -1 then do {
       x \<leftarrow> gets errno;
       (if x \<noteq> EWOULDBLOCK then log_error e else skip);
       ret (-1) }
     else do {
       _ \<leftarrow> sys_send e tmp_sock [0];
       sys_do e (C_close tmp_sock);
       log_error e;
       ret (-1) } }"

text \<open>After the handshake: the slot is completed and joins the table.\<close>

definition register_client :: "env \<Rightarrow> nat \<Rightarrow> (server, unit) state" where
  "register_client e n = do {
     s \<leftarrow> gets id;
     set_infos n (\<lambda>x. x\<lparr>send_ptr := sends_addr s n, info_id := count_id s\<rparr>);
     x \<leftarrow> gets (\<lambda>s. infos s ! n);
     x' \<leftarrow> udtcp_set_string_infos e x (tcp_addr x);
     set_infos n (\<lambda>_. x'\<lparr>tcp_port := htons (sin_port (tcp_addr x'))\<rparr>);
     modify (\<lambda>s. s\<lparr>poll_fds := (poll_fds s)[n := (poll_fds s ! n)\<lparr>pfd := tcp_socket (infos s ! n),
       events := POLLIN\<rparr>]\<rparr>);
     log_info e;
     call_back connect_callback ConnectCb n [];
     modify (\<lambda>s. s\<lparr>poll_nfds := Suc (poll_nfds s), count_id := count_id s + 1\<rparr>) }"

definition exchange_informations :: "env \<Rightarrow> nat \<Rightarrow> (server, int) state" where
  "exchange_informations e n = do {
     r \<leftarrow> server_initialize_connection e n;
     if r = -1 then do {
       closing \<leftarrow> gets (\<lambda>s. tcp_socket (infos s ! n));
       sys_do e (C_close closing);
       log_error e;
       ret (-1) }
     else do { register_client e n; ret 0 } }"

definition accept_client :: "env \<Rightarrow> (server, int) state" where
  "accept_client e = do {
     n \<leftarrow> gets poll_nfds;
     if n \<ge> UDTCP_POLL_TABLE_SIZE then refuse_client e
     else do {
       listen_fd \<leftarrow> gets (\<lambda>s. tcp_socket (infos s ! 0));
       (fd, addr) \<leftarrow> sys_accept e listen_fd;
       set_infos n (\<lambda>x. if fd = -1 then x\<lparr>tcp_socket := fd\<rparr> else x\<lparr>tcp_socket := fd, tcp_addr := addr\<rparr>);
       if fd = -1 then do {
         x \<leftarrow> gets errno;
         (if x \<noteq> EWOULDBLOCK then log_error e else skip);
         ret (-1) }
       else do {
         r \<leftarrow> udtcp_socket_add_option e fd O_NONBLOCK;
         if r = -1 then do { sys_do e (C_close fd); ret (-1) }
         else exchange_informations e n } } }"

section \<open>What happens to the rest of the server\<close>

text \<open>Until a client is registered only its slot, the history and \<open>errno\<close> change.\<close>

definition slot_frame :: "nat \<Rightarrow> 'a peer_scheme \<Rightarrow> 'a peer_scheme \<Rightarrow> bool" where
  "slot_frame n s0 s \<longleftrightarrow> s\<lparr>infos := infos s0, hist := hist s0, errno := errno s0\<rparr> = s0 \<and>
     length (infos s) = length (infos s0) \<and> (\<forall>i. i \<noteq> n \<longrightarrow> infos s ! i = infos s0 ! i)"

lemma slot_frame_refl: "slot_frame n s s"
  by (simp add: slot_frame_def)

lemma slot_frame_hist:
  "slot_frame n s0 s \<Longrightarrow> slot_frame n s0 (s\<lparr>hist := h, errno := x\<rparr>)"
  "slot_frame n s0 s \<Longrightarrow> slot_frame n s0 (s\<lparr>hist := h\<rparr>)"
  by (simp_all add: slot_frame_def)

lemma slot_frame_set: "slot_frame n s0 s \<Longrightarrow> slot_frame n s0 (s\<lparr>infos := (infos s)[n := x]\<rparr>)"
  by (simp add: slot_frame_def)

lemma keeps_slot_frame [inv_intros]:
  "keeps (slot_frame n s0) (syscall e c)" "keeps (slot_frame n s0) (emit ev)"
  "keeps (slot_frame n s0) (udtcp_log e l)" "keeps (slot_frame n s0) (set_infos n f)"
  by (auto simp: keeps_def wp_simps after_log_def
      intro: wp_syscallI slot_frame_hist slot_frame_set)

lemma keeps_recv_infos [inv_intros]: "keeps (slot_frame n s0) (recv_infos e fd n)"
  unfolding recv_infos_def sys_recv_def by (intro inv_intros)

lemma keeps_initialize: "keeps (slot_frame n s0) (server_initialize_connection e n)"
  unfolding server_initialize_connection_def sys_send_def sys_poll1_def by (intro inv_intros)

lemma keeps_add_option_slot [inv_intros]:
  "keeps (slot_frame n s0) (udtcp_socket_add_option e fd opt)"
  by (rule keeps_add_option) (rule slot_frame_hist)

lemma slot_frame_fields:
  assumes "slot_frame n s0 (s :: server)"
  shows "poll_fds s = poll_fds s0" "poll_nfds s = poll_nfds s0" "sends s = sends s0"
    "sends_base s = sends_base s0" "count_id s = count_id s0" "buffer_data s = buffer_data s0"
    "buffer_size s = buffer_size s0" "poll_loop s = poll_loop s0"
    "length (infos s) = length (infos s0)" "\<And>i. i \<noteq> n \<Longrightarrow> infos s ! i = infos s0 ! i"
proof -
  from assms have eq: "s\<lparr>infos := infos s0, hist := hist s0, errno := errno s0\<rparr> = s0"
    by (simp add: slot_frame_def)
  from arg_cong [OF eq, of poll_fds] show "poll_fds s = poll_fds s0" by simp
  from arg_cong [OF eq, of poll_nfds] show "poll_nfds s = poll_nfds s0" by simp
  from arg_cong [OF eq, of sends] show "sends s = sends s0" by simp
  from arg_cong [OF eq, of sends_base] show "sends_base s = sends_base s0" by simp
  from arg_cong [OF eq, of count_id] show "count_id s = count_id s0" by simp
  from arg_cong [OF eq, of buffer_data] show "buffer_data s = buffer_data s0" by simp
  from arg_cong [OF eq, of buffer_size] show "buffer_size s = buffer_size s0" by simp
  from arg_cong [OF eq, of poll_loop] show "poll_loop s = poll_loop s0" by simp
qed (use assms in \<open>simp_all add: slot_frame_def\<close>)

text \<open>The handshake leaves the sockets and the addresses of the slot to the server: whatever the
  peer sent, after success they are those of the accepted connection.\<close>

definition pinned :: "udtcp_infos \<Rightarrow> int \<Rightarrow> u32 \<Rightarrow> udtcp_infos \<Rightarrow> bool" where
  "pinned server_infos fd a x \<longleftrightarrow> tcp_socket x = fd \<and>
     udp_server_socket x = udp_client_socket server_infos \<and>
     udp_client_socket x = udp_server_socket server_infos \<and>
     sin_addr (tcp_addr x) = a \<and> sin_addr (udp_server_addr x) = a \<and> sin_addr (udp_client_addr x) = a"

lemma pinned_apply_distant:
  "pinned server_infos (tcp_socket save) (sin_addr (tcp_addr save)) (apply_distant server_infos save x)"
  by (simp add: pinned_def apply_distant_def Let_def)

lemma initialize_result:
  assumes "i < length (infos s)" "i \<noteq> 0"
  shows "wp (server_initialize_connection e i)
    (\<lambda>r s'. (r = 0 \<or> r = -1) \<and> (r = 0 \<longrightarrow> pinned (infos s ! 0) (tcp_socket (infos s ! i))
       (sin_addr (tcp_addr (infos s ! i))) (infos s' ! i))) s"
  using assms
  by (auto simp: server_initialize_connection_def wp_simps wp_sys_send wp_sys_poll1 wp_syscall
      wp_recv_infos Let_def pinned_apply_distant recv_result_def sizeof_udtcp_infos_def)

section \<open>What \<open>accept_client\<close> does\<close>

text \<open>One more client: the slot after the last is complete, the others are as they were.\<close>

definition accepted :: "server \<Rightarrow> server \<Rightarrow> bool" where
  "accepted s0 s \<longleftrightarrow> (let n = poll_nfds s0 in
     poll_nfds s = Suc n \<and> count_id s = count_id s0 + 1 \<and>
     length (infos s) = length (infos s0) \<and> (\<forall>i. i \<noteq> n \<longrightarrow> infos s ! i = infos s0 ! i) \<and>
     poll_fds s = (poll_fds s0)[n := (poll_fds s0 ! n)\<lparr>pfd := tcp_socket (infos s ! n),
       events := POLLIN\<rparr>] \<and>
     sends s = sends s0 \<and> sends_base s = sends_base s0 \<and> 0 \<le> tcp_socket (infos s ! n) \<and>
     info_id (infos s ! n) = count_id s0 \<and> send_ptr (infos s ! n) = sends_addr s0 n)"

lemma keeps_refuse: "keeps (slot_frame n s0) (refuse_client e)"
  unfolding refuse_client_def sys_accept_def sys_send_def sys_do_def by (intro inv_intros)

lemma refuse_result: "wp (refuse_client e) (\<lambda>r s'. r = -1) s"
  by (simp add: refuse_client_def wp_simps wp_sys_accept wp_sys_send wp_sys_do wp_syscall)

lemma sys_frame_server:
  assumes "sys_frame u (t :: server)"
  shows "poll_fds t = poll_fds u \<and> poll_nfds t = poll_nfds u \<and> infos t = infos u \<and>
    count_id t = count_id u \<and> sends t = sends u \<and> sends_base t = sends_base u"
proof -
  from assms have eq: "t\<lparr>hist := hist u, errno := errno u\<rparr> = u" by (simp add: sys_frame_def)
  from arg_cong [OF eq, of poll_fds] arg_cong [OF eq, of poll_nfds] arg_cong [OF eq, of infos]
    arg_cong [OF eq, of count_id] arg_cong [OF eq, of sends] arg_cong [OF eq, of sends_base]
  show ?thesis by simp
qed

lemma register_accepted:
  assumes frame: "slot_frame (poll_nfds s0) s0 s" and room: "poll_nfds s0 < length (infos s0)"
    and fd: "0 \<le> tcp_socket (infos s ! poll_nfds s0)"
  shows "wp (register_client e (poll_nfds s0)) (\<lambda>_ s'. accepted s0 s' \<and>
    (\<forall>fd a srv. pinned srv fd a (infos s ! poll_nfds s0) \<longrightarrow> pinned srv fd a (infos s' ! poll_nfds s0))) s"
proof -
  let ?n = "poll_nfds s0"
  note f = slot_frame_fields [OF frame]
  show ?thesis
    unfolding register_client_def
    by (auto simp: wp_simps f room sends_addr_def intro!: wp_set_string_infos)
      (auto dest!: sys_frame_server simp: f room fd accepted_def sends_addr_def Let_def pinned_def
        after_log_def after_cb_def)
qed

lemma exchange_pins:
  assumes "n = poll_nfds s" "n < length (infos s)" "0 < n" "0 \<le> tcp_socket (infos s ! n)"
  shows "wp (exchange_informations e n) (\<lambda>r s'. if r = 0
     then pinned (infos s ! 0) (tcp_socket (infos s ! n)) (sin_addr (tcp_addr (infos s ! n))) (infos s' ! n) \<and>
       info_id (infos s' ! n) = count_id s \<and> poll_nfds s' = Suc n
     else r = -1 \<and> poll_nfds s' = n) s"
proof -
  let ?pin = "pinned (infos s ! 0) (tcp_socket (infos s ! n)) (sin_addr (tcp_addr (infos s ! n)))"
  have frame: "wp (server_initialize_connection e n) (\<lambda>_. slot_frame n s) s"
    by (rule keepsD [OF keeps_initialize slot_frame_refl])
  have init: "wp (server_initialize_connection e n) (\<lambda>r s'. ((r = 0 \<or> r = -1) \<and>
      (r = 0 \<longrightarrow> ?pin (infos s' ! n))) \<and> slot_frame n s s') s"
    using initialize_result [OF assms(2), of e] assms(3) frame unfolding wp_run by fastforce
  let ?done = "\<lambda>s'. ?pin (infos s' ! n) \<and> info_id (infos s' ! n) = count_id s \<and> poll_nfds s' = Suc n"
  let ?Q = "\<lambda>r s'. if r = (0 :: int) then ?done s' else r = -1 \<and> poll_nfds s' = n"
  have reg: "wp (do { register_client e n; ret 0 }) ?Q u" if "slot_frame n s u" "?pin (infos u ! n)" for u
  proof -
    have fd: "0 \<le> tcp_socket (infos u ! poll_nfds s)" using that(2) assms(1,4) by (simp add: pinned_def)
    have "wp (register_client e (poll_nfds s)) (\<lambda>_ s'. accepted s s' \<and>
      (\<forall>fd a srv. pinned srv fd a (infos u ! poll_nfds s) \<longrightarrow> pinned srv fd a (infos s' ! poll_nfds s))) u"
      by (rule register_accepted [OF _ _ fd]) (use that(1) assms(1,2) in simp_all)
    then have "wp (register_client e (poll_nfds s)) (\<lambda>_. ?done) u"
      by (rule wp_mono) (use that(2) assms(1) in \<open>auto simp: accepted_def Let_def\<close>)
    then show ?thesis by (simp add: wp_simps assms(1))
  qed
  have failed: "wp (do { sys_do e (C_close fd); log_error e; ret (-1 :: int) }) ?Q u"
    if "slot_frame n s u" for fd u
    using slot_frame_fields(2) [OF that] assms(1) by (simp add: wp_simps wp_calls wp_syscall)
  show ?thesis
    unfolding exchange_informations_def
    by (rule wp_bindI [OF init], intro wp_ifI wp_bind_gets failed reg) auto
qed

lemma keeps_close_slot [inv_intros]: "keeps (slot_frame n s0) (sys_do e c)"
  unfolding sys_do_def by (intro inv_intros)

text \<open>After the option is set: either the client is registered, or the slot is left over.\<close>

definition accept_outcome :: "server \<Rightarrow> int \<Rightarrow> server \<Rightarrow> bool" where
  "accept_outcome s0 r s \<longleftrightarrow> (r = 0 \<and> poll_nfds s0 < UDTCP_POLL_TABLE_SIZE \<and> accepted s0 s)
     \<or> (r = -1 \<and> slot_frame (poll_nfds s0) s0 s)"

lemma exchange_outcome:
  assumes frame: "slot_frame (poll_nfds s0) s0 t" and room: "poll_nfds s0 < length (infos s0)"
    and full: "poll_nfds s0 < UDTCP_POLL_TABLE_SIZE" and pos: "0 < poll_nfds s0"
    and fd: "0 \<le> tcp_socket (infos t ! poll_nfds s0)"
  shows "wp (exchange_informations e (poll_nfds s0)) (accept_outcome s0) t"
proof -
  let ?n = "poll_nfds s0"
  have "?n < length (infos t)" "?n \<noteq> 0"
    using slot_frame_fields(9) [OF frame] room pos by simp_all
  from initialize_result [OF this, of e] keepsD [OF keeps_initialize frame, of e]
  have init: "wp (server_initialize_connection e ?n) (\<lambda>r s'. ((r = 0 \<or> r = -1) \<and> (r = 0 \<longrightarrow>
      pinned (infos t ! 0) (tcp_socket (infos t ! ?n)) (sin_addr (tcp_addr (infos t ! ?n)))
        (infos s' ! ?n))) \<and> slot_frame ?n s0 s') t"
    by (simp only: wp_conj)
  have failed: "wp (do { sys_do e (C_close fd); log_error e; ret (-1 :: int) }) (accept_outcome s0) u"
    if "slot_frame ?n s0 u" for fd u
  proof -
    have "keeps (slot_frame ?n s0) (do { sys_do e (C_close fd); log_error e })"
      by (intro inv_intros)
    from keepsD [OF this that] show ?thesis
      by (simp add: wp_simps accept_outcome_def)
  qed
  have reg: "wp (do { register_client e ?n; ret 0 }) (accept_outcome s0) u"
    if "slot_frame ?n s0 u" "pinned srv (tcp_socket (infos t ! ?n)) a (infos u ! ?n)" for u srv a
    using that fd unfolding wp_bind
    by (intro wp_mono [OF register_accepted [OF that(1) room]])
      (auto simp: wp_simps pinned_def accept_outcome_def full)
  show ?thesis
    unfolding exchange_informations_def
    by (rule wp_bindI [OF init])
      (auto intro!: wp_ifI failed reg wp_bind_gets)
qed

lemma accept_client_outcome:
  assumes room: "poll_nfds s0 < UDTCP_POLL_TABLE_SIZE \<longrightarrow> poll_nfds s0 < length (infos s0)"
    and pos: "0 < poll_nfds s0"
  shows "wp (accept_client e) (accept_outcome s0) s0"
proof (cases "poll_nfds s0 < UDTCP_POLL_TABLE_SIZE")
  case False
  have "wp (refuse_client e) (\<lambda>r s'. r = -1 \<and> slot_frame (poll_nfds s0) s0 s') s0"
    unfolding wp_conj using refuse_result keepsD [OF keeps_refuse slot_frame_refl] by blast
  from wp_mono [OF this] False show ?thesis
    by (auto simp: accept_client_def accept_outcome_def wp_simps)
next
  case True
  let ?n = "poll_nfds s0"
  have len: "?n < length (infos s0)" using room True by simp
  have opt: "wp (do { r \<leftarrow> udtcp_socket_add_option e fd O_NONBLOCK;
         if r = -1 then do { sys_do e (C_close fd); ret (-1) }
         else exchange_informations e ?n }) (accept_outcome s0) t"
    if t: "slot_frame ?n s0 t" "tcp_socket (infos t ! ?n) = fd" "0 \<le> fd" for t fd
  proof -
    have same: "wp (udtcp_socket_add_option e fd O_NONBLOCK) (\<lambda>_ s'. infos s' = infos t) t"
      by (simp add: udtcp_socket_add_option_def wp_simps wp_sys_int wp_syscall)
    have both: "wp (udtcp_socket_add_option e fd O_NONBLOCK)
        (\<lambda>_ s'. slot_frame ?n s0 s' \<and> infos s' = infos t) t"
      unfolding wp_conj using same keepsD [OF keeps_add_option_slot t(1)] by simp
    have failed: "wp (do { sys_do e (C_close fd); ret (-1 :: int) }) (accept_outcome s0) u"
      if "slot_frame ?n s0 u" for u
      using keepsD [OF keeps_close_slot that, of e "C_close fd"]
      by (simp add: wp_simps accept_outcome_def)
    show ?thesis
      by (rule wp_bindI [OF both])
        (auto intro!: wp_ifI failed exchange_outcome simp: len True pos t)
  qed
  have frame: "slot_frame ?n s0 (s0\<lparr>hist := h, errno := x, infos := (infos s0)[?n := y]\<rparr>)" for h x y
    by (simp add: slot_frame_def)
  have rejected: "wp (do { x \<leftarrow> gets errno; (if x \<noteq> EWOULDBLOCK then log_error e else skip);
         ret (-1 :: int) }) (accept_outcome s0) u" if "slot_frame ?n s0 u" for u
    using that keepsD [OF keeps_slot_frame(3) that, of e UDTCP_LOG_LEVEL_ERROR]
    by (auto simp: wp_simps accept_outcome_def)
  have acc: "wp (sys_accept e fd) (\<lambda>r s'. (\<exists>h x. s' = s0\<lparr>hist := h, errno := x\<rparr>) \<and>
      (fst r = -1 \<or> 0 \<le> fst r)) s0" for fd
    unfolding wp_sys_accept by (rule wp_syscallI) auto
  show ?thesis
    unfolding accept_client_def
    by (rule wp_bind_gets, simp only: not_le [THEN iffD2, OF True] if_False,
        rule wp_bind_gets, rule wp_bindI [OF acc])
      (auto intro!: wp_bind_set_infos wp_ifI rejected opt frame simp: len)
qed

end
