(* ===== verification/Udtcp_Server_Receive.thy ===== *)
theory Udtcp_Server_Receive
  imports Udtcp_Receive
begin

text \<open>
  The receiving half of \<open>server_poll.c\<close>: \<open>receive_tcp\<close> from one client, \<open>receive_udp\<close> with the
  search for the client a datagram came from (\<open>udtcp_get_infos\<close>), and \<open>disconnect\<close>.  Both
  receivers return the size of the message, a \<open>uint32_t\<close> converted to \<open>int\<close>.
\<close>

text \<open>The client whose UDP sender is \<open>a\<close>: the first connected slot with that address and port.\<close>

definition udtcp_get_infos :: "sockaddr_in \<Rightarrow> 'a peer_scheme \<Rightarrow> nat option" where
  "udtcp_get_infos a s =
     find (\<lambda>i. sin_addr (udp_client_addr (infos s ! i)) = sin_addr a
             \<and> sin_port (udp_client_addr (infos s ! i)) = sin_port a) [2..<poll_nfds s]"

definition server_receive_tcp :: "env \<Rightarrow> nat \<Rightarrow> ('a peer_scheme, int) state" where
  "server_receive_tcp e i = receive_tcp False sint e i"

definition server_receive_udp :: "env \<Rightarrow> ('a peer_scheme, int) state" where
  "server_receive_udp e = receive_udp False udtcp_get_infos sint e"

section \<open>Disconnecting a client\<close>

definition server_disconnect :: "env \<Rightarrow> nat \<Rightarrow> ('a peer_scheme, unit) state" where
  "server_disconnect e i = do {
     fd \<leftarrow> gets (\<lambda>s. tcp_socket (infos s ! i));
     r \<leftarrow> sys_int e (C_shutdown fd);
     (if r = -1 then log_error e else skip);
     r \<leftarrow> sys_int e (C_close fd);
     (if r = -1 then log_error e else skip);
     log_info e;
     call_back disconnect_callback DisconnectCb i [] }"

section \<open>The buffer stays within bounds\<close>

lemma server_receive_tcp_inv: "rx_inv s0 K s \<Longrightarrow> wp (server_receive_tcp e i) (\<lambda>_. rx_inv s0 K) s"
  unfolding server_receive_tcp_def by (rule receive_tcp_inv)

lemma server_receive_udp_inv:
  "rx_inv s0 K s \<Longrightarrow> udp_sizes_fit e \<Longrightarrow> wp (server_receive_udp e) (\<lambda>_. rx_inv s0 K) s"
  unfolding server_receive_udp_def by (rule receive_udp_inv)

lemma server_disconnect_inv: "keeps (rx_inv s0 K) (server_disconnect e i)"
  unfolding server_disconnect_def sys_int_def by (intro inv_intros) simp_all

end
