(* ===== verification/Udtcp_Server_Poll.thy ===== *)
theory Udtcp_Server_Poll
  imports Udtcp_Server_Accept Udtcp_Server_Receive
begin

text \<open>
  \<open>udtcp_server_poll\<close>: wait on the table, serve every readable descriptor, then close the
  gaps that disconnected clients left.  The result is an option: \<open>None\<close> when one of the
  receive loops never ends.
\<close>

section \<open>Serving one entry of the table\<close>

definition server_drop :: "env \<Rightarrow> nat \<Rightarrow> (server, bool) state" where
  "server_drop e i = do {
     server_disconnect e i;
     modify (\<lambda>s. s\<lparr>poll_fds := (poll_fds s)[i := (poll_fds s ! i)\<lparr>pfd := -1\<rparr>]\<rparr>);
     ret True }"

text \<open>What becomes of a client when its receive loop has ended with \<open>ret_receive\<close>; the result
  is the new value of \<open>organise_array\<close>.\<close>

definition server_after_receive :: "env \<Rightarrow> nat \<Rightarrow> int \<Rightarrow> (server, bool) state" where
  "server_after_receive e i ret_receive =
     (if ret_receive < 0 then do {
        x \<leftarrow> gets errno;
        if x \<noteq> EWOULDBLOCK then server_drop e i else ret False }
      else if ret_receive = 0 then server_drop e i
      else ret False)"

definition server_scan_slot :: "env \<Rightarrow> nat \<Rightarrow> server \<Rightarrow> (bool \<times> server) option" where
  "server_scan_slot e i s =
     (if revents (poll_fds s ! i) = 0 then Some (False, s)
      else if revents (poll_fds s ! i) AND POLLIN = 0 then Some (False, snd (run_state (log_error e) s))
      else if pfd (poll_fds s ! i) = tcp_socket (infos s ! 0) then
        (case drain e (\<lambda>r. r = 0) (accept_client e) s of
           None \<Rightarrow> None | Some (_, s') \<Rightarrow> Some (False, s'))
      else if pfd (poll_fds s ! i) = udp_server_socket (infos s ! 0) then
        (case drain e (\<lambda>r. 0 < r) (server_receive_udp e) s of
           None \<Rightarrow> None | Some (_, s') \<Rightarrow> Some (False, s'))
      else
        (case drain e (\<lambda>r. 0 < r) (server_receive_tcp e i) s of
           None \<Rightarrow> None | Some (r, s') \<Rightarrow> Some (run_state (server_after_receive e i r) s')))"

text \<open>The loop over the table, which can grow while it is scanned.\<close>

partial_function (option) server_scan ::
    "env \<Rightarrow> nat \<Rightarrow> bool \<Rightarrow> server \<Rightarrow> (bool \<times> server) option" where
  "server_scan e i organise_array s =
     (if looping e s \<and> i < poll_nfds s then
        Option.bind (server_scan_slot e i s)
          (\<lambda>(b, s'). server_scan e (Suc i) (organise_array \<or> b) s')
      else Some (organise_array, s))"

section \<open>Closing the gaps\<close>

text \<open>\<open>memcpy(&xs[i], &xs[i + 1], sizeof(*xs) * (n - i))\<close>: from two elements on the two ranges
  overlap, and when \<open>n\<close> is the length of the array the last element read lies behind it.  The
  result is that of a copy in ascending order.\<close>

definition move_down :: "nat \<Rightarrow> nat \<Rightarrow> 'x \<Rightarrow> 'x list \<Rightarrow> (server, 'x list) state" where
  "move_down i n stray xs = do {
     (if 1 < n - i then emit (Fault MemcpyOverlap) else skip);
     (if length xs < Suc i + (n - i) then emit (Fault ArrayOverrun) else skip);
     ret (overlay i (slice (Suc i) (n - i) (xs @ [stray])) xs) }"

definition remove_slot :: "nat \<Rightarrow> (server, unit) state" where
  "remove_slot i = do {
     n \<leftarrow> gets poll_nfds;
     (if i < n - 1 then do {
        s \<leftarrow> gets id;
        fds \<leftarrow> move_down i n (stray_fd s) (poll_fds s);
        modify (\<lambda>s. s\<lparr>poll_fds := fds\<rparr>);
        infs \<leftarrow> move_down i n (stray_infos s) (infos s);
        modify (\<lambda>s. s\<lparr>infos := infs\<rparr>) }
      else skip);
     modify (\<lambda>s. s\<lparr>poll_nfds := poll_nfds s - 1\<rparr>) }"

lemma poll_nfds_remove_slot: "poll_nfds (snd (run_state (remove_slot i) s)) = poll_nfds s - 1"
  by (simp add: remove_slot_def move_down_def)

function compact_table :: "nat \<Rightarrow> server \<Rightarrow> server" where
  "compact_table i s =
     (if i < poll_nfds s then
        (if pfd (poll_fds s ! i) = -1 then compact_table i (snd (run_state (remove_slot i) s))
         else compact_table (Suc i) s)
      else s)"
  by pat_completeness auto

termination
  by (relation "measure (\<lambda>(i, s). poll_nfds s - i)") (auto simp: poll_nfds_remove_slot)

declare compact_table.simps [simp del]

section \<open>The function\<close>

definition udtcp_server_poll :: "env \<Rightarrow> int \<Rightarrow> server \<Rightarrow> (udtcp_poll_e \<times> server) option" where
  "udtcp_server_poll e timeout s =
     (case run_state (poll_table e timeout) s of (ret_poll, s1) \<Rightarrow>
      if ret_poll < 0 then
        (if errno s1 = EINTR then Some (UDTCP_POLL_SIGNAL, s1)
         else Some (UDTCP_POLL_ERROR, snd (run_state (log_error e) s1)))
      else if ret_poll = 0 then Some (UDTCP_POLL_TIMEOUT, snd (run_state (log_info e) s1))
      else case server_scan e 0 False s1 of
        None \<Rightarrow> None
      | Some (organise_array, s2) \<Rightarrow>
          Some (UDTCP_POLL_SUCCESS, if organise_array then compact_table 2 s2 else s2))"

section \<open>What compaction does to the table\<close>

definition live :: "pollfd \<times> udtcp_infos \<Rightarrow> bool" where
  "live c \<longleftrightarrow> pfd (fst c) \<noteq> -1"

text \<open>Only the table, its count and the history change.\<close>

definition table_frame :: "server \<Rightarrow> server \<Rightarrow> bool" where
  "table_frame s0 s \<longleftrightarrow> s\<lparr>poll_fds := poll_fds s0, poll_nfds := poll_nfds s0, infos := infos s0,
     hist := hist s0\<rparr> = s0"

lemma table_frame_trans: "table_frame s0 s \<Longrightarrow> table_frame s t \<Longrightarrow> table_frame s0 t"
  unfolding table_frame_def by (cases s0; cases s; cases t) simp

lemma length_move_down:
  assumes "Suc i < n" "n \<le> length xs"
  shows "length (overlay i (slice (Suc i) (n - i) (xs @ [y])) xs) = length xs"
  using assms by (intro length_overlay) (simp add: slice_def)

text \<open>The elements in use after the copy: those before, without the one at \<open>i\<close>.\<close>

lemma take_move_down:
  assumes "Suc i < n" "n \<le> length xs"
  shows "take (n - 1) (overlay i (slice (Suc i) (n - i) (xs @ [y])) xs) =
    take i xs @ drop (Suc i) (take n xs)"
proof -
  let ?src = "slice (Suc i) (n - i) (xs @ [y])"
  have "take (n - 1) (overlay i ?src xs) = take i xs @ take (n - 1 - i) (?src @ drop (i + length ?src) xs)"
    using assms by (simp add: overlay_def min_absorb1 min_absorb2)
  also have "take (n - 1 - i) (?src @ drop (i + length ?src) xs) = take (n - 1 - i) ?src"
    using assms by (simp add: slice_def)
  also have "\<dots> = take (n - 1 - i) (drop (Suc i) (xs @ [y]))"
    by (simp add: slice_def min_def)
  also have "\<dots> = drop (Suc i) (take n xs)"
    using assms by (simp add: drop_take)
  finally show ?thesis .
qed

lemma run_remove_slot:
  "run_state (remove_slot i) s = ((), if i < poll_nfds s - 1 then s\<lparr>
       hist := hist s @
         (if 1 < poll_nfds s - i then [Fault MemcpyOverlap] else []) @
         (if length (poll_fds s) < Suc i + (poll_nfds s - i) then [Fault ArrayOverrun] else []) @
         (if 1 < poll_nfds s - i then [Fault MemcpyOverlap] else []) @
         (if length (infos s) < Suc i + (poll_nfds s - i) then [Fault ArrayOverrun] else []),
       poll_fds := overlay i (slice (Suc i) (poll_nfds s - i) (poll_fds s @ [stray_fd s])) (poll_fds s),
       infos := overlay i (slice (Suc i) (poll_nfds s - i) (infos s @ [stray_infos s])) (infos s),
       poll_nfds := poll_nfds s - 1\<rparr>
     else s\<lparr>poll_nfds := poll_nfds s - 1\<rparr>)"
  by (simp add: remove_slot_def move_down_def)

lemma remove_slot_lists:
  assumes "server_wf s" "2 \<le> i" "i < poll_nfds s" "run_state (remove_slot i) s = (x, s')"
  shows "take (poll_nfds s') (poll_fds s') = take i (poll_fds s) @ drop (Suc i) (take (poll_nfds s) (poll_fds s))"
    "take (poll_nfds s') (infos s') = take i (infos s) @ drop (Suc i) (take (poll_nfds s) (infos s))"
    "server_wf s'" "poll_nfds s' = poll_nfds s - 1" "table_frame s s'"
proof -
  have len: "poll_nfds s \<le> length (poll_fds s)" "poll_nfds s \<le> length (infos s)"
    using assms(1) by (auto simp: server_wf_def)
  have s': "s' = snd (run_state (remove_slot i) s)" using assms(4) by simp
  show "take (poll_nfds s') (poll_fds s') = take i (poll_fds s) @ drop (Suc i) (take (poll_nfds s) (poll_fds s))"
    "take (poll_nfds s') (infos s') = take i (infos s) @ drop (Suc i) (take (poll_nfds s) (infos s))"
    using assms(3) len
    by (auto simp: s' run_remove_slot take_move_down [unfolded One_nat_def] not_less
        intro: arg_cong2 [where f = take])
  show "poll_nfds s' = poll_nfds s - 1" by (simp add: s' run_remove_slot)
  show "server_wf s'"
    using assms len by (auto simp: s' run_remove_slot server_wf_def length_move_down)
  show "table_frame s s'" by (simp add: s' run_remove_slot table_frame_def)
qed

lemma clients_remove_slot:
  assumes "server_wf s" "2 \<le> i" "i < poll_nfds s" "run_state (remove_slot i) s = (x, s')"
  shows "clients s' = take (i - 2) (clients s) @ drop (Suc (i - 2)) (clients s)"
proof -
  note l = remove_slot_lists [OF assms]
  have len: "i \<le> length (poll_fds s)" "i \<le> length (infos s)"
    using assms(1,3) by (auto simp: server_wf_def)
  let ?z = "zip (poll_fds s) (infos s)"
  obtain k where k: "i = Suc (Suc k)"
    using assms(2) by (metis add_2_eq_Suc le_Suc_ex)
  have "take (poll_nfds s') (zip (poll_fds s') (infos s')) = take i ?z @ drop (Suc i) (take (poll_nfds s) ?z)"
    using len by (simp add: take_zip drop_zip l(1,2))
  then show ?thesis
    using assms(3) len by (simp add: clients_def drop_take k numeral_2_eq_2)
qed

text \<open>Compaction of the table is a filter on the clients.\<close>

lemma compact_table_clients:
  assumes "server_wf s" "2 \<le> i"
  shows "server_wf (compact_table i s) \<and> table_frame s (compact_table i s) \<and>
    poll_nfds (compact_table i s) \<le> poll_nfds s \<and>
    clients (compact_table i s) =
      take (i - 2) (clients s) @ filter live (drop (i - 2) (clients s))"
  using assms
proof (induction i s rule: compact_table.induct)
  case (1 i s)
  show ?case
  proof (cases "i < poll_nfds s")
    case False
    then have "length (clients s) \<le> i - 2" using "1.prems" by (simp add: length_clients)
    with False "1.prems" show ?thesis
      by (simp add: compact_table.simps [of i s] table_frame_def)
  next
    case True
    then have j: "i - 2 < length (clients s)" using "1.prems" by (simp add: length_clients)
    have at: "clients s ! (i - 2) = (poll_fds s ! i, infos s ! i)"
      using clients_nth [OF "1.prems"(1), of "i - 2"] True "1.prems"(2)
      by (metis diff_less_mono le_add_diff_inverse2)
    show ?thesis
    proof (cases "pfd (poll_fds s ! i) = -1")
      case removed: True
      obtain t where run: "run_state (remove_slot i) s = ((), t)" by (simp add: run_remove_slot)
      note l = remove_slot_lists [OF "1.prems" True run]
      note c = clients_remove_slot [OF "1.prems" True run]
      have step: "compact_table i s = compact_table i t"
        using True removed run by (simp add: compact_table.simps [of i s])
      have len: "length (take (i - 2) (clients s)) = i - 2" using j by simp
      have "filter live (drop (i - 2) (clients s)) = filter live (drop (Suc (i - 2)) (clients s))"
        using at removed by (simp add: Cons_nth_drop_Suc [OF j, symmetric] live_def)
      moreover from "1.IH"(1) [OF True removed] run l(3) "1.prems"(2)
      have "server_wf (compact_table i t) \<and> table_frame t (compact_table i t) \<and>
        poll_nfds (compact_table i t) \<le> poll_nfds t \<and> clients (compact_table i t) =
          take (i - 2) (clients t) @ filter live (drop (i - 2) (clients t))" by simp
      ultimately show ?thesis
        using step c l(4,5) len by (auto elim: table_frame_trans)
    next
      case kept: False
      have step: "compact_table i s = compact_table (Suc i) s"
        using True kept by (simp add: compact_table.simps [of i s])
      have suc: "i - Suc 0 = Suc (i - 2)" using "1.prems"(2) by simp
      have "take (Suc (i - 2)) (clients s) = take (i - 2) (clients s) @ [clients s ! (i - 2)]"
        using j by (rule take_Suc_conv_app_nth)
      moreover have "filter live (drop (i - 2) (clients s)) =
          clients s ! (i - 2) # filter live (drop (Suc (i - 2)) (clients s))"
        using at kept by (simp add: Cons_nth_drop_Suc [OF j, symmetric] live_def)
      ultimately show ?thesis
        using "1.IH"(2) [OF True kept] "1.prems" step by (simp add: suc)
    qed
  qed
qed

text \<open>The faults it adds: none exactly when no entry but the last is removed; a read behind the
  arrays only when the table is full.\<close>

lemma remove_slot_faults:
  assumes "server_wf s" "i < poll_nfds s" "run_state (remove_slot i) s = (x, t)"
  shows "\<exists>fs. faults (hist t) = faults (hist s) @ fs \<and> (fs = [] \<longleftrightarrow> i = poll_nfds s - 1) \<and>
    set fs \<subseteq> {Fault MemcpyOverlap} \<union>
      (if poll_nfds s = UDTCP_POLL_TABLE_SIZE then {Fault ArrayOverrun} else {})"
proof -
  have t: "t = snd (run_state (remove_slot i) s)" using assms(3) by simp
  show ?thesis
    using assms(1,2) by (auto simp: t run_remove_slot server_wf_def)
qed

lemma compact_table_faults:
  assumes "server_wf s" "2 \<le> i"
  shows "\<exists>fs. faults (hist (compact_table i s)) = faults (hist s) @ fs \<and>
    (fs = [] \<longleftrightarrow> (\<forall>j. i \<le> j \<longrightarrow> j < poll_nfds s - 1 \<longrightarrow> pfd (poll_fds s ! j) \<noteq> -1)) \<and>
    set fs \<subseteq> {Fault MemcpyOverlap} \<union>
      (if poll_nfds s = UDTCP_POLL_TABLE_SIZE then {Fault ArrayOverrun} else {})"
  using assms
proof (induction i s rule: compact_table.induct)
  case (1 i s)
  consider "\<not> i < poll_nfds s" | "i < poll_nfds s" "pfd (poll_fds s ! i) = -1"
    | "i < poll_nfds s" "pfd (poll_fds s ! i) \<noteq> -1" by blast
  then show ?case
  proof cases
    case 1
    then show ?thesis by (auto simp: compact_table.simps [of i s])
  next
    case 2
    obtain t where run: "run_state (remove_slot i) s = ((), t)" by (simp add: run_remove_slot)
    note l = remove_slot_lists [OF "1.prems" 2(1) run]
    have step: "compact_table i s = compact_table i t"
      using 2 run by (simp add: compact_table.simps [of i s])
    from l(4) 2(1) have small: "poll_nfds t \<noteq> UDTCP_POLL_TABLE_SIZE"
      using "1.prems"(1) by (auto simp: server_wf_def)
    from "1.IH"(1) [OF 2] run l(3) "1.prems"(2) obtain gs where
      gs: "faults (hist (compact_table i t)) = faults (hist t) @ gs"
        "gs = [] \<longleftrightarrow> (\<forall>j. i \<le> j \<longrightarrow> j < poll_nfds t - 1 \<longrightarrow> pfd (poll_fds t ! j) \<noteq> -1)"
        "set gs \<subseteq> {Fault MemcpyOverlap}"
      using small by auto
    from remove_slot_faults [OF "1.prems"(1) 2(1) run] obtain fs where
      fs: "faults (hist t) = faults (hist s) @ fs" "fs = [] \<longleftrightarrow> i = poll_nfds s - 1"
        "set fs \<subseteq> {Fault MemcpyOverlap} \<union>
          (if poll_nfds s = UDTCP_POLL_TABLE_SIZE then {Fault ArrayOverrun} else {})"
      by blast
    have "fs @ gs = [] \<longleftrightarrow> (\<forall>j. i \<le> j \<longrightarrow> j < poll_nfds s - 1 \<longrightarrow> pfd (poll_fds s ! j) \<noteq> -1)"
      using 2 fs(2) gs(2) l(4) by auto
    with step gs(1,3) fs(1,3) show ?thesis
      by (intro exI [of _ "fs @ gs"]) auto
  next
    case 3
    have step: "compact_table i s = compact_table (Suc i) s"
      using 3 by (simp add: compact_table.simps [of i s])
    have "(\<forall>j. i \<le> j \<longrightarrow> j < poll_nfds s - 1 \<longrightarrow> pfd (poll_fds s ! j) \<noteq> -1) \<longleftrightarrow>
      (\<forall>j. Suc i \<le> j \<longrightarrow> j < poll_nfds s - 1 \<longrightarrow> pfd (poll_fds s ! j) \<noteq> -1)"
      using 3(2) by (metis Suc_leD Suc_leI le_neq_implies_less)
    with "1.IH"(2) [OF 3] "1.prems" step show ?thesis by simp
  qed
qed

end
