(* ===== verification/Udtcp_Client.thy ===== *)
theory Udtcp_Client
  imports Udtcp_Receive Udtcp_Drain Udtcp_Socket_Option Udtcp_String_Infos Udtcp_Send
begin

text \<open>
  \<open>struct udtcp_client_s\<close> and \<open>client_poll.c\<close>.  Slot 0 of \<open>infos\<close> describes the client
  (\<open>client_infos\<close>), slot 1 the server it is connected to (\<open>server_infos\<close>).  \<open>csend\<close> is the
  member \<open>send\<close>, \<open>send_addr\<close> its address.
\<close>

record client = peer +
  csend :: udtcp_send
  send_addr :: u64

definition client_wf :: "client \<Rightarrow> bool" where
  "client_wf s \<longleftrightarrow> length (infos s) = 2 \<and> length (poll_fds s) = 2 \<and> poll_nfds s = 2"

section \<open>Receiving\<close>

text \<open>Both receivers return \<open>1\<close> for a message; a datagram is always the server's.\<close>

definition client_receive_tcp :: "env \<Rightarrow> ('a peer_scheme, int) state" where
  "client_receive_tcp e = receive_tcp True (\<lambda>_. 1) e 1"

definition client_receive_udp :: "env \<Rightarrow> ('a peer_scheme, int) state" where
  "client_receive_udp e = receive_udp True (\<lambda>_ _. Some 1) (\<lambda>_. 1) e"

definition client_disconnect :: "env \<Rightarrow> (client, unit) state" where
  "client_disconnect e = do {
     fd \<leftarrow> gets (\<lambda>s. tcp_socket (infos s ! 0));
     r \<leftarrow> sys_int e (C_shutdown fd);
     (if r = -1 then log_error e else skip);
     r \<leftarrow> sys_int e (C_close fd);
     (if r = -1 then log_error e else skip);
     set_infos 0 (\<lambda>x. x\<lparr>tcp_socket := -1\<rparr>);
     log_info e;
     call_back disconnect_callback DisconnectCb 1 [] }"

section \<open>Polling\<close>

text \<open>What follows a receive loop that ended with \<open>ret_receive\<close>; the result says whether
  \<open>udtcp_client_poll\<close> returns \<open>UDTCP_POLL_ERROR\<close> here.\<close>

definition client_after_tcp :: "env \<Rightarrow> int \<Rightarrow> (client, bool) state" where
  "client_after_tcp e ret_receive =
     (if ret_receive < 0 then do {
        x \<leftarrow> gets errno;
        if x \<noteq> EWOULDBLOCK then do { client_disconnect e; ret True } else ret False }
      else if ret_receive = 0 then do { client_disconnect e; ret True }
      else ret False)"

definition client_after_udp :: "env \<Rightarrow> int \<Rightarrow> (client, bool) state" where
  "client_after_udp e ret_receive =
     (if ret_receive < 0 then do {
        log_error e;
        x \<leftarrow> gets errno;
        if x \<noteq> EWOULDBLOCK then do { log_error e; client_disconnect e; ret True } else ret False }
      else if ret_receive = 0 then do { log_error e; client_disconnect e; ret True }
      else ret False)"

definition client_scan_slot :: "env \<Rightarrow> nat \<Rightarrow> client \<Rightarrow> (bool \<times> client) option" where
  "client_scan_slot e i s =
     (if revents (poll_fds s ! i) = 0 then Some (False, s)
      else if revents (poll_fds s ! i) AND POLLIN = 0 then Some (True, snd (run_state (log_error e) s))
      else if pfd (poll_fds s ! i) = tcp_socket (infos s ! 0) then
        (case drain e (\<lambda>r. 0 < r) (client_receive_tcp e) s of
           None \<Rightarrow> None | Some (r, s') \<Rightarrow> Some (run_state (client_after_tcp e r) s'))
      else if pfd (poll_fds s ! i) = udp_server_socket (infos s ! 0) then
        (case drain e (\<lambda>r. 0 < r) (client_receive_udp e) s of
           None \<Rightarrow> None | Some (r, s') \<Rightarrow> Some (run_state (client_after_udp e r) s'))
      else Some (False, s))"

partial_function (option) client_scan ::
    "env \<Rightarrow> nat \<Rightarrow> client \<Rightarrow> (udtcp_poll_e \<times> client) option" where
  "client_scan e i s =
     (if looping e s \<and> i < poll_nfds s then
        Option.bind (client_scan_slot e i s)
          (\<lambda>(stop, s'). if stop then Some (UDTCP_POLL_ERROR, s') else client_scan e (Suc i) s')
      else Some (UDTCP_POLL_SUCCESS, s))"

definition udtcp_client_poll :: "env \<Rightarrow> int \<Rightarrow> client \<Rightarrow> (udtcp_poll_e \<times> client) option" where
  "udtcp_client_poll e timeout s =
     (case run_state (poll_table e timeout) s of (ret_poll, s1) \<Rightarrow>
      if ret_poll < 0 then
        (if errno s1 = EINTR then Some (UDTCP_POLL_SIGNAL, s1)
         else Some (UDTCP_POLL_ERROR, snd (run_state (log_error e) s1)))
      else if ret_poll = 0 then Some (UDTCP_POLL_TIMEOUT, snd (run_state (log_info e) s1))
      else client_scan e 0 s1)"

end
