(* ===== verification/Udtcp_Channel.thy ===== *)
theory Udtcp_Channel
  imports Udtcp_Stream Udtcp_Server_Poll Udtcp_Client
begin

text \<open>
  Conversations: a list of messages sent one after the other over a connection, and the receive loop
  of a poll function at its other end, which reads until the kernel has nothing more.
\<close>

section \<open>Sending a list of messages\<close>

definition message_ok :: "byte list \<Rightarrow> bool" where
  "message_ok d \<longleftrightarrow> d \<noteq> [] \<and> length d < 2 ^ 31"

lemma message_okD:
  assumes "message_ok d"
  shows "d \<noteq> []" "length d < 2 ^ 31" "length d < 2 ^ 32" "length d = unat (of_nat (length d) :: u32)"
    "sendable sd (of_nat (length d))"
proof -
  show "d \<noteq> []" and l: "length d < 2 ^ 31" using assms by (simp_all add: message_ok_def)
  then show "length d < 2 ^ 32" by simp
  then show u: "length d = unat (of_nat (length d) :: u32)" by (simp add: unat_of_nat)
  have "of_nat (length d) \<noteq> (0 :: u32)" using u \<open>d \<noteq> []\<close> by (metis length_0_conv unsigned_0)
  then show "sendable sd (of_nat (length d))" using l by (simp add: sendable_def flip: u)
qed

text \<open>The calls of the application and what they return.\<close>

fun send_all :: "env \<Rightarrow> udtcp_infos \<Rightarrow> udtcp_send \<Rightarrow> byte list list \<Rightarrow> ('a sys_scheme, int list \<times> udtcp_send) state" where
  "send_all e x sd [] = ret ([], sd)"
| "send_all e x sd (d # ds) = do {
     (r, sd1) \<leftarrow> udtcp_send_tcp e x sd d (of_nat (length d));
     (rs, sd2) \<leftarrow> send_all e x sd1 ds;
     ret (r # rs, sd2) }"

definition frames :: "byte list list \<Rightarrow> byte list" where
  "frames ds = concat (map frame ds)"

lemma frames_simps [simp]: "frames [] = []" "frames (d # ds) = frame d @ frames ds"
  by (simp_all add: frames_def)

definition all_sent :: "byte list list \<Rightarrow> int list" where
  "all_sent ds = map (\<lambda>d. int (length d + 4)) ds"

lemma send_all_frames:
  assumes "send_ok sd" "list_all message_ok ds"
    and "run_state (send_all e x sd ds) t = ((all_sent ds, sd'), t')"
  shows "send_ok sd' \<and> sent_on (tcp_socket x) (hist t') = sent_on (tcp_socket x) (hist t) @ frames ds"
  using assms
proof (induction ds arbitrary: sd t)
  case (Cons d ds)
  from Cons.prems(2) have d: "message_ok d" and ds: "list_all message_ok ds" by simp_all
  obtain r sd1 t1 where one: "run_state (udtcp_send_tcp e x sd d (of_nat (length d))) t = ((r, sd1), t1)"
    by (metis surj_pair)
  obtain rs sd2 t2 where rest: "run_state (send_all e x sd1 ds) t1 = ((rs, sd2), t2)" by (metis surj_pair)
  from Cons.prems(3) one rest have eq: "r = int (length d + 4)" "rs = all_sent ds" "sd2 = sd'" "t2 = t'"
    by (simp_all add: all_sent_def)
  from wp_runI [OF send_tcp_outcome [OF Cons.prems(1) message_okD(5,4) [OF d]] one] eq(1)
  have "send_ok sd1" "sent_on (tcp_socket x) (hist t1) = sent_on (tcp_socket x) (hist t) @ frame d"
    by (simp_all add: send_outcome_def)
  with Cons.IH [OF this(1) ds rest [unfolded eq]] show ?case by simp
qed simp

section \<open>Receiving them\<close>

text \<open>The other end of a connection over which \<open>stream\<close> arrives: every \<open>recv\<close> takes a next piece of
  it, a header is never cut, and when all has been read \<open>recv\<close> would block.\<close>

definition channel :: "env \<Rightarrow> int \<Rightarrow> byte list \<Rightarrow> bool" where
  "channel e fd stream \<longleftrightarrow> delivers e fd stream \<and>
     (\<forall>h. consumed fd h + 4 \<le> length stream \<longrightarrow> whole_header e fd h) \<and>
     (\<forall>h. consumed fd h = length stream \<longrightarrow> rv (os e h (C_recv fd 4)) < 0 \<and>
        err (os e h (C_recv fd 4)) = EWOULDBLOCK)"

lemma drain_unfold:
  "drain e again m s = (case run_state m s of (r, s1) \<Rightarrow>
     if looping e s1 \<and> again r then drain e again m s1 else Some (r, s1))"
  unfolding drain_def by (cases "run_state m s") (subst while_option_unfold, simp)

lemma receive_tcp_would_block:
  assumes "channel e fd stream" "fd = tcp_socket (infos s ! i)" "consumed fd (hist s) = length stream"
  shows "\<exists>s'. run_state (receive_tcp q res e i) s = (-1, s') \<and> errno s' = EWOULDBLOCK \<and>
    callbacks (hist s') = callbacks (hist s)"
  using assms by (simp add: receive_tcp_def sys_recv_def run_syscall channel_def recv_result_def)

text \<open>The receive loop hands out the messages in order and ends when there are no more.\<close>

lemma drain_delivers:
  assumes "channel e fd stream" "list_all message_ok ds"
    and "consumed fd (hist s) \<le> length stream" "drop (consumed fd (hist s)) stream = frames ds"
    and "rx_inv s0 K s" "fd = tcp_socket (infos s0 ! i)" "receive_tcp_callback s0" "poll_loop s0 \<noteq> 0"
    and "\<And>h. \<not> stop_seen e h" "\<And>d. message_ok d \<Longrightarrow> 0 < res (of_nat (length d))"
  shows "\<exists>s'. drain e (\<lambda>r. 0 < r) (receive_tcp q res e i) s = Some (-1, s') \<and> errno s' = EWOULDBLOCK \<and>
    callbacks (hist s') = callbacks (hist s) @ map (Cb ReceiveTcpCb i) ds \<and> rx_inv s0 K s'"
  using assms(2-5)
proof (induction ds arbitrary: s)
  case Nil
  from Nil.prems have all: "consumed fd (hist s) = length stream" by simp
  have fd: "fd = tcp_socket (infos s ! i)"
    using assms(6) Nil.prems(4) by (simp add: rx_inv_def buffer_frame_fields(1) [of s0 s])
  from receive_tcp_would_block [OF assms(1) fd all] obtain s' where
    s': "run_state (receive_tcp q res e i) s = (-1, s')" "errno s' = EWOULDBLOCK"
      "callbacks (hist s') = callbacks (hist s)" by blast
  with wp_runI [OF receive_tcp_inv [OF Nil.prems(4)] s'(1)] show ?case
    by (simp add: drain_unfold [of _ _ _ s])
next
  case (Cons d ds)
  from Cons.prems(1) have d: "message_ok d" and ds: "list_all message_ok ds" by simp_all
  have frame: "buffer_frame s0 s" and ok: "buffer_ok s" using Cons.prems(4) by (simp_all add: rx_inv_def)
  note f = buffer_frame_fields [OF frame]
  have st: "drop (consumed fd (hist s)) stream = frame d @ frames ds" using Cons.prems(3) by simp
  have "length (drop (consumed fd (hist s)) stream) = length (frame d @ frames ds)" by (simp only: st)
  then have "consumed fd (hist s) + 4 \<le> length stream" by simp
  with assms(1) have del: "delivers e fd stream" and head: "whole_header e fd (hist s)"
    by (simp_all add: channel_def)
  have fd: "fd = tcp_socket (infos s ! i)" by (simp add: assms(6) f(1))
  obtain s1 where s1: "run_state (receive_tcp q res e i) s = (res (of_nat (length d)), s1)"
    "drop (consumed fd (hist s1)) stream = frames ds" "consumed fd (hist s1) \<le> length stream"
    "callbacks (hist s1) = callbacks (hist s) @ [Cb ReceiveTcpCb i d]"
    using receive_tcp_delivers [OF del ok fd Cons.prems(2) st message_okD(1,3) [OF d] head, of q res]
      assms(7) f(9) by auto
  have inv: "rx_inv s0 K s1" by (rule wp_runI [OF receive_tcp_inv [OF Cons.prems(4)] s1(1)])
  then have "looping e s1" using assms(8,9) by (simp add: looping_def rx_inv_def buffer_frame_fields(4) [of s0 s1])
  with Cons.IH [OF ds s1(3,2) inv] s1(1,4) assms(10) [OF d] show ?case
    by (simp add: drain_unfold [of _ _ _ s])
qed


section \<open>A whole poll\<close>

text \<open>\<open>poll\<close> reports entry \<open>i\<close> of the table readable and no other.\<close>

definition only_ready :: "env \<Rightarrow> nat \<Rightarrow> int \<Rightarrow> 'a peer_scheme \<Rightarrow> bool" where
  "only_ready e i timeout s \<longleftrightarrow> (let r = os e (hist s)
       (C_poll (map (\<lambda>p. (pfd p, events p)) (take (poll_nfds s) (poll_fds s))) (c_int timeout)) in
     0 < rv r \<and> revs r = (replicate (poll_nfds s) 0)[i := POLLIN])"

lemma poll_table_one:
  assumes "only_ready e i timeout s" "rx_inv s K s" "i < poll_nfds s" "poll_nfds s \<le> length (poll_fds s)"
  obtains r s1 where "run_state (poll_table e timeout) s = (r, s1)" "0 < r" "rx_inv s1 K s1"
    "map pfd (poll_fds s1) = map pfd (poll_fds s)"
    "\<And>j. j < poll_nfds s \<Longrightarrow> revents (poll_fds s1 ! j) = (if j = i then POLLIN else 0)"
    "buffer_frame (s\<lparr>poll_fds := poll_fds s1\<rparr>) s1" "callbacks (hist s1) = callbacks (hist s)"
    "faults (hist s1) = faults (hist s)" "\<And>fd. consumed fd (hist s1) = consumed fd (hist s)"
    "\<And>fd. taken fd (hist s1) = taken fd (hist s)"
proof -
  define c where "c = C_poll (map (\<lambda>p. (pfd p, events p)) (take (poll_nfds s) (poll_fds s))) (c_int timeout)"
  define r where "r = os e (hist s) c"
  have r: "0 < rv r" "revs r = (replicate (poll_nfds s) 0)[i := POLLIN]"
    using assms(1) by (simp_all add: only_ready_def Let_def c_def r_def)
  define s1 where "s1 = s\<lparr>hist := hist s @ [Ev c r],
    poll_fds := set_revents (poll_nfds s) (revs r) (poll_fds s)\<rparr>"
  have run: "run_state (poll_table e timeout) s = (rv r, s1)"
    using r(1) by (simp add: poll_table_def run_syscall s1_def r_def c_def)
  show thesis
  proof (rule that [OF run r(1)])
    show "rx_inv s1 K s1" using assms(2) by (simp add: s1_def rx_inv_def heap_balanced_def c_def buffer_ok_def buffer_block_def split: option.splits)
    show "buffer_frame (s\<lparr>poll_fds := poll_fds s1\<rparr>) s1" by (simp add: s1_def buffer_frame_def)
    show "map pfd (poll_fds s1) = map pfd (poll_fds s)"
      by (intro nth_equalityI) (simp_all add: s1_def)
    show "revents (poll_fds s1 ! j) = (if j = i then POLLIN else 0)" if "j < poll_nfds s" for j
      using that assms(4) r(2) by (simp add: s1_def set_revents_def)
  qed (simp_all add: s1_def c_def)
qed

lemma server_scan_skip:
  assumes "k \<le> i" "i \<le> poll_nfds s" "looping e s" "\<And>j. k \<le> j \<Longrightarrow> j < i \<Longrightarrow> revents (poll_fds s ! j) = 0"
  shows "server_scan e k b s = server_scan e i b s"
  using assms(1,4)
proof (induction rule: inc_induct)
  case (step n)
  with assms(2,3) show ?case by (simp add: server_scan.simps [of e n] server_scan_slot_def)
qed simp

lemma server_scan_one:
  assumes "i < poll_nfds s" "looping e s" "\<And>j. j < poll_nfds s \<Longrightarrow> j \<noteq> i \<Longrightarrow> revents (poll_fds s ! j) = 0"
    and "server_scan_slot e i s = Some (False, s')" "looping e s'" "poll_fds s' = poll_fds s" "poll_nfds s' = poll_nfds s"
  shows "server_scan e 0 False s = Some (False, s')"
proof -
  have "server_scan e 0 False s = server_scan e i False s"
    using assms(1-3) by (intro server_scan_skip) auto
  also have "\<dots> = server_scan e (Suc i) False s'"
    using assms(1,2,4) by (simp add: server_scan.simps [of e i])
  also have "\<dots> = server_scan e (poll_nfds s) False s'"
    using assms by (intro server_scan_skip) auto
  also have "\<dots> = Some (False, s')" by (subst server_scan.simps) (simp add: assms(7))
  finally show ?thesis .
qed

text \<open>A receiver that is running, wants the messages of the connection in slot \<open>i\<close> and has its memory in
  order; \<open>j\<close> is the entry of the connection in its poll table.\<close>

definition listening :: "env \<Rightarrow> int multiset \<Rightarrow> int \<Rightarrow> nat \<Rightarrow> nat \<Rightarrow> 'a peer_scheme \<Rightarrow> bool" where
  "listening e K fd i j s \<longleftrightarrow> (\<forall>h. \<not> stop_seen e h) \<and> poll_loop s \<noteq> 0 \<and> receive_tcp_callback s \<and>
     buffer_ok s \<and> heap_balanced K s \<and> fd = tcp_socket (infos s ! i) \<and>
     j < poll_nfds s \<and> poll_nfds s \<le> length (poll_fds s)"

text \<open>What \<open>s\<close> becomes by receiving \<open>ds\<close>.\<close>

definition received_all :: "int multiset \<Rightarrow> nat \<Rightarrow> byte list list \<Rightarrow> 'a peer_scheme \<Rightarrow> 'a peer_scheme \<Rightarrow> bool" where
  "received_all K i ds s s' \<longleftrightarrow> callbacks (hist s') = callbacks (hist s) @ map (Cb ReceiveTcpCb i) ds \<and>
     infos s' = infos s \<and> map pfd (poll_fds s') = map pfd (poll_fds s) \<and> poll_nfds s' = poll_nfds s \<and>
     faults (hist s') = faults (hist s) \<and> heap_balanced K s'"

lemma poll_receives:
  assumes "channel e fd stream" "list_all message_ok ds" "listening e K fd i j s" "only_ready e j timeout s"
    and "consumed fd (hist s) \<le> length stream" "drop (consumed fd (hist s)) stream = frames ds"
    and res: "\<And>d. message_ok d \<Longrightarrow> 0 < res (of_nat (length d))"
  obtains r s1 s2 where "run_state (poll_table e timeout) s = (r, s1)" "0 < r" "looping e s1"
    "infos s1 = infos s" "poll_nfds s1 = poll_nfds s" "pfd (poll_fds s1 ! j) = pfd (poll_fds s ! j)"
    "\<And>k. k < poll_nfds s \<Longrightarrow> revents (poll_fds s1 ! k) = (if k = j then POLLIN else 0)"
    "drain e (\<lambda>r. 0 < r) (receive_tcp q res e i) s1 = Some (-1, s2)" "errno s2 = EWOULDBLOCK" "looping e s2"
    "poll_fds s2 = poll_fds s1" "poll_nfds s2 = poll_nfds s" "received_all K i ds s s2"
proof -
  from assms(3) have l: "\<And>h. \<not> stop_seen e h" "poll_loop s \<noteq> 0" "receive_tcp_callback s" "buffer_ok s"
    "heap_balanced K s" "fd = tcp_socket (infos s ! i)" "j < poll_nfds s" "poll_nfds s \<le> length (poll_fds s)"
    by (simp_all add: listening_def)
  obtain r s1 where s1: "run_state (poll_table e timeout) s = (r, s1)" "0 < r" "rx_inv s1 K s1"
    "map pfd (poll_fds s1) = map pfd (poll_fds s)"
    "\<And>k. k < poll_nfds s \<Longrightarrow> revents (poll_fds s1 ! k) = (if k = j then POLLIN else 0)"
    "buffer_frame (s\<lparr>poll_fds := poll_fds s1\<rparr>) s1" "callbacks (hist s1) = callbacks (hist s)"
    "faults (hist s1) = faults (hist s)" "\<And>fd. consumed fd (hist s1) = consumed fd (hist s)"
    by (rule poll_table_one [OF assms(4) rx_inv_refl [OF l(4,5)] l(7,8)]) (rule that)
  note f = buffer_frame_fields [OF s1(6), simplified]
  obtain s2 where s2: "drain e (\<lambda>r. 0 < r) (receive_tcp q res e i) s1 = Some (-1, s2)" "errno s2 = EWOULDBLOCK"
    "callbacks (hist s2) = callbacks (hist s1) @ map (Cb ReceiveTcpCb i) ds" "rx_inv s1 K s2"
    using drain_delivers [OF assms(1,2) _ _ s1(3), of i res q] assms(5,6) l(1-3,6) res
    by (auto simp: s1(9) f)
  have g: "buffer_frame s1 s2" "faults (hist s2) = faults (hist s1)" "heap_balanced K s2"
    using s2(4) by (simp_all add: rx_inv_def)
  note h = buffer_frame_fields [OF g(1)]
  have pfds: "length (poll_fds s1) = length (poll_fds s)" "pfd (poll_fds s1 ! j) = pfd (poll_fds s ! j)"
    using s1(4) l(7,8) by (metis length_map, metis length_map nth_map order_less_le_trans)
  show thesis
    by (rule that [OF s1(1,2) _ _ _ _ s1(5) s2(1,2)])
      (use l(1,2) f h s1(4,7,8) s2(3) g pfds in \<open>simp_all add: looping_def received_all_def\<close>)
qed

lemma sint_message: "message_ok d \<Longrightarrow> sint (of_nat (length d) :: u32) = int (length d)"
  using c_int_id [of "int (length d)"] by (simp add: c_int_def message_ok_def)

lemma POLLIN_set: "POLLIN \<noteq> 0" "POLLIN AND POLLIN \<noteq> 0"
  by (simp_all add: POLLIN_def)

lemma server_poll_receives:
  assumes "channel e fd stream" "list_all message_ok ds" "listening e K fd i i s" "only_ready e i timeout s"
    and "consumed fd (hist s) \<le> length stream" "drop (consumed fd (hist s)) stream = frames ds"
    and "pfd (poll_fds s ! i) \<noteq> tcp_socket (infos s ! 0)" "pfd (poll_fds s ! i) \<noteq> udp_server_socket (infos s ! 0)"
  shows "\<exists>s'. udtcp_server_poll e timeout s = Some (UDTCP_POLL_SUCCESS, s') \<and> received_all K i ds s s'"
proof -
  have pos: "0 < sint (of_nat (length d) :: u32)" if "message_ok d" for d
    using sint_message [OF that] message_okD(1) [OF that] by simp
  obtain r s1 s2 where *: "run_state (poll_table e timeout) s = (r, s1)" "0 < r" "looping e s1"
    "infos s1 = infos s" "poll_nfds s1 = poll_nfds s" "pfd (poll_fds s1 ! i) = pfd (poll_fds s ! i)"
    "\<And>k. k < poll_nfds s \<Longrightarrow> revents (poll_fds s1 ! k) = (if k = i then POLLIN else 0)"
    "drain e (\<lambda>r. 0 < r) (receive_tcp False sint e i) s1 = Some (-1, s2)" "errno s2 = EWOULDBLOCK" "looping e s2"
    "poll_fds s2 = poll_fds s1" "poll_nfds s2 = poll_nfds s" "received_all K i ds s s2"
    by (rule poll_receives [OF assms(1-6), where q = False and res = sint]) (rule pos, assumption, rule that)
  have i: "i < poll_nfds s" using assms(3) by (simp add: listening_def)
  have slot: "server_scan_slot e i s1 = Some (False, s2)"
    using * i assms(7,8) POLLIN_set by (simp add: server_scan_slot_def server_receive_tcp_def server_after_receive_def)
  have "server_scan e 0 False s1 = Some (False, s2)"
    using i * by (intro server_scan_one [OF _ _ _ slot]) simp_all
  with * show ?thesis by (auto simp: udtcp_server_poll_def)
qed

lemma client_poll_receives:
  assumes "channel e fd stream" "list_all message_ok ds" "listening e K fd 1 0 s" "only_ready e 0 timeout s"
    and "consumed fd (hist s) \<le> length stream" "drop (consumed fd (hist s)) stream = frames ds"
    and "pfd (poll_fds s ! 0) = tcp_socket (infos s ! 0)" "client_wf s"
  shows "\<exists>s'. udtcp_client_poll e timeout s = Some (UDTCP_POLL_SUCCESS, s') \<and> received_all K 1 ds s s'"
proof -
  have pos: "0 < (1 :: int)" by simp
  obtain r s1 s2 where *: "run_state (poll_table e timeout) s = (r, s1)" "0 < r" "looping e s1"
    "infos s1 = infos s" "poll_nfds s1 = poll_nfds s" "pfd (poll_fds s1 ! 0) = pfd (poll_fds s ! 0)"
    "\<And>k. k < poll_nfds s \<Longrightarrow> revents (poll_fds s1 ! k) = (if k = 0 then POLLIN else 0)"
    "drain e (\<lambda>r. 0 < r) (receive_tcp True (\<lambda>_. 1) e 1) s1 = Some (-1, s2)" "errno s2 = EWOULDBLOCK" "looping e s2"
    "poll_fds s2 = poll_fds s1" "poll_nfds s2 = poll_nfds s" "received_all K 1 ds s s2"
    by (rule poll_receives [OF assms(1-6), where q = True and res = "\<lambda>_. 1"]) (rule pos, rule that)
  have two: "poll_nfds s = 2" using assms(8) by (simp add: client_wf_def)
  have slot: "client_scan_slot e 0 s1 = Some (False, s2)"
    using * two assms(7) POLLIN_set by (simp add: client_scan_slot_def client_receive_tcp_def client_after_tcp_def)
  have rest: "client_scan_slot e 1 s2 = Some (False, s2)" using * two by (simp add: client_scan_slot_def)
  have "client_scan e 0 s1 = Some (UDTCP_POLL_SUCCESS, s2)"
    using * two slot rest
    by (simp add: client_scan.simps [of e 0] client_scan.simps [of e "Suc 0"] client_scan.simps [of e "Suc (Suc 0)"])
  with * show ?thesis by (auto simp: udtcp_client_poll_def)
qed

end
