(* ===== verification/Udtcp_Datagrams.thy ===== *)
theory Udtcp_Datagrams
  imports Udtcp_Channel
begin

text \<open>
  Conversations over UDP: what \<open>udtcp_send_udp\<close> puts on the network for a list of messages, and one poll
  of a server whose socket has some of these datagrams in its queue, in any order and any number of
  times.
\<close>

section \<open>Sending\<close>

fun send_all_udp :: "env \<Rightarrow> udtcp_infos \<Rightarrow> udtcp_send \<Rightarrow> byte list list \<Rightarrow> ('a sys_scheme, int list \<times> udtcp_send) state" where
  "send_all_udp e x sd [] = ret ([], sd)"
| "send_all_udp e x sd (d # ds) = do {
     (r, sd1) \<leftarrow> udtcp_send_udp e x sd d (of_nat (length d));
     (rs, sd2) \<leftarrow> send_all_udp e x sd1 ds;
     ret (r # rs, sd2) }"

definition fits_datagram :: "byte list \<Rightarrow> bool" where
  "fits_datagram d \<longleftrightarrow> d \<noteq> [] \<and> length d + 4 < 2 ^ 31"

lemma fits_message: "fits_datagram d \<Longrightarrow> message_ok d"
  by (simp add: fits_datagram_def message_ok_def)

text \<open>Each datagram carries one message, whole.\<close>

lemma send_all_udp_datagrams:
  assumes "send_ok sd" "list_all fits_datagram ds"
    and "run_state (send_all_udp e x sd ds) t = ((rs, sd'), t')"
  shows "\<exists>ms. set ms \<subseteq> set ds \<and>
    datagrams (hist t') = datagrams (hist t) @ map (\<lambda>d. (udp_server_socket x, frame d, udp_server_addr x)) ms"
  using assms
proof (induction ds arbitrary: sd t rs)
  case (Cons d ds)
  from Cons.prems(2) have d: "message_ok d" and ds: "list_all fits_datagram ds" by (simp_all add: fits_message)
  obtain r sd1 t1 where one: "run_state (udtcp_send_udp e x sd d (of_nat (length d))) t = ((r, sd1), t1)"
    by (metis surj_pair)
  obtain rs' sd2 t2 where rest: "run_state (send_all_udp e x sd1 ds) t1 = ((rs', sd2), t2)" by (metis surj_pair)
  from Cons.prems(3) one rest have eq: "sd2 = sd'" "t2 = t'" by simp_all
  from wp_runI [OF send_udp_outcome [OF Cons.prems(1) message_okD(5,4) [OF d]] one]
  have "send_ok sd1" and first: "datagrams (hist t1) = datagrams (hist t) \<or>
      datagrams (hist t1) = datagrams (hist t) @ [(udp_server_socket x, frame d, udp_server_addr x)]"
    by (auto simp: send_outcome_def)
  from Cons.IH [OF this(1) ds rest [unfolded eq]] obtain ms where ms: "set ms \<subseteq> set ds"
    "datagrams (hist t') = datagrams (hist t1) @ map (\<lambda>d. (udp_server_socket x, frame d, udp_server_addr x)) ms" by blast
  from first show ?case
  proof
    assume "datagrams (hist t1) = datagrams (hist t)"
    with ms show ?thesis by (intro exI [of _ ms]) auto
  next
    assume "datagrams (hist t1) = datagrams (hist t) @ [(udp_server_socket x, frame d, udp_server_addr x)]"
    with ms show ?thesis by (intro exI [of _ "d # ms"]) auto
  qed
qed (auto intro: exI [of _ "[]"])

section \<open>Receiving\<close>

text \<open>A socket whose queue is \<open>q\<close>: datagrams with their senders; when all are taken it would block.\<close>

definition datagram_queue :: "env \<Rightarrow> int \<Rightarrow> (sockaddr_in \<times> byte list) list \<Rightarrow> bool" where
  "datagram_queue e fd q \<longleftrightarrow> (\<forall>h n. rv (os e h (C_malloc n)) \<noteq> 0) \<and> (\<forall>h.
     (let k = taken fd h in if k < length q
      then \<forall>n peek. recv_result n (os e h (C_recvfrom fd n peek)) = (int (length (take n (snd (q ! k)))), take n (snd (q ! k))) \<and>
        from_addr (os e h (C_recvfrom fd n peek)) = fst (q ! k)
      else rv (os e h (C_recvfrom fd 4 True)) < 0 \<and> err (os e h (C_recvfrom fd 4 True)) = EWOULDBLOCK))"

lemma datagram_queue_next:
  "datagram_queue e fd q \<Longrightarrow> taken fd h < length q \<Longrightarrow>
    next_datagram e fd (snd (q ! taken fd h)) (fst (q ! taken fd h)) h"
  by (simp add: datagram_queue_def next_datagram_def Let_def)

definition udp_callback :: "'a peer_scheme \<Rightarrow> sockaddr_in \<times> byte list \<Rightarrow> byte list \<Rightarrow> event" where
  "udp_callback s p d = Cb ReceiveUdpCb (the (udtcp_get_infos (fst p) s)) d"

text \<open>The receive loop hands out every datagram of the queue, in the name of its sender.\<close>

lemma drain_datagrams:
  assumes "datagram_queue e fd q" "udp_sizes_fit e"
    and "taken fd (hist s) \<le> length q" "drop (taken fd (hist s)) q = map2 (\<lambda>p d. (fst p, frame d)) ps ms"
    and "length ms = length ps" "list_all fits_datagram ms" "\<forall>p \<in> set ps. udtcp_get_infos (fst p) s0 \<noteq> None"
    and "rx_inv s0 K s" "fd = udp_server_socket (infos s0 ! 0)" "receive_udp_callback s0" "poll_loop s0 \<noteq> 0"
    and "\<And>h. \<not> stop_seen e h"
  shows "\<exists>s'. drain e (\<lambda>r. 0 < r) (server_receive_udp e) s = Some (-1, s') \<and>
    callbacks (hist s') = callbacks (hist s) @ map2 (udp_callback s0) ps ms \<and> rx_inv s0 K s'"
  using assms(3-8)
proof (induction ms arbitrary: s ps)
  case Nil
  then have all: "taken fd (hist s) = length q" by simp
  have fd: "fd = udp_server_socket (infos s ! 0)"
    using assms(9) Nil.prems(6) by (simp add: rx_inv_def buffer_frame_fields(1) [of s0 s])
  from assms(1) all have b: "rv (os e (hist s) (C_recvfrom fd 4 True)) < 0" by (simp add: datagram_queue_def Let_def)
  obtain r s' where run: "run_state (server_receive_udp e) s = (r, s')" by fastforce
  with b have "r = -1" "callbacks (hist s') = callbacks (hist s)"
    using c_int_recv_4 [of 4 "os e (hist s) (C_recvfrom fd 4 True)"]
    by (auto simp: server_receive_udp_def receive_udp_def sys_recvfrom_def run_syscall recv_result_def simp flip: fd)
  with wp_runI [OF server_receive_udp_inv [OF Nil.prems(6) assms(2)] run] run show ?case
    by (simp add: drain_unfold [of _ _ _ s] Nil.prems)
next
  case (Cons d ms)
  then obtain p ps' where ps: "ps = p # ps'" by (cases ps) simp_all
  from Cons.prems(4) have d: "fits_datagram d" and ms: "list_all fits_datagram ms" by simp_all
  have frame: "buffer_frame s0 s" and ok: "buffer_ok s" using Cons.prems(6) by (simp_all add: rx_inv_def)
  note f = buffer_frame_fields [OF frame]
  have q: "drop (taken fd (hist s)) q = (fst p, frame d) # map2 (\<lambda>p d. (fst p, frame d)) ps' ms"
    using Cons.prems(2) by (simp add: ps)
  then have lt: "taken fd (hist s) < length q" by (metis drop_all list.distinct(1) not_less)
  with q have head: "q ! taken fd (hist s) = (fst p, frame d)"
    "drop (Suc (taken fd (hist s))) q = map2 (\<lambda>p d. (fst p, frame d)) ps' ms"
    by (simp_all flip: Cons_nth_drop_Suc)
  have fd: "fd = udp_server_socket (infos s ! 0)" by (simp add: assms(9) f(1))
  obtain j where j: "udtcp_get_infos (fst p) s0 = Some j" using Cons.prems(5) by (auto simp: ps)
  have sender: "udtcp_get_infos (fst p) t = Some j" if "buffer_frame s t" for t
    using j buffer_frame_fields(1,3) [OF buffer_frame_trans [OF frame that]] by (simp add: udtcp_get_infos_def)
  have len: "length d + 4 < 2 ^ 31" using d by (simp add: fits_datagram_def)
  obtain s1 where s1: "run_state (server_receive_udp e) s = (sint (of_nat (length d) :: u32), s1)"
    "callbacks (hist s1) = callbacks (hist s) @ [Cb ReceiveUdpCb j d]" "taken fd (hist s1) = Suc (taken fd (hist s))"
    using receive_udp_delivers [where sender = udtcp_get_infos and j = j and res = sint and close_log = False,
        OF datagram_queue_next [OF assms(1) lt, unfolded head fst_conv snd_conv] ok fd len sender]
      assms(10) f(10)
    by (auto simp: server_receive_udp_def)
  have pos: "0 < sint (of_nat (length d) :: u32)"
    using sint_message [OF fits_message [OF d]] d by (simp add: fits_datagram_def)
  have inv: "rx_inv s0 K s1" by (rule wp_runI [OF server_receive_udp_inv [OF Cons.prems(6) assms(2)] s1(1)])
  then have "looping e s1" using assms(11,12) by (simp add: looping_def rx_inv_def buffer_frame_fields(4) [of s0 s1])
  moreover have "\<exists>s'. drain e (\<lambda>r. 0 < r) (server_receive_udp e) s1 = Some (-1, s') \<and>
      callbacks (hist s') = callbacks (hist s1) @ map2 (udp_callback s0) ps' ms \<and> rx_inv s0 K s'"
    by (rule Cons.IH) (use Cons.prems lt head s1(3) ms inv in \<open>simp_all add: ps\<close>)
  ultimately show ?case
    using s1(1,2) pos j by (auto simp: drain_unfold [of _ _ _ s] ps udp_callback_def)
qed

section \<open>A whole poll\<close>

text \<open>A server that is running and polls its UDP socket \<open>fd\<close>, with its memory in order.\<close>

definition hearing :: "env \<Rightarrow> int multiset \<Rightarrow> int \<Rightarrow> server \<Rightarrow> bool" where
  "hearing e K fd s \<longleftrightarrow> (\<forall>h. \<not> stop_seen e h) \<and> poll_loop s \<noteq> 0 \<and> receive_udp_callback s \<and>
     buffer_ok s \<and> heap_balanced K s \<and> fd = udp_server_socket (infos s ! 0) \<and> pfd (poll_fds s ! 1) = fd \<and>
     fd \<noteq> tcp_socket (infos s ! 0) \<and> 2 \<le> poll_nfds s \<and> poll_nfds s \<le> length (poll_fds s)"

text \<open>What \<open>s\<close> becomes by handing \<open>ms\<close>, from the senders of \<open>ps\<close>, to the callback.\<close>

definition heard_all :: "int multiset \<Rightarrow> (sockaddr_in \<times> byte list) list \<Rightarrow> byte list list \<Rightarrow> server \<Rightarrow> server \<Rightarrow> bool" where
  "heard_all K ps ms s s' \<longleftrightarrow> callbacks (hist s') = callbacks (hist s) @ map2 (udp_callback s) ps ms \<and>
     infos s' = infos s \<and> map pfd (poll_fds s') = map pfd (poll_fds s) \<and> poll_nfds s' = poll_nfds s \<and>
     faults (hist s') = faults (hist s) \<and> heap_balanced K s'"

lemma server_poll_datagrams:
  assumes "datagram_queue e fd q" "udp_sizes_fit e" "hearing e K fd s" "only_ready e 1 timeout s"
    and "taken fd (hist s) \<le> length q" "drop (taken fd (hist s)) q = map2 (\<lambda>p d. (fst p, frame d)) ps ms"
    and "length ms = length ps" "list_all fits_datagram ms" "\<forall>p \<in> set ps. udtcp_get_infos (fst p) s \<noteq> None"
  shows "\<exists>s'. udtcp_server_poll e timeout s = Some (UDTCP_POLL_SUCCESS, s') \<and> heard_all K ps ms s s'"
proof -
  from assms(3) have l: "\<And>h. \<not> stop_seen e h" "poll_loop s \<noteq> 0" "receive_udp_callback s" "buffer_ok s"
    "heap_balanced K s" "fd = udp_server_socket (infos s ! 0)" "pfd (poll_fds s ! 1) = fd"
    "fd \<noteq> tcp_socket (infos s ! 0)" "1 < poll_nfds s" "poll_nfds s \<le> length (poll_fds s)"
    by (simp_all add: hearing_def)
  obtain r s1 where s1: "run_state (poll_table e timeout) s = (r, s1)" "0 < r" "rx_inv s1 K s1"
    "map pfd (poll_fds s1) = map pfd (poll_fds s)"
    "\<And>k. k < poll_nfds s \<Longrightarrow> revents (poll_fds s1 ! k) = (if k = 1 then POLLIN else 0)"
    "buffer_frame (s\<lparr>poll_fds := poll_fds s1\<rparr>) s1" "callbacks (hist s1) = callbacks (hist s)"
    "faults (hist s1) = faults (hist s)" "\<And>fd. taken fd (hist s1) = taken fd (hist s)"
    by (rule poll_table_one [OF assms(4) rx_inv_refl [OF l(4,5)] l(9,10)]) (rule that)
  note f = buffer_frame_fields [OF s1(6), simplified]
  have sender: "udtcp_get_infos a s1 = udtcp_get_infos a s" for a by (simp add: udtcp_get_infos_def f)
  have cb: "udp_callback s1 = udp_callback s" by (simp add: udp_callback_def [abs_def] sender)
  obtain s2 where s2: "drain e (\<lambda>r. 0 < r) (server_receive_udp e) s1 = Some (-1, s2)"
    "callbacks (hist s2) = callbacks (hist s1) @ map2 (udp_callback s1) ps ms" "rx_inv s1 K s2"
    using drain_datagrams [OF assms(1,2) _ _ assms(7,8) _ s1(3)] assms(5,6,9) l(1-3,6)
    by (auto simp: s1(9) f sender)
  have g: "buffer_frame s1 s2" "faults (hist s2) = faults (hist s1)" "heap_balanced K s2"
    using s2(3) by (simp_all add: rx_inv_def)
  note h = buffer_frame_fields [OF g(1)]
  have pfd1: "pfd (poll_fds s1 ! 1) = fd"
    using s1(4) l(7,9,10) by (metis length_map nth_map order_less_le_trans)
  have loop: "looping e s1" "looping e s2" using l(1,2) by (simp_all add: looping_def f h)
  have slot: "server_scan_slot e 1 s1 = Some (False, s2)"
    using pfd1 l(6,8,9) s1(5) [OF l(9)] POLLIN_set s2(1) by (simp add: server_scan_slot_def f)
  have "server_scan e 0 False s1 = Some (False, s2)"
    by (rule server_scan_one [OF _ loop(1) _ slot loop(2)]) (use l(9) s1(5) in \<open>simp_all add: f h\<close>)
  moreover have "heard_all K ps ms s s2"
    using s1(4,7,8) s2(2) g by (simp add: heard_all_def f h cb)
  ultimately show ?thesis using s1(1,2) by (auto simp: udtcp_server_poll_def)
qed

text \<open>A queue of datagrams of which each carries one of the messages \<open>ds\<close>.\<close>

lemma queue_messages:
  assumes "snd ` set ps \<subseteq> frame ` set ds"
  obtains ms where "length ms = length ps" "set ms \<subseteq> set ds" "ps = map2 (\<lambda>p d. (fst p, frame d)) ps ms"
proof -
  have "\<exists>ms. length ms = length ps \<and> set ms \<subseteq> set ds \<and> ps = map2 (\<lambda>p d. (fst p, frame d)) ps ms"
    using assms
  proof (induction ps)
    case (Cons p ps)
    then obtain ms d where "length ms = length ps" "set ms \<subseteq> set ds" "ps = map2 (\<lambda>p d. (fst p, frame d)) ps ms"
      "snd p = frame d" "d \<in> set ds" by auto
    then show ?case by (intro exI [of _ "d # ms"]) (simp add: prod_eq_iff)
  qed simp
  with that show thesis by blast
qed

end
