(* ===== verification/Udtcp_Server_Invariant.thy ===== *)
theory Udtcp_Server_Invariant
  imports Udtcp_Server_Poll "HOL-Library.Sublist"
begin

text \<open>
  What \<open>udtcp_server_poll\<close> keeps: the shape of the table, the identity of the clients, the
  receive buffer; and when it ends.  The receive loops are instances of the locales of
  \<open>Udtcp_Drain\<close>, interpreted here on the server's own receivers.
\<close>

section \<open>The cases of an entry\<close>

lemma scan_slot_cases:
  assumes "server_scan_slot e i s = Some (b, s')"
  obtains (none) "\<not> b" "s' = s"
    | (log) "\<not> b" "s' = after_log e UDTCP_LOG_LEVEL_ERROR s"
    | (listens) r where "\<not> b" "pfd (poll_fds s ! i) = tcp_socket (infos s ! 0)"
        "drain e (\<lambda>r. r = 0) (accept_client e) s = Some (r, s')"
    | (datagram) r where "\<not> b" "pfd (poll_fds s ! i) = udp_server_socket (infos s ! 0)"
        "drain e (\<lambda>r. 0 < r) (server_receive_udp e) s = Some (r, s')"
    | (message) r t where "pfd (poll_fds s ! i) \<noteq> tcp_socket (infos s ! 0)"
        "pfd (poll_fds s ! i) \<noteq> udp_server_socket (infos s ! 0)"
        "drain e (\<lambda>r. 0 < r) (server_receive_tcp e i) s = Some (r, t)"
        "run_state (server_after_receive e i r) t = (b, s')"
  using assms by (auto simp: server_scan_slot_def split: if_splits option.splits prod.splits)

section \<open>The table during a scan\<close>

text \<open>The counter has room for as many clients as the table can still take.\<close>

definition ids_room :: "server \<Rightarrow> bool" where
  "ids_room s \<longleftrightarrow> ids_inv s \<and> unat (count_id s) + (UDTCP_POLL_TABLE_SIZE - poll_nfds s) < 2 ^ 64"

text \<open>
  The abstract view of the server is a registry: the identifiers of the clients in the order of
  the table, and the next identifier.  Accepting appends the next identifier and advances it,
  disconnecting takes clients out.  \<open>ids_grow\<close> is a sequence of \<open>k\<close> acceptances, \<open>ids_step\<close>
  the step of the registry that a whole call makes.
\<close>

definition new_ids :: "server \<Rightarrow> nat \<Rightarrow> u64 list" where
  "new_ids s k = map (\<lambda>j. count_id s + of_nat j) [0..<k]"

definition ids_grow :: "server \<Rightarrow> server \<Rightarrow> bool" where
  "ids_grow s0 s \<longleftrightarrow> (\<exists>k. poll_nfds s = poll_nfds s0 + k \<and> count_id s = count_id s0 + of_nat k \<and>
     ids s = ids s0 @ new_ids s0 k)"

definition ids_step :: "server \<Rightarrow> server \<Rightarrow> bool" where
  "ids_step s0 s \<longleftrightarrow> (\<exists>k. k \<le> UDTCP_MAX_CONNECTION \<and> count_id s = count_id s0 + of_nat k \<and>
     subseq (ids s) (ids s0 @ new_ids s0 k))"

definition table_ok :: "server \<Rightarrow> server \<Rightarrow> bool" where
  "table_ok s0 s \<longleftrightarrow> scan_inv s \<and> ids_room s \<and> ids_grow s0 s"

text \<open>The same with no client marked for removal.\<close>

definition table_clean :: "server \<Rightarrow> server \<Rightarrow> bool" where
  "table_clean s0 s \<longleftrightarrow> table_ok s0 s \<and> server_inv s"

lemma table_cong:
  assumes "infos s = infos t" "poll_fds s = poll_fds t" "poll_nfds s = poll_nfds t"
    "sends s = sends t" "count_id s = count_id t"
  shows "table_ok s0 s = table_ok s0 t" "table_clean s0 s = table_clean s0 t"
  using scan_inv_cong [OF assms(1-4)] assms
  by (simp_all add: table_ok_def table_clean_def ids_room_def ids_inv_def ids_grow_def)

section \<open>Receivers leave the table alone\<close>

lemma server_receive_frame:
  "keeps (buffer_frame s0) (server_receive_tcp e i)" "keeps (buffer_frame s0) (server_receive_udp e)"
  unfolding server_receive_tcp_def server_receive_udp_def by (rule receive_frame)+

lemma buffer_frame_table:
  assumes "buffer_frame t s"
  shows "table_ok s0 s = table_ok s0 t" "table_clean s0 s = table_clean s0 t"
proof -
  note f = buffer_frame_fields [OF assms]
  note m = server_more [OF f(6)]
  show "table_ok s0 s = table_ok s0 t" "table_clean s0 s = table_clean s0 t"
    by (rule table_cong [OF f(1-3) m(1,3)])+
qed

lemma frame_wp:
  assumes "\<And>s0. keeps (buffer_frame s0) m" "P t" "\<And>s. buffer_frame t s \<Longrightarrow> P s = P t"
  shows "wp m (\<lambda>_. P) t"
  by (rule wp_mono [OF keepsD [OF assms(1) buffer_frame_refl]]) (simp add: assms(2,3))

interpretation tcp_loop: drained "server_receive_tcp e i" "table_ok s0" for e i s0
  by unfold_locales (rule frame_wp [OF server_receive_frame(1)], auto simp: buffer_frame_table)

interpretation udp_loop: drained "server_receive_udp e" "table_ok s0" for e s0
  by unfold_locales (rule frame_wp [OF server_receive_frame(2)], auto simp: buffer_frame_table)

interpretation tcp_loop_clean: drained "server_receive_tcp e i" "table_clean s0" for e i s0
  by unfold_locales (rule frame_wp [OF server_receive_frame(1)], auto simp: buffer_frame_table)

interpretation udp_loop_clean: drained "server_receive_udp e" "table_clean s0" for e s0
  by unfold_locales (rule frame_wp [OF server_receive_frame(2)], auto simp: buffer_frame_table)

section \<open>Accepting\<close>

lemma clients_take:
  "clients s = drop 2 (zip (take (poll_nfds s) (poll_fds s)) (take (poll_nfds s) (infos s)))"
  by (simp add: clients_def take_zip)

lemma take_eqI:
  assumes "length xs = length ys" "\<And>i. i < n \<Longrightarrow> xs ! i = ys ! i"
  shows "take n xs = take n ys"
  using assms by (intro nth_equalityI) auto

text \<open>A left-over slot is no client.\<close>

lemma slot_frame_table:
  assumes "slot_frame (poll_nfds t) t s"
  shows "table_ok s0 s = table_ok s0 t" "server_inv s = server_inv t" "poll_nfds s = poll_nfds t"
    "ids s = ids t" "count_id s = count_id t"
proof -
  note f = slot_frame_fields [OF assms]
  show n: "poll_nfds s = poll_nfds t" and c: "count_id s = count_id t" by (rule f)+
  have "take (poll_nfds t) (infos s) = take (poll_nfds t) (infos t)"
    by (rule take_eqI) (simp_all add: f)
  then have "clients s = clients t" by (simp add: clients_take f)
  then show i: "ids s = ids t" by (simp add: ids_def)
  have wf: "server_wf s = server_wf t" by (simp add: server_wf_def f)
  have sl: "slot_live s i = slot_live t i" if "i < poll_nfds t" for i
    using that by (simp add: slot_live_def f)
  from wf sl show "server_inv s = server_inv t" by (simp add: server_inv_def f(2) cong: conj_cong imp_cong)
  moreover from wf sl have "scan_inv s = scan_inv t" by (simp add: scan_inv_def f(1,2))
  ultimately show "table_ok s0 s = table_ok s0 t"
    by (simp add: table_ok_def ids_room_def ids_inv_def ids_grow_def i n c)
qed

text \<open>A registered client comes last, with the next identifier.\<close>

lemma accepted_clients:
  assumes "accepted t s" "server_wf t" "poll_nfds t < UDTCP_POLL_TABLE_SIZE"
  shows "clients s = clients t @ [(poll_fds s ! poll_nfds t, infos s ! poll_nfds t)]"
    "ids s = ids t @ [count_id t]"
proof -
  let ?n = "poll_nfds t"
  have n: "poll_nfds s = Suc ?n" and len: "length (infos s) = length (infos t)"
    "?n < length (infos t)" "?n < length (poll_fds t)" "2 \<le> ?n"
    and old: "\<And>i. i \<noteq> ?n \<Longrightarrow> infos s ! i = infos t ! i"
    and fds: "poll_fds s = (poll_fds t)[?n := poll_fds s ! ?n]"
    using assms by (auto simp: accepted_def Let_def server_wf_def)
  have "take (Suc ?n) (infos s) = take ?n (infos s) @ [infos s ! ?n]"
    using len by (intro take_Suc_conv_app_nth) simp
  moreover have "take ?n (infos s) = take ?n (infos t)"
    by (rule take_eqI) (simp_all add: len(1) old)
  moreover have "length (poll_fds s) = length (poll_fds t)" by (subst fds) simp
  then have "take (Suc ?n) (poll_fds s) = take ?n (poll_fds s) @ [poll_fds s ! ?n]"
    using len by (intro take_Suc_conv_app_nth) simp
  moreover have "take ?n (poll_fds s) = take ?n (poll_fds t)" by (subst fds) simp
  ultimately show c: "clients s = clients t @ [(poll_fds s ! ?n, infos s ! ?n)]"
    using len by (simp add: clients_take n)
  from assms(1) have "info_id (infos s ! ?n) = count_id t"
    by (simp add: accepted_def Let_def)
  with c show "ids s = ids t @ [count_id t]" by (simp add: ids_def)
qed

lemma accepted_wf:
  assumes "accepted t s" "server_wf t" "poll_nfds t < UDTCP_POLL_TABLE_SIZE"
  shows "server_wf s" "i < poll_nfds t \<Longrightarrow> slot_live s i = slot_live t i"
    "i < poll_nfds t \<Longrightarrow> poll_fds s ! i = poll_fds t ! i" "slot_live s (poll_nfds t)"
  using assms by (auto simp: accepted_def Let_def server_wf_def slot_live_def)

lemma accepted_table:
  assumes acc: "accepted t s" and full: "poll_nfds t < UDTCP_POLL_TABLE_SIZE" and ok: "table_ok s0 t"
  shows "table_ok s0 s" "server_inv t \<Longrightarrow> server_inv s"
proof -
  have wf: "server_wf t" using ok by (simp add: table_ok_def scan_inv_def)
  note ids = accepted_clients(2) [OF acc wf full]
  note a = accepted_wf [OF acc wf full]
  have n: "poll_nfds s = Suc (poll_nfds t)" and c: "count_id s = count_id t + 1"
    using acc by (simp_all add: accepted_def Let_def)
  from ok have room: "unat (count_id t) + (UDTCP_POLL_TABLE_SIZE - poll_nfds t) < 2 ^ 64"
    by (simp only: table_ok_def ids_room_def)
  with full have lt: "unat (count_id t) + 1 < 2 ^ 64" by linarith
  then have uc: "unat (count_id s) = Suc (unat (count_id t))"
    by (simp add: c unat_word_ariths)
  then have up: "count_id t < count_id s" by (simp add: word_less_nat_alt)
  show "server_inv t \<Longrightarrow> server_inv s"
    using a by (auto simp: server_inv_def n less_Suc_eq)
  have "scan_inv s"
    using a ok by (auto simp: table_ok_def scan_inv_def n less_Suc_eq)
  moreover have "ids_inv s"
    using ok up by (auto simp: table_ok_def ids_room_def ids_inv_def ids)
  moreover from ok obtain k where k: "poll_nfds t = poll_nfds s0 + k" "count_id t = count_id s0 + of_nat k"
    "ids t = ids s0 @ new_ids s0 k" by (auto simp: table_ok_def ids_grow_def)
  have "ids_grow s0 s"
    unfolding ids_grow_def
    by (rule exI [of _ "Suc k"]) (simp add: k n c ids new_ids_def)
  moreover have "unat (count_id s) + (UDTCP_POLL_TABLE_SIZE - poll_nfds s) < 2 ^ 64"
    using room full unfolding uc n by linarith
  ultimately show "table_ok s0 s" by (simp add: table_ok_def ids_room_def)
qed

lemma accept_outcome_table:
  assumes "accept_outcome t r s" "table_ok s0 t"
  shows "table_ok s0 s" "server_inv t \<Longrightarrow> server_inv s"
    "r = 0 \<Longrightarrow> UDTCP_POLL_TABLE_SIZE - poll_nfds s < UDTCP_POLL_TABLE_SIZE - poll_nfds t"
  using assms accepted_table [of t s s0] slot_frame_table [of t s]
  by (auto simp: accept_outcome_def) (auto simp: accepted_def Let_def)

lemma accept_client_run:
  assumes "table_ok s0 t"
  shows "wp (accept_client e) (accept_outcome t) t"
  using assms by (intro accept_client_outcome) (auto simp: table_ok_def scan_inv_def server_wf_def)

interpretation accept_loop: drained_finite "accept_client e" "table_ok s0" "\<lambda>r. r = 0"
    "\<lambda>s. UDTCP_POLL_TABLE_SIZE - poll_nfds s" for e s0
  by unfold_locales
    (blast intro: wp_mono [OF accept_client_run] accept_outcome_table dest: wp_runI [OF accept_client_run])+

interpretation accept_loop_clean: drained "accept_client e" "table_clean s0" for e s0
proof unfold_locales
  show "wp (accept_client e) (\<lambda>_. table_clean s0) t" if "table_clean s0 t" for t
    using that unfolding table_clean_def
    by (intro wp_mono [OF accept_client_run]) (auto dest: accept_outcome_table)
qed

text \<open>The table only grows while clients are accepted.\<close>

interpretation accept_grows: drained "accept_client e" "\<lambda>s. table_ok s0 s \<and> poll_nfds s1 \<le> poll_nfds s"
  for e s0 s1
proof unfold_locales
  fix t assume t: "table_ok s0 t \<and> poll_nfds s1 \<le> poll_nfds t"
  have "poll_nfds t \<le> poll_nfds s" if "accept_outcome t r s" for r s
    using that slot_frame_table(3) [of t s] by (auto simp: accept_outcome_def accepted_def Let_def)
  with t show "wp (accept_client e) (\<lambda>_ s. table_ok s0 s \<and> poll_nfds s1 \<le> poll_nfds s) t"
    by (intro wp_mono [OF accept_client_run]) (auto dest: accept_outcome_table(1) intro: le_trans)
qed

section \<open>The scan\<close>

lemma disconnect_frame: "keeps (buffer_frame s0) (server_disconnect e i)"
  unfolding server_disconnect_def sys_int_def by (intro inv_intros)

lemma mark_table:
  assumes "table_ok s0 s"
  shows "table_ok s0 (s\<lparr>poll_fds := (poll_fds s)[i := (poll_fds s ! i)\<lparr>pfd := -1\<rparr>]\<rparr>)"
proof -
  let ?t = "s\<lparr>poll_fds := (poll_fds s)[i := (poll_fds s ! i)\<lparr>pfd := -1\<rparr>]\<rparr>"
  have wf: "server_wf s" using assms by (simp add: table_ok_def scan_inv_def)
  then have "server_wf ?t" by (simp add: server_wf_def)
  moreover from wf have "map snd (clients ?t) = map snd (clients s)"
    by (simp add: clients_def server_wf_def map_snd_zip_take flip: take_map drop_map)
  then have "map info_id (map snd (clients ?t)) = map info_id (map snd (clients s))" by simp
  then have "ids ?t = ids s" by (simp add: ids_def comp_def)
  moreover have "slot_live ?t k \<or> pfd (poll_fds ?t ! k) = -1"
    if "slot_live s k \<or> pfd (poll_fds s ! k) = -1" for k
    using that by (cases "k = i"; cases "k < length (poll_fds s)")
      (auto simp: slot_live_def nth_list_update list_update_beyond)
  ultimately show ?thesis
    using assms
    by (auto simp: table_ok_def scan_inv_def ids_room_def ids_inv_def ids_grow_def)
qed

lemma after_receive_table:
  assumes "table_ok s0 s"
  shows "wp (server_after_receive e i r)
    (\<lambda>b s'. table_ok s0 s' \<and> (\<not> b \<longrightarrow> server_inv s \<longrightarrow> server_inv s')) s"
proof -
  have drop: "wp (server_drop e i) (\<lambda>b s'. table_ok s0 s' \<and> b) s"
    unfolding server_drop_def
    by (rule wp_bindI [OF keepsD [OF disconnect_frame buffer_frame_refl]])
      (simp add: wp_simps mark_table buffer_frame_table assms)
  show ?thesis
    using assms
    by (auto simp: server_after_receive_def wp_simps intro: wp_mono [OF drop])
qed

lemma log_table [simp]:
  "table_ok s0 (after_log e l s) = table_ok s0 s" "server_inv (after_log e l s) = server_inv s"
proof -
  have "count_id (after_log e l s) = count_id s" "sends (after_log e l s) = sends s"
    by (simp_all add: after_log_def)
  then show "table_ok s0 (after_log e l s) = table_ok s0 s"
    "server_inv (after_log e l s) = server_inv s"
    by (intro table_cong scan_inv_cong; simp)+
qed

lemma scan_slot_table:
  assumes ok: "table_ok s0 s" and run: "server_scan_slot e i s = Some (b, s')"
  shows "table_ok s0 s' \<and> (\<not> b \<longrightarrow> server_inv s \<longrightarrow> server_inv s')"
proof -
  have clean: "table_clean s0 s" if "server_inv s" using ok that by (simp add: table_clean_def)
  have acc: "table_ok s0 t \<and> (server_inv s \<longrightarrow> server_inv t)"
    if "drain e (\<lambda>r. r = 0) (accept_client e) s = Some (r, t)" for r t
    using accept_loop.drain_inv [OF ok that] accept_loop_clean.drain_inv [OF clean that]
    by (auto simp: table_clean_def)
  have udp: "table_ok s0 t \<and> (server_inv s \<longrightarrow> server_inv t)"
    if "drain e (\<lambda>r. 0 < r) (server_receive_udp e) s = Some (r, t)" for r t
    using udp_loop.drain_inv [OF ok that] udp_loop_clean.drain_inv [OF clean that]
    by (auto simp: table_clean_def)
  have tcp: "table_ok s0 t \<and> (server_inv s \<longrightarrow> server_inv t)"
    if "drain e (\<lambda>r. 0 < r) (server_receive_tcp e i) s = Some (r, t)" for r t
    using tcp_loop.drain_inv [OF ok that] tcp_loop_clean.drain_inv [OF clean that]
    by (auto simp: table_clean_def)
  show ?thesis
    using run
  proof (cases rule: scan_slot_cases)
    case (message r t)
    note t = tcp [OF message(3)]
    from wp_runI [OF after_receive_table [OF conjunct1 [OF t]] message(4)] t show ?thesis by blast
  qed (use ok acc udp in auto)
qed

section \<open>The shape of the table alone\<close>

text \<open>This needs neither identifiers nor room in the counter.\<close>

lemma buffer_frame_wf:
  assumes "buffer_frame t (s :: server)"
  shows "server_wf s = server_wf t"
proof -
  note f = buffer_frame_fields [OF assms]
  show ?thesis by (rule scan_inv_cong(3) [OF f(1-3) server_more(1) [OF f(6)]])
qed

lemma accept_outcome_wf:
  assumes "accept_outcome t r s" "server_wf t"
  shows "server_wf s" "r = 0 \<Longrightarrow> UDTCP_POLL_TABLE_SIZE - poll_nfds s < UDTCP_POLL_TABLE_SIZE - poll_nfds t"
  using assms accepted_wf(1) [of t s]
  by (auto simp: accept_outcome_def server_wf_def dest: slot_frame_fields) (auto simp: accepted_def Let_def)

lemma accept_client_wf_run:
  assumes "server_wf t"
  shows "wp (accept_client e) (accept_outcome t) t"
  using assms by (intro accept_client_outcome) (auto simp: server_wf_def)

interpretation tcp_wf: drained "server_receive_tcp e i" server_wf for e i
  by unfold_locales (rule frame_wp [OF server_receive_frame(1)], auto simp: buffer_frame_wf)

interpretation udp_wf: drained "server_receive_udp e" server_wf for e
  by unfold_locales (rule frame_wp [OF server_receive_frame(2)], auto simp: buffer_frame_wf)

interpretation accept_wf: drained_finite "accept_client e" server_wf "\<lambda>r. r = 0"
    "\<lambda>s. UDTCP_POLL_TABLE_SIZE - poll_nfds s" for e
  by unfold_locales
    (blast intro: wp_mono [OF accept_client_wf_run] accept_outcome_wf dest: wp_runI [OF accept_client_wf_run])+

lemma after_receive_wf: "keeps server_wf (server_after_receive e i r)"
proof -
  have d: "keeps server_wf (server_disconnect e i)" for i
    unfolding keeps_def
    by (blast intro: frame_wp disconnect_frame dest: buffer_frame_wf)
  show ?thesis
    unfolding server_after_receive_def server_drop_def
    by (intro inv_intros d keeps_modify) (simp_all add: server_wf_def)
qed

lemma log_wf [simp]: "server_wf (after_log e l s) = server_wf s"
proof -
  have "sends (after_log e l s) = sends s" by (simp add: after_log_def)
  then show ?thesis by (intro scan_inv_cong) simp_all
qed

lemma scan_slot_wf:
  assumes "server_wf s" "server_scan_slot e i s = Some (b, s')"
  shows "server_wf s'"
  using assms(2)
  by (cases rule: scan_slot_cases)
    (simp_all add: assms(1) accept_wf.drain_inv [OF assms(1)] udp_wf.drain_inv [OF assms(1)]
      keeps_run [OF after_receive_wf tcp_wf.drain_inv [OF assms(1)]])

text \<open>What every step of the scan keeps, the scan keeps.\<close>

lemma server_scan_rule:
  assumes "server_scan e i organise s = Some y" "P i organise s"
    and "\<And>i organise s b s'. P i organise s \<Longrightarrow> i < poll_nfds s \<Longrightarrow>
      server_scan_slot e i s = Some (b, s') \<Longrightarrow> P (Suc i) (organise \<or> b) s'"
  shows "\<exists>k. P k (fst y) (snd y)"
  using assms
proof (induction rule: server_scan.raw_induct [rotated, consumes 1, case_names step])
  case (step scan e i organise s y)
  show ?case
  proof (cases "looping e s \<and> i < poll_nfds s")
    case False
    with step(2,3) show ?thesis by auto
  next
    case True
    then obtain b t where slot: "server_scan_slot e i s = Some (b, t)"
      and rest: "scan e (Suc i) (organise \<or> b) t = Some y"
      using step(2) by (auto simp: bind_eq_Some_conv)
    have "P (Suc i) (organise \<or> b) t" using step(3,4) True slot by blast
    from step(1) [OF rest this step(4)] show ?thesis .
  qed
qed

text \<open>The contract of a state predicate with the scan: every operation it is made of keeps it.\<close>

locale scan_keeps =
  fixes e :: env and P :: "server \<Rightarrow> bool"
  assumes keeps_tcp: "keeps P (server_receive_tcp e i)"
    and keeps_udp: "keeps P (server_receive_udp e)"
    and keeps_accept: "keeps P (accept_client e)"
    and keeps_after: "keeps P (server_after_receive e i r)"
    and keeps_log: "keeps P (log_error e)"
begin

sublocale tcp: drained "server_receive_tcp e i" P for i
  by unfold_locales (rule keepsD [OF keeps_tcp])

sublocale udp: drained "server_receive_udp e" P
  by unfold_locales (rule keepsD [OF keeps_udp])

sublocale accept: drained "accept_client e" P
  by unfold_locales (rule keepsD [OF keeps_accept])

lemma slot_keeps:
  assumes "P s" "server_scan_slot e i s = Some (b, s')"
  shows "P s'"
  using assms(2)
proof (cases rule: scan_slot_cases)
  case (message r t)
  show ?thesis by (rule keeps_run [OF keeps_after tcp.drain_inv [OF assms(1) message(3)] message(4)])
qed (use assms(1) keepsD [OF keeps_log assms(1)] in
  \<open>auto simp: wp_simps intro: accept.drain_inv [OF assms(1)] udp.drain_inv [OF assms(1)]\<close>)

lemma scan_keeps: "server_scan e i organise s = Some y \<Longrightarrow> P s \<Longrightarrow> P (snd y)"
  using server_scan_rule [where P = "\<lambda>_ _. P"] by (blast intro: slot_keeps)

text \<open>Then a call keeps it when waiting and compaction do.\<close>

lemma poll_keeps:
  assumes "udtcp_server_poll e t s = Some (r, s')" "P s1" "run_state (poll_table e t) s = (p, s1)"
    "\<And>l u. P u \<Longrightarrow> P (after_log e l u)" "\<And>u. P u \<Longrightarrow> P (compact_table 2 u)"
  shows "P s'"
proof (cases "0 < p")
  case False
  then show ?thesis using assms by (auto simp: udtcp_server_poll_def split: if_splits)
next
  case True
  then obtain org s2 where scan: "server_scan e 0 False s1 = Some (org, s2)"
    and "s' = (if org then compact_table 2 s2 else s2)"
    using assms(1,3) by (auto simp: udtcp_server_poll_def split: option.splits prod.splits)
  with scan_keeps [OF scan assms(2)] assms(5) show ?thesis by simp
qed

end

lemma scan_table:
  assumes "server_scan e i organise s = Some y" "table_ok s0 s" "\<not> organise \<longrightarrow> server_inv s"
  shows "table_ok s0 (snd y) \<and> (\<not> fst y \<longrightarrow> server_inv (snd y))"
proof -
  have "\<exists>k :: nat. table_ok s0 (snd y) \<and> (\<not> fst y \<longrightarrow> server_inv (snd y))"
    using assms(2,3) scan_slot_table by (intro server_scan_rule [OF assms(1)]) blast+
  then show ?thesis by simp
qed

lemma scan_wf:
  assumes "server_scan e i organise s = Some y" "server_wf s"
  shows "server_wf (snd y)"
  using server_scan_rule [OF assms(1), where P = "\<lambda>_ _. server_wf"] assms(2) by (blast intro: scan_slot_wf)

section \<open>The whole function\<close>

lemma poll_table_frame:
  assumes "run_state (poll_table e t) s = (r, s')"
  shows "infos s' = infos s" "poll_nfds s' = poll_nfds s" "peer.more s' = peer.more s"
    "length (poll_fds s') = length (poll_fds s)"
    "i < length (poll_fds s) \<Longrightarrow> pfd (poll_fds s' ! i) = pfd (poll_fds s ! i)"
    "faults (hist s') = faults (hist s)" "allocated (hist s') = allocated (hist s)"
    "freed (hist s') = freed (hist s)" "buffer_data s' = buffer_data s"
    "buffer_size s' = buffer_size s"
  using assms by (auto simp: poll_table_def run_syscall split: if_splits)

lemma poll_table_wf:
  assumes "run_state (poll_table e t) s = (r, s')"
  shows "server_wf s' = server_wf s"
proof -
  note f = poll_table_frame [OF assms]
  show ?thesis by (simp add: server_wf_def f(1,2,4) server_more(1) [OF f(3)])
qed

lemma poll_table_ids: "run_state (poll_table e t) s = (r, s') \<Longrightarrow> server_wf s \<Longrightarrow> ids s' = ids s"
  and poll_table_inv: "run_state (poll_table e t) s = (r, s') \<Longrightarrow> server_inv s \<Longrightarrow> server_inv s'"
proof -
  assume run: "run_state (poll_table e t) s = (r, s')"
  note f = poll_table_frame [OF run]
  note wf = poll_table_wf [OF run]
  {
    assume "server_wf s"
    then have "map snd (clients s') = map snd (clients s)"
      by (simp add: clients_def server_wf_def f map_snd_zip_take flip: take_map drop_map)
    then have "map info_id (map snd (clients s')) = map info_id (map snd (clients s))" by simp
    then show "ids s' = ids s" by (simp add: ids_def comp_def)
  }
  assume "server_inv s"
  then show "server_inv s'"
    using wf by (auto simp: server_inv_def slot_live_def f server_wf_def)
qed

lemma poll_table_ok:
  assumes p: "run_state (poll_table e t) s = (p, s1)"
    and "server_inv s" "ids_inv s" "unat (count_id s) + UDTCP_POLL_TABLE_SIZE < 2 ^ 64"
  shows "table_ok s s1"
proof -
  have wf: "server_wf s" using assms(2) by (simp add: server_inv_def)
  have c1: "count_id s1 = count_id s" by (rule server_more [OF poll_table_frame(3) [OF p]])
  note i1 = poll_table_ids [OF p wf] and v1 = poll_table_inv [OF p assms(2)]
  have "unat (count_id s1) + (UDTCP_POLL_TABLE_SIZE - poll_nfds s1) < 2 ^ 64"
    using assms(4) unfolding c1 by linarith
  then show ?thesis
    using assms(3) server_inv_scan [OF v1]
    by (simp only: table_ok_def ids_room_def ids_inv_def ids_grow_def new_ids_def i1 c1)
      (simp add: poll_table_frame(2) [OF p] exI [of _ 0])
qed

lemma distinct_map_filter_sub: "distinct (map f xs) \<Longrightarrow> distinct (map f (filter P xs))"
  by (induction xs) auto

lemma server_invI:
  assumes "server_wf s" "\<And>c. c \<in> set (clients s) \<Longrightarrow>
      pfd (fst c) = tcp_socket (snd c) \<and> 0 \<le> tcp_socket (snd c)"
  shows "server_inv s"
proof -
  have "slot_live s i" if "2 \<le> i" "i < poll_nfds s" for i
  proof -
    have j: "i - 2 < poll_nfds s - 2" using that by simp
    then have "clients s ! (i - 2) \<in> set (clients s)"
      by (simp add: length_clients [OF assms(1)])
    moreover have "i - 2 + 2 = i" using that(1) by simp
    ultimately show ?thesis
      using assms(2) [of "clients s ! (i - 2)"] clients_nth [OF assms(1) j]
      by (simp only: slot_live_def fst_conv snd_conv)
  qed
  with assms(1) show ?thesis by (simp add: server_inv_def)
qed

lemma clients_scan_inv:
  assumes "scan_inv s" "c \<in> set (clients s)" "live c"
  shows "pfd (fst c) = tcp_socket (snd c) \<and> 0 \<le> tcp_socket (snd c)"
proof -
  have wf: "server_wf s" using assms(1) by (simp add: scan_inv_def)
  from assms(2) obtain j where j: "j < length (clients s)" "c = clients s ! j"
    by (auto simp: in_set_conv_nth)
  then have "j < poll_nfds s - 2" by (simp add: length_clients [OF wf])
  from clients_nth [OF wf this] j(2) have c: "c = (poll_fds s ! (j + 2), infos s ! (j + 2))" by simp
  have "2 \<le> j + 2" "j + 2 < poll_nfds s" using \<open>j < poll_nfds s - 2\<close> by simp_all
  with assms(1) have "slot_live s (j + 2) \<or> pfd (poll_fds s ! (j + 2)) = -1"
    unfolding scan_inv_def by blast
  with c assms(3) show ?thesis by (simp add: live_def slot_live_def)
qed

lemma table_ok_step:
  assumes "table_ok s0 s" "server_wf s0"
  shows "ids_step s0 s"
proof -
  from assms(1) obtain k where k: "poll_nfds s = poll_nfds s0 + k" "count_id s = count_id s0 + of_nat k"
    "ids s = ids s0 @ new_ids s0 k" by (auto simp: table_ok_def ids_grow_def)
  have "k \<le> UDTCP_MAX_CONNECTION"
    using assms k(1) by (simp add: table_ok_def scan_inv_def server_wf_def UDTCP_POLL_TABLE_SIZE_def)
  with k(2,3) show ?thesis by (auto simp: ids_step_def)
qed

text \<open>Compaction turns the invariant of the scan into that of the server.\<close>

lemma compact_table_ok:
  assumes "table_ok s0 s"
  shows "server_inv (compact_table 2 s)" "ids_inv (compact_table 2 s)"
    "server_wf s0 \<Longrightarrow> ids_step s0 (compact_table 2 s)"
proof -
  let ?t = "compact_table 2 s"
  have inv: "scan_inv s" and wf: "server_wf s" using assms by (simp_all add: table_ok_def scan_inv_def)
  from compact_table_clients [OF wf, of 2]
  have c: "server_wf ?t" "clients ?t = filter live (clients s)" and f: "table_frame s ?t" by simp_all
  from f have "?t\<lparr>poll_fds := poll_fds s, poll_nfds := poll_nfds s, infos := infos s,
     hist := hist s\<rparr> = s" by (simp add: table_frame_def)
  from arg_cong [OF this, of count_id] have cnt: "count_id ?t = count_id s" by simp
  show "server_inv ?t"
    using clients_scan_inv [OF inv] by (intro server_invI [OF c(1)]) (auto simp: c(2))
  have sub: "set (ids ?t) \<subseteq> set (ids s)" by (auto simp: ids_def c(2))
  have "distinct (ids ?t)"
    using assms by (simp add: ids_def c(2) distinct_map_filter_sub table_ok_def ids_room_def ids_inv_def)
  with sub assms show "ids_inv ?t"
    by (auto simp: ids_inv_def cnt table_ok_def ids_room_def)
  have "subseq (ids ?t) (ids s)"
    by (simp add: ids_def c(2) subseq_map)
  then show "ids_step s0 ?t" if "server_wf s0"
    using table_ok_step [OF assms that] by (auto simp: ids_step_def cnt intro: subseq_order.trans)
qed

lemma server_poll_inv:
  assumes inv: "server_inv s" "ids_inv s" "unat (count_id s) + UDTCP_POLL_TABLE_SIZE < 2 ^ 64"
    and run: "udtcp_server_poll e t s = Some (r, s')"
  shows "server_inv s' \<and> ids_inv s' \<and> ids_step s s'"
proof -
  obtain p s1 where p: "run_state (poll_table e t) s = (p, s1)" by fastforce
  note v1 = poll_table_inv [OF p inv(1)] and ok1 = poll_table_ok [OF p inv]
  have wf: "server_wf s" using inv(1) by (simp add: server_inv_def)
  have plain: "server_inv u \<and> ids_inv u \<and> ids_step s u" if "table_ok s u" "server_inv u" for u
    using that table_ok_step [OF that(1) wf] by (simp add: table_ok_def ids_room_def)
  show ?thesis
  proof (cases "0 < p")
    case False
    have "s' = s1 \<or> s' = after_log e UDTCP_LOG_LEVEL_ERROR s1 \<or> s' = after_log e UDTCP_LOG_LEVEL_INFO s1"
      using run False by (auto simp: udtcp_server_poll_def p split: if_splits)
    then have "table_ok s s'" "server_inv s'" using ok1 v1 by auto
    then show ?thesis by (rule plain)
  next
    case True
    then obtain org s2 where scan: "server_scan e 0 False s1 = Some (org, s2)"
      and s': "s' = (if org then compact_table 2 s2 else s2)"
      using run by (auto simp: udtcp_server_poll_def p split: option.splits prod.splits)
    from scan_table [OF scan ok1] v1 have "table_ok s s2" "\<not> org \<longrightarrow> server_inv s2" by simp_all
    then show ?thesis
      using plain compact_table_ok wf s' by (cases org) auto
  qed
qed

end
