(* ===== verification/Udtcp_Receive_Safety.thy ===== *)
theory Udtcp_Receive_Safety
  imports Udtcp_Receive
begin

text \<open>
  What server and client need to know of their receivers besides the buffer: that they keep the
  memory invariant \<open>mem_ok\<close>, that every message costs a read (so the loops around them end when
  the kernel runs dry), and that they neither open nor close descriptors nor call any callback
  but those for messages (\<open>received\<close>).
\<close>

section \<open>Memory\<close>

definition mem_ok :: "event list \<Rightarrow> int multiset \<Rightarrow> 'a peer_scheme \<Rightarrow> bool" where
  "mem_ok F K s \<longleftrightarrow> buffer_ok s \<and> heap_balanced K s \<and> faults (hist s) = F"

lemma mem_ok_rx: "mem_ok F K s \<longleftrightarrow> rx_inv s K s \<and> faults (hist s) = F"
  by (auto simp: mem_ok_def rx_inv_def)

lemma rx_mem_ok: "rx_inv s K s' \<Longrightarrow> mem_ok F K s \<Longrightarrow> mem_ok F K s'"
  by (simp add: mem_ok_def rx_inv_def)

lemma mem_ok_event:
  "silent ev \<Longrightarrow> mem_ok F K s \<Longrightarrow> mem_ok F K (s\<lparr>hist := hist s @ [ev], errno := x\<rparr>)"
  "silent ev \<Longrightarrow> mem_ok F K s \<Longrightarrow> mem_ok F K (s\<lparr>hist := hist s @ [ev]\<rparr>)"
  by (simp_all add: mem_ok_def silent_def heap_balanced_def)

lemma mem_ok_fields [simp]:
  "mem_ok F K (s\<lparr>infos := x\<rparr>) = mem_ok F K s" "mem_ok F K (s\<lparr>poll_fds := y\<rparr>) = mem_ok F K s"
  "mem_ok F K (s\<lparr>poll_nfds := n\<rparr>) = mem_ok F K s" "mem_ok F K (s\<lparr>errno := z\<rparr>) = mem_ok F K s"
  by (cases "buffer_data s"; simp add: mem_ok_def buffer_ok_def heap_balanced_def buffer_block_def)+

lemma silent_calls [simp]:
  "silent (Ev (C_accept fd) r)" "silent (Ev (C_getfl fd) r)" "silent (Ev (C_setfl fd w) r)"
  "silent (Ev (C_gethostbyaddr a) r)"
  by (simp_all add: silent_def)

lemma keeps_mem_ok [inv_intros]:
  "(\<And>r. silent (Ev c r)) \<Longrightarrow> keeps (mem_ok F K) (syscall e c)"
  "keeps (mem_ok F K) (udtcp_log e l)"
  "keeps (mem_ok F K) (call_back f cb i d)"
  "keeps (mem_ok F K) (set_infos i g)"
  by (auto simp: keeps_def wp_simps after_log_def after_cb_def intro: wp_syscallI mem_ok_event)

lemma receive_mem_ok:
  "keeps (mem_ok F K) (receive_tcp q res e i :: ('a peer_scheme, int) state)"
  "udp_sizes_fit e \<Longrightarrow> keeps (mem_ok F K) (receive_udp cl sender res e :: ('a peer_scheme, int) state)"
proof -
  have lift: "wp m (\<lambda>_. mem_ok F K) s" if "rx_inv s K s \<Longrightarrow> wp m (\<lambda>_. rx_inv s K) s" "mem_ok F K s"
    for m :: "('a peer_scheme, int) state" and s
  proof -
    have "rx_inv s K s" using that(2) by (simp add: mem_ok_rx)
    then show ?thesis by (rule wp_mono [OF that(1)]) (rule rx_mem_ok [OF _ that(2)])
  qed
  show "keeps (mem_ok F K) (receive_tcp q res e i :: ('a peer_scheme, int) state)"
    unfolding keeps_def by (blast intro: lift receive_tcp_inv)
  show "keeps (mem_ok F K) (receive_udp cl sender res e :: ('a peer_scheme, int) state)" if "udp_sizes_fit e"
    unfolding keeps_def by (blast intro: lift receive_udp_inv [OF _ that])
qed

section \<open>Progress\<close>

text \<open>The receive loops ask again as long as messages arrive, so a peer that never pauses keeps
  the function in its loop.  It ends when the kernel runs dry: after \<open>N\<close> reads in all, every
  further \<open>recv\<close> or \<open>recvfrom\<close> fails (with \<open>EWOULDBLOCK\<close>, the sockets being non-blocking).\<close>

fun is_read :: "event \<Rightarrow> bool" where
  "is_read (Ev (C_recv _ _) _) = True"
| "is_read (Ev (C_recvfrom _ _ _) _) = True"
| "is_read _ = False"

definition reads :: "event list \<Rightarrow> nat" where
  "reads h = length (filter is_read h)"

definition runs_dry :: "env \<Rightarrow> nat \<Rightarrow> bool" where
  "runs_dry e N \<longleftrightarrow> (\<forall>h. N \<le> reads h \<longrightarrow>
     (\<forall>fd n. rv (os e h (C_recv fd n)) < 0) \<and> (\<forall>fd n p. rv (os e h (C_recvfrom fd n p)) < 0))"

definition has_read :: "nat \<Rightarrow> 'a peer_scheme \<Rightarrow> bool" where
  "has_read k s \<longleftrightarrow> k \<le> reads (hist s)"

lemma keeps_has_read [inv_intros]:
  "keeps (has_read k) (syscall e c)" "keeps (has_read k) (emit ev)"
  "keeps (has_read k) (udtcp_log e l)" "keeps (has_read k) (call_back f cb i d)"
  by (auto simp: keeps_def wp_simps has_read_def reads_def after_log_def after_cb_def
      intro: wp_syscallI)

lemma buffer_ops_has_read [inv_intros]:
  "keeps (has_read k) (store_buffer off d)" "keeps (has_read k) (ensure_buffer e need)"
  "keeps (has_read k) (recv_into e fd off n)" "keeps (has_read k) (recvfrom_into e fd n)"
  unfolding store_buffer_def ensure_buffer_def udtcp_new_buffer_def udtcp_free_buffer_def sys_do_def
    recv_into_def recvfrom_into_def sys_recv_def sys_recvfrom_def
  by (intro inv_intros keeps_modify, simp_all add: has_read_def)+

lemma rest_has_read [inv_intros]:
  "keeps (has_read k) (State (recv_rest q e fd dsize got))"
  by (rule rest_keeps) (rule inv_intros)+

lemma receive_has_read [inv_intros]:
  "keeps (has_read k) (receive_payload q res e i fd n)"
  "keeps (has_read k) (receive_datagram close_log sender res e fd n)"
  unfolding receive_payload_def receive_datagram_def by (intro inv_intros)+

text \<open>A message costs a read, and reads are still possible when it arrives.\<close>

lemma receive_progress:
  assumes "runs_dry e N"
  shows "wp (receive_tcp q res e i) (\<lambda>r s'. 0 < r \<longrightarrow> reads (hist s) < N \<and> has_read (Suc (reads (hist s))) s') s"
    "wp (receive_udp cl sender res e) (\<lambda>r s'. 0 < r \<longrightarrow> reads (hist s) < N \<and> has_read (Suc (reads (hist s))) s') s"
proof -
  have dry: "recv_result n (os e h (C_recv fd n)) = (-1, [])"
    "recv_result n (os e h (C_recvfrom fd n p)) = (-1, [])" if "N \<le> reads h" for h fd n p
    using assms that by (simp_all add: runs_dry_def recv_result_def)
  have lift: "wp m (\<lambda>r s'. 0 < r \<longrightarrow> has_read k s') u" if "keeps (has_read k) m" "has_read k u"
    for m :: "('a peer_scheme, int) state" and k u
    using keepsD [OF that] by (rule wp_mono) simp
  have one: "has_read (Suc (reads (hist s))) (s\<lparr>hist := hist s @ [Ev (C_recv fd n) r], errno := x\<rparr>)"
    "has_read (Suc (reads (hist s))) (s\<lparr>hist := hist s @ [Ev (C_recvfrom fd n p) r], errno := x\<rparr>)"
    "has_read (Suc (reads (hist s))) (s\<lparr>hist := hist s @ [Ev (C_recv fd n) r]\<rparr>)"
    "has_read (Suc (reads (hist s))) (s\<lparr>hist := hist s @ [Ev (C_recvfrom fd n p) r]\<rparr>)" for fd n p r x
    by (simp_all add: has_read_def reads_def)
  have c: "c_int (- 1) = -1" by (simp add: c_int_id)
  show "wp (receive_tcp q res e i) (\<lambda>r s'. 0 < r \<longrightarrow> reads (hist s) < N \<and> has_read (Suc (reads (hist s))) s') s"
    by (cases "N \<le> reads (hist s)")
      (auto simp: receive_tcp_def wp_simps wp_calls wp_syscall dry not_le
        intro!: lift receive_has_read one)
  show "wp (receive_udp cl sender res e) (\<lambda>r s'. 0 < r \<longrightarrow> reads (hist s) < N \<and> has_read (Suc (reads (hist s))) s') s"
    by (cases "N \<le> reads (hist s)")
      (auto simp: receive_udp_def wp_simps wp_calls wp_syscall dry c not_le
        intro!: lift receive_has_read one)
qed

section \<open>Descriptors and callbacks\<close>

fun is_receive :: "event \<Rightarrow> bool" where
  "is_receive (Cb c _ _) = (c = ReceiveTcpCb \<or> c = ReceiveUdpCb)"
| "is_receive _ = False"

definition received :: "event list \<Rightarrow> event list \<Rightarrow> bool" where
  "received h h' \<longleftrightarrow> opened h' = opened h \<and> closed h' = closed h \<and>
     (\<exists>cs. callbacks h' = callbacks h @ cs \<and> list_all is_receive cs)"

lemma received_refl [simp]: "received h h"
  by (simp add: received_def)

lemma received_trans: "received h h' \<Longrightarrow> received h' h'' \<Longrightarrow> received h h''"
  by (auto simp: received_def)

lemma received_event:
  "received h h' \<Longrightarrow> event_opened ev = {#} \<Longrightarrow> event_closed ev = {#} \<Longrightarrow>
   is_callback ev \<longrightarrow> is_receive ev \<Longrightarrow> received h (h' @ [ev])"
  by (auto simp: received_def)

lemma keeps_received [inv_intros]:
  "(\<And>r. event_opened (Ev c r) = {#}) \<Longrightarrow> (\<And>r. event_closed (Ev c r) = {#}) \<Longrightarrow>
   keeps (\<lambda>s. received h (hist s)) (syscall e c)"
  "keeps (\<lambda>s. received h (hist s)) (udtcp_log e l)"
  "cb = ReceiveTcpCb \<or> cb = ReceiveUdpCb \<Longrightarrow> keeps (\<lambda>s. received h (hist s)) (call_back f cb i d)"
  "\<not> is_callback ev \<Longrightarrow> event_opened ev = {#} \<Longrightarrow> event_closed ev = {#} \<Longrightarrow>
   keeps (\<lambda>s. received h (hist s)) (emit ev)"
  by (auto simp: keeps_def wp_simps after_log_def after_cb_def intro!: wp_syscallI received_event)

lemma buffer_ops_received [inv_intros]:
  "keeps (\<lambda>s. received h (hist s)) (store_buffer off d)"
  "keeps (\<lambda>s. received h (hist s)) (ensure_buffer e need)"
  "keeps (\<lambda>s. received h (hist s)) (recv_into e fd off n)"
  "keeps (\<lambda>s. received h (hist s)) (recvfrom_into e fd n)"
  unfolding store_buffer_def ensure_buffer_def udtcp_new_buffer_def udtcp_free_buffer_def sys_do_def
    recv_into_def recvfrom_into_def sys_recv_def sys_recvfrom_def
  by (intro inv_intros keeps_modify, simp_all)+

lemma rest_received [inv_intros]:
  "keeps (\<lambda>s. received h (hist s)) (State (recv_rest q e fd dsize got))"
  by (rule rest_keeps; rule inv_intros; simp)

lemma receive_received:
  "keeps (\<lambda>s. received h (hist s)) (receive_tcp q res e i)"
  "keeps (\<lambda>s. received h (hist s)) (receive_udp cl sender res e)"
  unfolding receive_tcp_def receive_payload_def receive_udp_def receive_datagram_def
    sys_recv_def sys_recvfrom_def
  by (intro inv_intros; simp)+

end
