(* ===== verification/Udtcp_Server_Safety.thy ===== *)
theory Udtcp_Server_Safety
  imports Udtcp_Server_Invariant Udtcp_Receive_Safety
begin

text \<open>
  Two statements about a whole call of \<open>udtcp_server_poll\<close>: which undefined behaviours it can
  meet and that it loses no memory, and that it ends when the kernel has only finitely many
  bytes to give.
\<close>

section \<open>What calls and the buffer operations keep\<close>

text \<open>A predicate that no single call, event or buffer operation can spoil is kept by all of the
  server's operations.\<close>

lemma server_ops_keep:
  fixes P :: "server \<Rightarrow> bool"
  assumes events: "\<And>c. keeps P (syscall e c)" "\<And>ev. keeps P (emit ev)" "\<And>l. keeps P (udtcp_log e l)"
      "\<And>f cb i d. keeps P (call_back f cb i d)" "\<And>i g. keeps P (set_infos i g)"
    and buffer: "\<And>off d. keeps P (store_buffer off d)" "\<And>n. keeps P (ensure_buffer e n)"
    and fields: "\<And>s x. P s \<Longrightarrow> P (s\<lparr>poll_fds := x\<rparr>)"
      "\<And>s n c. P s \<Longrightarrow> P (s\<lparr>poll_nfds := n, count_id := c\<rparr>)"
  shows "keeps P (server_receive_tcp e i)" "keeps P (server_receive_udp e)"
    "keeps P (accept_client e)" "keeps P (server_after_receive e i r)"
proof -
  note [inv_intros] = events buffer
  have into: "keeps P (recv_into e fd off n)" "keeps P (recvfrom_into e fd n)" for fd off n
    unfolding recv_into_def recvfrom_into_def sys_recv_def sys_recvfrom_def by (intro inv_intros)+
  have rest: "keeps P (State (recv_rest q e fd dsize got))" for q fd dsize got
    by (rule rest_keeps) (rule inv_intros into)+
  have string: "keeps P (udtcp_set_string_infos e x a)" for x a
    unfolding udtcp_set_string_infos_def copy_string_def by (intro inv_intros)
  have option: "keeps P (udtcp_socket_add_option e fd opt)" for fd opt
    unfolding udtcp_socket_add_option_def sys_int_def by (intro inv_intros)
  show "keeps P (server_receive_tcp e i)" "keeps P (server_receive_udp e)"
    unfolding server_receive_tcp_def server_receive_udp_def receive_tcp_def receive_payload_def
      receive_udp_def receive_datagram_def sys_recv_def sys_recvfrom_def
    by (intro inv_intros into rest)+
  show "keeps P (accept_client e)"
    unfolding accept_client_def refuse_client_def exchange_informations_def register_client_def
      server_initialize_connection_def recv_infos_def sys_accept_def sys_send_def sys_do_def
      sys_poll1_def sys_recv_def
    by (intro inv_intros string option keeps_modify fields)
  show "keeps P (server_after_receive e i r)"
    unfolding server_after_receive_def server_drop_def server_disconnect_def sys_int_def
    by (intro inv_intros keeps_modify fields)
qed

section \<open>Memory\<close>

text \<open>The peers keep to the protocol: a handshake sends no more than the structure; the resolver
  returns names that fit the field.\<close>

definition handshake_fits :: "env \<Rightarrow> bool" where
  "handshake_fits e \<longleftrightarrow> (\<forall>h fd. length (payload (os e h (C_recv fd (sizeof_udtcp_infos + 1)))) \<le> sizeof_udtcp_infos)"

definition names_fit :: "env \<Rightarrow> bool" where
  "names_fit e \<longleftrightarrow> (\<forall>h a. length (c_string (h_name (os e h (C_gethostbyaddr a)))) \<le> 256)"

definition polite :: "env \<Rightarrow> bool" where
  "polite e \<longleftrightarrow> udp_sizes_fit e \<and> handshake_fits e \<and> names_fit e"

lemma mem_ok_count [simp]: "mem_ok F K (s\<lparr>count_id := x\<rparr>) = mem_ok F K (s :: server)"
  by (cases "buffer_data s"; simp add: mem_ok_def buffer_ok_def heap_balanced_def buffer_block_def)

lemma server_receive_mem_ok:
  "keeps (mem_ok F K) (server_receive_tcp e i)"
  "udp_sizes_fit e \<Longrightarrow> keeps (mem_ok F K) (server_receive_udp e)"
  unfolding server_receive_tcp_def server_receive_udp_def by (rule receive_mem_ok, assumption?)+

lemma recv_infos_mem_ok:
  assumes "handshake_fits e"
  shows "keeps (mem_ok F K) (recv_infos e fd i)"
proof -
  have fits: "\<not> sizeof_udtcp_infos < length (snd (recv_result (Suc sizeof_udtcp_infos)
      (os e h (C_recv fd (Suc sizeof_udtcp_infos)))))" for h
  proof -
    have "length (snd (recv_result n r)) \<le> length (payload r)" for n r
      by (simp add: recv_result_def)
    then show ?thesis using assms le_trans unfolding handshake_fits_def not_less by fastforce
  qed
  show ?thesis
    by (auto simp: keeps_def wp_recv_infos Let_def fits mem_ok_event)
qed

lemma copy_string_mem_ok: "length src \<le> n \<Longrightarrow> keeps (mem_ok F K) (copy_string n src f)"
  by (simp add: copy_string_def inv_intros)

lemma set_string_mem_ok [inv_intros]:
  assumes "names_fit e"
  shows "keeps (mem_ok F K) (udtcp_set_string_infos e x a)"
proof -
  have names: "length (c_string (h_name (os e h (C_gethostbyaddr b)))) \<le> 256" for h b
    using assms by (simp add: names_fit_def)
  have ip: "length (inet_ntoa w) \<le> 16" "length (inet_ntoa w) \<le> 256" for w
    using length_inet_ntoa [of w] by simp_all
  have c: "wp (copy_string n src f) Q s" if "length src \<le> n" "Q (overlay 0 src f) s" for n src f Q s
    using that by (simp add: copy_string_def wp_simps)
  show ?thesis
    by (auto simp: keeps_def udtcp_set_string_infos_def wp_simps wp_syscall mem_ok_event
        intro!: c names ip)
qed

lemma add_option_mem_ok [inv_intros]:
  "keeps (mem_ok F K) (udtcp_socket_add_option e fd opt)"
  by (rule keeps_add_option) (auto intro: mem_ok_event)

lemma accept_mem_ok:
  assumes "handshake_fits e" "names_fit e"
  shows "keeps (mem_ok F K) (accept_client e)"
  unfolding accept_client_def refuse_client_def exchange_informations_def register_client_def
    server_initialize_connection_def sys_accept_def sys_send_def sys_do_def sys_poll1_def
  by (intro inv_intros recv_infos_mem_ok assms keeps_modify) simp_all

lemma disconnect_mem_ok [inv_intros]: "keeps (mem_ok F K) (server_disconnect e i)"
  unfolding server_disconnect_def sys_int_def by (intro inv_intros) simp_all

lemma after_receive_mem_ok: "keeps (mem_ok F K) (server_after_receive e i r)"
  unfolding server_after_receive_def server_drop_def
  by (intro inv_intros keeps_modify) simp_all

interpretation scan_mem: scan_keeps e "\<lambda>s. polite e \<and> mem_ok F K s" for e F K
  by unfold_locales
    (auto simp: polite_def keeps_def wp_conj wp_run
      dest: keeps_run [OF server_receive_mem_ok(1)] keeps_run [OF server_receive_mem_ok(2)]
        keeps_run [OF accept_mem_ok] keeps_run [OF after_receive_mem_ok] keeps_run [OF keeps_mem_ok(2)])

lemma compact_table_hist:
  "\<exists>fs. hist (compact_table i s) = hist s @ fs \<and> (\<forall>ev \<in> set fs. is_fault ev) \<and>
     buffer_data (compact_table i s) = buffer_data s \<and> buffer_size (compact_table i s) = buffer_size s \<and>
     sends (compact_table i s) = sends s \<and> sends_base (compact_table i s) = sends_base s"
proof (induction i s rule: compact_table.induct)
  case (1 i s)
  show ?case
  proof (cases "i < poll_nfds s \<and> pfd (poll_fds s ! i) = -1")
    case False
    with "1.IH"(2) show ?thesis by (subst (1 2 3 4 5) compact_table.simps) auto
  next
    case True
    obtain t where run: "run_state (remove_slot i) s = ((), t)" by (simp add: run_remove_slot)
    then have t: "t = snd (run_state (remove_slot i) s)" by simp
    have h: "\<exists>fs. hist t = hist s @ fs \<and> (\<forall>ev \<in> set fs. is_fault ev)"
      "buffer_data t = buffer_data s" "buffer_size t = buffer_size s" "sends t = sends s" "sends_base t = sends_base s"
      by (auto simp: t run_remove_slot)
    have "compact_table i s = compact_table i t"
      using True run by (simp add: compact_table.simps [of i s])
    with "1.IH"(1) True run h show ?thesis by fastforce
  qed
qed

lemma fault_events: "\<forall>ev \<in> set fs. is_fault ev \<Longrightarrow> allocated fs = {#} \<and> freed fs = {#}"
proof (induction fs)
  case (Cons ev fs)
  then show ?case by (cases ev) auto
qed simp

text \<open>A call of the poll function: the memory stays balanced and the only undefined behaviour it
  can add is that of the copies that close the gaps.\<close>

lemma server_poll_safe:
  assumes "polite e" "server_wf s"
    and mem: "buffer_ok s" "heap_balanced K s"
    and run: "udtcp_server_poll e t s = Some (r, s')"
  shows "buffer_ok s' \<and> heap_balanced K s' \<and> (\<exists>fs. faults (hist s') = faults (hist s) @ fs \<and>
    set fs \<subseteq> {Fault MemcpyOverlap, Fault ArrayOverrun})"
proof -
  obtain p s1 where p: "run_state (poll_table e t) s = (p, s1)" by fastforce
  note f = poll_table_frame [OF p]
  have wf1: "server_wf s1" by (simp add: poll_table_wf [OF p] assms(2))
  have m1: "mem_ok (faults (hist s)) K s1"
    using mem by (simp add: mem_ok_def buffer_ok_def heap_balanced_def buffer_block_def f
        cong: option.case_cong)
  have log: "mem_ok F K (after_log e l u)" if "mem_ok F K u" for F l u
    using keepsD [OF keeps_mem_ok(2) that] by (simp add: wp_simps)
  have plain: "mem_ok (faults (hist s)) K u \<Longrightarrow> buffer_ok u \<and> heap_balanced K u \<and>
    (\<exists>fs. faults (hist u) = faults (hist s) @ fs \<and> set fs \<subseteq> {Fault MemcpyOverlap, Fault ArrayOverrun})"
    for u by (simp add: mem_ok_def)
  show ?thesis
  proof (cases "0 < p")
    case False
    have "s' = s1 \<or> s' = after_log e UDTCP_LOG_LEVEL_ERROR s1 \<or> s' = after_log e UDTCP_LOG_LEVEL_INFO s1"
      using run False by (auto simp: udtcp_server_poll_def p split: if_splits)
    with m1 log have "mem_ok (faults (hist s)) K s'" by auto
    then show ?thesis by (rule plain)
  next
    case True
    then obtain org s2 where scan: "server_scan e 0 False s1 = Some (org, s2)"
      and s': "s' = (if org then compact_table 2 s2 else s2)"
      using run by (auto simp: udtcp_server_poll_def p split: option.splits prod.splits)
    have m2: "mem_ok (faults (hist s)) K s2"
      using scan_mem.scan_keeps [OF scan] assms(1) m1 by simp
    have wf2: "server_wf s2" using scan_wf [OF scan wf1] by simp
    obtain fs where h: "hist (compact_table 2 s2) = hist s2 @ fs" "\<forall>ev \<in> set fs. is_fault ev"
      "buffer_data (compact_table 2 s2) = buffer_data s2" "buffer_size (compact_table 2 s2) = buffer_size s2"
      using compact_table_hist [of 2 s2] by blast
    have "mem_ok (faults (hist (compact_table 2 s2))) K (compact_table 2 s2)"
      using m2 h fault_events [OF h(2)]
      by (simp add: mem_ok_def buffer_ok_def heap_balanced_def buffer_block_def
          cong: option.case_cong)
    moreover obtain gs where "faults (hist (compact_table 2 s2)) = faults (hist s2) @ gs"
      "set gs \<subseteq> {Fault MemcpyOverlap, Fault ArrayOverrun}"
      using compact_table_faults [OF wf2, of 2] by (auto split: if_splits)
    ultimately show ?thesis
      using plain m2 s' by (auto simp: mem_ok_def)
  qed
qed

lemma server_poll_wf:
  assumes "server_wf s" "udtcp_server_poll e t s = Some (r, s')"
  shows "server_wf s'"
proof -
  obtain p s1 where p: "run_state (poll_table e t) s = (p, s1)" by fastforce
  have wf1: "server_wf s1" by (simp add: poll_table_wf [OF p] assms(1))
  have "server_wf (compact_table 2 s2)" if "server_wf s2" for s2
    using compact_table_clients [OF that, of 2] by simp
  with wf1 show ?thesis
    using assms(2) scan_wf [of e 0 False s1]
    by (fastforce simp: udtcp_server_poll_def p split: if_splits option.splits prod.splits)
qed

section \<open>Termination\<close>

interpretation tcp_finite: drained_finite "server_receive_tcp e i" "\<lambda>s. runs_dry e N \<and> server_wf s"
    "\<lambda>r. 0 < r" "\<lambda>s. N - reads (hist s)" for e i N
proof unfold_locales
  fix s s' :: server and r
  assume s: "runs_dry e N \<and> server_wf s"
  from s show "wp (server_receive_tcp e i) (\<lambda>_ s'. runs_dry e N \<and> server_wf s') s"
    by (auto intro: wp_mono [OF tcp_wf.step])
  assume run: "run_state (server_receive_tcp e i) s = (r, s')" and pos: "0 < r"
  from wp_runI [OF receive_progress(1) [OF conjunct1 [OF s]] run [unfolded server_receive_tcp_def]] pos
  have "reads (hist s) < N" "has_read (Suc (reads (hist s))) s'" by simp_all
  then show "N - reads (hist s') < N - reads (hist s)" by (simp add: has_read_def)
qed

interpretation udp_finite: drained_finite "server_receive_udp e" "\<lambda>s. runs_dry e N \<and> server_wf s"
    "\<lambda>r. 0 < r" "\<lambda>s. N - reads (hist s)" for e N
proof unfold_locales
  fix s s' :: server and r
  assume s: "runs_dry e N \<and> server_wf s"
  from s show "wp (server_receive_udp e) (\<lambda>_ s'. runs_dry e N \<and> server_wf s') s"
    by (auto intro: wp_mono [OF udp_wf.step])
  assume run: "run_state (server_receive_udp e) s = (r, s')" and pos: "0 < r"
  from wp_runI [OF receive_progress(2) [OF conjunct1 [OF s]] run [unfolded server_receive_udp_def]] pos
  have "reads (hist s) < N" "has_read (Suc (reads (hist s))) s'" by simp_all
  then show "N - reads (hist s') < N - reads (hist s)" by (simp add: has_read_def)
qed

lemma scan_slot_ends:
  assumes "runs_dry e N" "server_wf s"
  shows "\<exists>y. server_scan_slot e i s = Some y"
proof -
  have "\<exists>r t. drain e (\<lambda>r. r = 0) (accept_client e) s = Some (r, t)"
    by (rule accept_wf.drain_terminates [OF assms(2)])
  moreover have "\<exists>r t. drain e (\<lambda>r. 0 < r) (server_receive_tcp e i) s = Some (r, t)"
    by (rule tcp_finite.drain_terminates [OF conjI [OF assms]])
  moreover have "\<exists>r t. drain e (\<lambda>r. 0 < r) (server_receive_udp e) s = Some (r, t)"
    by (rule udp_finite.drain_terminates [OF conjI [OF assms]])
  ultimately show ?thesis by (auto simp: server_scan_slot_def simp del: split_paired_Ex)
qed

lemma scan_ends:
  assumes "runs_dry e N" "server_wf s"
  shows "\<exists>y. server_scan e i organise s = Some y"
  using assms(2)
proof (induction "UDTCP_POLL_TABLE_SIZE - i" arbitrary: i organise s)
  case 0
  then have "\<not> i < poll_nfds s" by (auto simp: server_wf_def)
  then show ?case by (subst server_scan.simps) simp
next
  case (Suc n)
  obtain b t where slot: "server_scan_slot e i s = Some (b, t)"
    using scan_slot_ends [OF assms(1) Suc.prems, of i] by auto
  have "\<exists>y. server_scan e (Suc i) (organise \<or> b) t = Some y"
    using Suc.hyps(2) scan_slot_wf [OF Suc.prems slot] by (intro Suc.hyps(1)) auto
  with slot show ?case by (subst server_scan.simps) auto
qed

lemma server_poll_ends:
  assumes "runs_dry e N" "server_wf s"
  shows "\<exists>r s'. udtcp_server_poll e t s = Some (r, s')"
proof -
  obtain p s1 where p: "run_state (poll_table e t) s = (p, s1)" by fastforce
  from assms(2) have "server_wf s1" by (simp add: poll_table_wf [OF p])
  from scan_ends [OF assms(1) this, of 0 False] show ?thesis
    by (auto simp: udtcp_server_poll_def p)
qed

end
