(* ===== verification/Udtcp_Connect.thy ===== *)
theory Udtcp_Connect
  imports Udtcp_Client
begin

text \<open>
  \<open>connect_client.c\<close>: a new TCP socket, the connection with its timeout, the client's half of
  the handshake, and the completion of \<open>server_infos\<close>.
\<close>

section \<open>The socket\<close>

definition close_tcp_socket :: "env \<Rightarrow> (client, unit) state" where
  "close_tcp_socket e = do {
     fd \<leftarrow> gets (\<lambda>s. tcp_socket (infos s ! 0));
     sys_do e (C_shutdown fd);
     sys_do e (C_close fd) }"

definition create_tcp_socket :: "env \<Rightarrow> (client, int) state" where
  "create_tcp_socket e = do {
     fd \<leftarrow> sys_int e (C_socket SOCK_STREAM);
     set_infos 0 (\<lambda>x. x\<lparr>tcp_socket := fd\<rparr>);
     if fd = -1 then do { log_error e; ret (-1) } else do {
     r \<leftarrow> sys_int e (C_setsockopt fd SO_REUSEADDR);
     if r = -1 then do { log_error e; ret (-1) } else do {
     r \<leftarrow> sys_int e (C_setsockopt fd SO_REUSEPORT);
     if r = -1 then do { log_error e; ret (-1) } else do {
     r \<leftarrow> udtcp_socket_add_option e fd O_NONBLOCK;
     if r = -1 then do { log_error e; ret (-1) } else do {
     addr \<leftarrow> gets (\<lambda>s. tcp_addr (infos s ! 0));
     r \<leftarrow> sys_int e (C_bind fd addr);
     if r \<noteq> 0 then do { log_error e; ret (-1) } else ret 0 } } } } }"

section \<open>The handshake\<close>

definition client_initialize_connection :: "env \<Rightarrow> (client, udtcp_connect_e) state" where
  "client_initialize_connection e = do {
     fd \<leftarrow> gets (\<lambda>s. tcp_socket (infos s ! 0));
     (ret_poll, _) \<leftarrow> sys_poll1 e fd POLLIN (-1);
     if ret_poll < 0 then do { log_error e; ret UDTCP_CONNECT_ERROR }
     else if ret_poll = 0 then do { log_error e; set_errno ETIMEDOUT; ret UDTCP_CONNECT_ERROR }
     else do {
       ret_recv \<leftarrow> recv_infos e fd 1;
       if ret_recv = 0 then do { log_error e; ret UDTCP_CONNECT_ERROR }
       else if ret_recv \<noteq> int sizeof_udtcp_infos then
         (if ret_recv \<noteq> 1 then do { log_error e; ret UDTCP_CONNECT_ERROR }
          else do { log_error e; ret UDTCP_CONNECT_TOO_MANY })
       else do {
         image \<leftarrow> gets (\<lambda>s. infos_bytes (infos s ! 0));
         ret_send \<leftarrow> sys_send e fd image;
         if ret_recv = 0 then do { log_error e; ret UDTCP_CONNECT_ERROR }
         else if ret_send \<noteq> int sizeof_udtcp_infos then do { log_error e; ret UDTCP_CONNECT_ERROR }
         else ret UDTCP_CONNECT_SUCCESS } } }"

section \<open>Waiting for the connection\<close>

text \<open>The part from \<open>connect\<close> on: \<open>None\<close> when the connection is there, otherwise the value
  returned.\<close>

definition wait_connected :: "env \<Rightarrow> int \<Rightarrow> (client, udtcp_connect_e option) state" where
  "wait_connected e timeout = do {
     fd \<leftarrow> gets (\<lambda>s. tcp_socket (infos s ! 0));
     addr \<leftarrow> gets (\<lambda>s. tcp_addr (infos s ! 1));
     r \<leftarrow> sys_int e (C_connect fd addr);
     if r < 0 then do {
       x \<leftarrow> gets errno;
       if x = EINPROGRESS then do {
         (ret_poll, rev) \<leftarrow> sys_poll1 e fd (POLLERR OR POLLHUP OR POLLIN OR POLLOUT) (c_int timeout);
         if ret_poll < 0 then do {
           close_tcp_socket e; log_error e; ret (Some UDTCP_CONNECT_ERROR) }
         else if ret_poll = 0 then do {
           close_tcp_socket e; set_errno ETIMEDOUT; log_info e; ret (Some UDTCP_CONNECT_TIMEOUT) }
         else if rev AND POLLHUP \<noteq> 0 then do {
           close_tcp_socket e; set_errno ECONNREFUSED; log_error e; ret (Some UDTCP_CONNECT_ERROR) }
         else ret None }
       else do { close_tcp_socket e; log_error e; ret (Some UDTCP_CONNECT_ERROR) } }
     else ret None }"

section \<open>The function\<close>

text \<open>After the handshake the server's structure is completed with what the client knows.\<close>

definition complete_server_infos :: "env \<Rightarrow> u32 \<Rightarrow> (client, unit) state" where
  "complete_server_infos e host_addr = do {
     s \<leftarrow> gets id;
     let me = infos s ! 0;
     set_infos 1 (\<lambda>x. x\<lparr>tcp_addr := (tcp_addr x)\<lparr>sin_addr := host_addr\<rparr>,
       udp_server_addr := (udp_server_addr x)\<lparr>sin_addr := host_addr\<rparr>,
       udp_client_addr := (udp_client_addr x)\<lparr>sin_addr := host_addr\<rparr>,
       tcp_socket := tcp_socket me,
       udp_server_socket := udp_client_socket me,
       udp_client_socket := udp_server_socket me,
       send_ptr := send_addr s, info_id := 0\<rparr>);
     x \<leftarrow> gets (\<lambda>s. infos s ! 1);
     x' \<leftarrow> udtcp_set_string_infos e x (tcp_addr x);
     set_infos 1 (\<lambda>_. x');
     call_back connect_callback ConnectCb 1 [] }"

text \<open>The first address of the host: four bytes as the processor loads them.\<close>

definition host_addr_of :: "reply \<Rightarrow> u32" where
  "host_addr_of r = u32_of_bytes (fit 4 (payload r))"

definition connect_to :: "env \<Rightarrow> u32 \<Rightarrow> u16 \<Rightarrow> int \<Rightarrow> (client, udtcp_connect_e) state" where
  "connect_to e host_addr port timeout = do {
     set_infos 1 (\<lambda>x. x\<lparr>tcp_addr := zero_sockaddr\<lparr>sin_family := AF_INET, sin_addr := host_addr,
       sin_port := htons port\<rparr>\<rparr>);
     failed \<leftarrow> wait_connected e timeout;
     case failed of
       Some c \<Rightarrow> ret c
     | None \<Rightarrow> do {
         c \<leftarrow> client_initialize_connection e;
         if c \<noteq> UDTCP_CONNECT_SUCCESS then do { close_tcp_socket e; ret c }
         else do { complete_server_infos e host_addr; ret UDTCP_CONNECT_SUCCESS } } }"

definition udtcp_connect_client ::
    "env \<Rightarrow> byte list \<Rightarrow> u16 \<Rightarrow> int \<Rightarrow> (client, udtcp_connect_e) state" where
  "udtcp_connect_client e host port timeout = do {
     c \<leftarrow> create_tcp_socket e;
     if c = -1 then do { close_tcp_socket e; ret UDTCP_CONNECT_ERROR }
     else do {
       host_entity \<leftarrow> syscall e (C_gethostbyname host);
       if rv host_entity = 0 then do { log_error e; ret UDTCP_CONNECT_ERROR }
       else connect_to e (host_addr_of host_entity) port timeout } }"

end
