(* ===== verification/Udtcp_Resources.thy ===== *)
theory Udtcp_Resources
  imports Udtcp_Send
begin

text \<open>
  Descriptors, mutexes and heap blocks over a whole function: what a destructor releases, and
  what a constructor that may fail half-way still holds.
\<close>

section \<open>The tests of the destructors\<close>

text \<open>\<open>if (fd != -1 && shutdown(fd, SHUT_RDWR) == -1) UDTCP_LOG_ERROR(...)\<close>, and with
  \<open>close\<close>.\<close>

definition shutdown_logged :: "env \<Rightarrow> int \<Rightarrow> ('a peer_scheme, unit) state" where
  "shutdown_logged e fd = (if fd \<noteq> -1 then do {
     r \<leftarrow> sys_int e (C_shutdown fd);
     (if r = -1 then log_error e else skip) } else skip)"

definition close_logged :: "env \<Rightarrow> int \<Rightarrow> ('a peer_scheme, unit) state" where
  "close_logged e fd = (if fd \<noteq> -1 then do {
     r \<leftarrow> sys_int e (C_close fd);
     (if r = -1 then log_error e else skip) } else skip)"

section \<open>Releasing\<close>

text \<open>The effect of a part of a destructor: descriptors \<open>D\<close>, mutexes \<open>M\<close> and blocks \<open>B\<close> are
  released, nothing else changes but the history and \<open>errno\<close>.\<close>

definition destructs ::
    "int multiset \<Rightarrow> u64 multiset \<Rightarrow> int multiset \<Rightarrow> 'a sys_scheme \<Rightarrow> 'a sys_scheme \<Rightarrow> bool" where
  "destructs D M B s s' \<longleftrightarrow> sys_frame s s' \<and> releases D M (hist s) (hist s') \<and>
     freed (hist s') = freed (hist s) + B \<and> allocated (hist s') = allocated (hist s) \<and>
     faults (hist s') = faults (hist s)"

lemma destructs_refl [simp]: "destructs {#} {#} {#} s s"
  by (simp add: destructs_def)

lemma destructs_trans:
  assumes "destructs D M B s t" "destructs D' M' B' t u"
  shows "destructs (D + D') (M + M') (B + B') s u"
proof -
  from assms have "sys_frame s t" "sys_frame t u" by (simp_all add: destructs_def)
  then have "sys_frame s u" by (rule sys_frame_trans)
  moreover from assms have "releases D M (hist s) (hist t)" "releases D' M' (hist t) (hist u)"
    by (simp_all add: destructs_def)
  then have "releases (D + D') (M + M') (hist s) (hist u)" by (rule releases_trans)
  moreover from assms have "freed (hist u) = freed (hist s) + (B + B')"
    "allocated (hist u) = allocated (hist s)" "faults (hist u) = faults (hist s)"
    by (simp_all add: destructs_def)
  ultimately show ?thesis by (simp add: destructs_def)
qed

text \<open>Two parts one after the other; the second starts from a state with the same fields.\<close>

lemma wp_destructs_bind:
  assumes "wp m (\<lambda>_. destructs D M B s) s"
    and "\<And>x t. sys_frame s t \<Longrightarrow> wp (f x) (\<lambda>_. destructs D' M' B' t) t"
    and "D0 = D + D'" "M0 = M + M'" "B0 = B + B'"
  shows "wp (State_Monad.bind m f) (\<lambda>_. destructs D0 M0 B0 s) s"
proof (rule wp_bindI [OF assms(1)])
  fix x t assume t: "destructs D M B s t"
  then have "sys_frame s t" by (simp add: destructs_def)
  from assms(2) [OF this] show "wp (f x) (\<lambda>_. destructs D0 M0 B0 s) t"
    by (rule wp_mono) (simp only: assms(3-5) destructs_trans [OF t])
qed

lemma log_destructs [simp]: "wp (udtcp_log e l) (\<lambda>_. destructs {#} {#} {#} s) s"
  by (simp add: wp_simps destructs_def releases_def after_log_def sys_frame_def)

lemma call_back_destructs [simp]: "wp (call_back f c i d) (\<lambda>_. destructs {#} {#} {#} s) s"
  by (simp add: wp_simps destructs_def releases_def after_cb_def sys_frame_def)

lemma syscall_destructs:
  "event_opened (Ev c r) = {#} \<Longrightarrow> event_inited (Ev c r) = {#} \<Longrightarrow> event_allocated (Ev c r) = {#} \<Longrightarrow>
   r = os e (hist s) c \<Longrightarrow>
   wp (syscall e c) (\<lambda>_. destructs (event_closed (Ev c r)) (event_destroyed (Ev c r)) (event_freed (Ev c r)) s) s"
  by (simp add: wp_syscall destructs_def releases_def sys_frame_def)

lemma skip_destructs [simp]: "wp (ret x) (\<lambda>_. destructs {#} {#} {#} s) s"
  by (simp add: wp_simps)

text \<open>Every single call of a destructor.\<close>

lemma calls_destructs [simp]:
  "wp (sys_do e (C_close fd)) (\<lambda>_. destructs {#fd#} {#} {#} s) s"
  "wp (sys_int e (C_close fd)) (\<lambda>_. destructs {#fd#} {#} {#} s) s"
  "wp (sys_int e (C_shutdown fd)) (\<lambda>_. destructs {#} {#} {#} s) s"
  "wp (sys_do e (C_shutdown fd)) (\<lambda>_. destructs {#} {#} {#} s) s"
  "wp (sys_do e (C_mutex_destroy a)) (\<lambda>_. destructs {#} {#a#} {#} s) s"
  "wp (udtcp_free_buffer e (Some b)) (\<lambda>_. destructs {#} {#} {#block_addr b#} s) s"
  "wp (udtcp_free_buffer e None) (\<lambda>_. destructs {#} {#} {#} s) s"
  by (simp_all add: wp_calls wp_syscall udtcp_free_buffer_def destructs_def releases_def sys_frame_def)

lemma if_log_destructs [simp]:
  "wp (if b then udtcp_log e l else skip) (\<lambda>_. destructs {#} {#} {#} s) s"
  by (cases b) simp_all

definition valid_fd :: "int \<Rightarrow> int multiset" where
  "valid_fd fd = (if fd \<noteq> -1 then {#fd#} else {#})"

lemma shutdown_logged_destructs [simp]: "wp (shutdown_logged e fd) (\<lambda>_. destructs {#} {#} {#} s) s"
  unfolding shutdown_logged_def
  by (cases "fd = -1") (simp_all add: wp_destructs_bind [OF calls_destructs(3) if_log_destructs])

lemma close_logged_destructs [simp]: "wp (close_logged e fd) (\<lambda>_. destructs (valid_fd fd) {#} {#} s) s"
  unfolding close_logged_def valid_fd_def
  by (cases "fd = -1") (simp_all add: wp_destructs_bind [OF calls_destructs(2) if_log_destructs])

text \<open>A buffer that exists has a positive size, so the test before the release finds it.\<close>

definition sized :: "udtcp_send \<Rightarrow> bool" where
  "sized sd \<longleftrightarrow> (send_buffer sd = None \<longleftrightarrow> send_buffer_size sd = 0)"

section \<open>Holding\<close>

text \<open>Since \<open>h\<close> the descriptors \<open>D\<close> and the mutexes \<open>M\<close> have been acquired and not released.\<close>

definition holds :: "int multiset \<Rightarrow> u64 multiset \<Rightarrow> event list \<Rightarrow> 'a sys_scheme \<Rightarrow> bool" where
  "holds D M h s \<longleftrightarrow> opened (hist s) + closed h = opened h + closed (hist s) + D \<and>
     inited (hist s) + destroyed h = inited h + destroyed (hist s) + M"

lemma holds_refl: "holds {#} {#} (hist s) s"
  by (simp add: holds_def)

lemma holds_destructs: "holds (D + D') (M + M') h s \<Longrightarrow> destructs D' M' B s t \<Longrightarrow> holds D M h t"
  by (auto simp: holds_def destructs_def releases_def add_ac)

lemma holds_release: "holds D M h s \<Longrightarrow> destructs D M B s t \<Longrightarrow> holds {#} {#} h t"
  using holds_destructs [of "{#}" D "{#}" M h s B t] by simp

text \<open>Calls that neither acquire nor release.\<close>

fun neutral :: "call \<Rightarrow> bool" where
  "neutral (C_socket _) = False"
| "neutral (C_accept _) = False"
| "neutral (C_close _) = False"
| "neutral (C_mutex_init _) = False"
| "neutral (C_mutex_destroy _) = False"
| "neutral _ = True"

lemma neutral_events:
  "neutral c \<Longrightarrow> event_opened (Ev c r) = {#} \<and> event_closed (Ev c r) = {#} \<and>
     event_inited (Ev c r) = {#} \<and> event_destroyed (Ev c r) = {#}"
  by (cases c) simp_all

lemma keeps_holds [inv_intros]:
  "neutral c \<Longrightarrow> keeps (holds D M h) (syscall e c)"
  "keeps (holds D M h) (udtcp_log e l)"
  "keeps (holds D M h) (call_back f cb i d)"
  "keeps (holds D M h) (set_infos i g)"
  "keeps (holds D M h) (set_errno x)"
  "keeps (holds D M h) (emit (Fault f'))"
  using neutral_events [of c]
  by (auto simp: keeps_def wp_simps holds_def after_log_def after_cb_def intro: wp_syscallI)

section \<open>Constructors in stages\<close>

text \<open>The constructors run a sequence of stages; one that fails deletes what has been built so far
  and the constructor returns.  \<open>stage b r\<close> is what such a stage leaves: the state still fits \<open>b\<close>
  when it says \<open>True\<close>, everything is released (\<open>r\<close>) when it says \<open>False\<close>.\<close>

definition stage :: "('s \<Rightarrow> bool) \<Rightarrow> ('s \<Rightarrow> bool) \<Rightarrow> bool \<Rightarrow> 's \<Rightarrow> bool" where
  "stage b r ok s \<longleftrightarrow> (if ok then b s else r s)"

text \<open>The contract of a destructor with the constructor that uses it.\<close>

locale staged =
  fixes delete :: "('s, unit) state"
    and building :: "'s \<Rightarrow> bool"
    and released :: "'s \<Rightarrow> bool"
  assumes delete_building: "building s \<Longrightarrow> wp delete (\<lambda>_. released) s"
begin

lemma stage_fails: "building s \<Longrightarrow> wp (do { delete; ret False }) (stage building released) s"
  by (simp add: wp_bind wp_return stage_def delete_building)

lemma stage_step:
  assumes "keeps building op" "building s"
    and "\<And>x t. building t \<Longrightarrow> wp (rest x) (stage building released) t"
  shows "wp (do { x \<leftarrow> op; if P x then do { delete; ret False } else rest x }) (stage building released) s"
  by (rule wp_bindI [OF keepsD [OF assms(1,2)]], rule wp_ifI) (simp_all only: stage_fails assms(3))

lemma stage_done: "building s \<Longrightarrow> wp (ret True) (stage building released) s"
  by (simp add: wp_return stage_def)

lemma stage_last:
  assumes "keeps building op" "building s"
  shows "wp (do { op; ret True }) (stage building released) s"
  by (rule wp_bindI [OF keepsD [OF assms]]) (rule stage_done)

end

lemma wp_stage_bind:
  assumes "wp op (stage b r) t" "\<And>u. b u \<Longrightarrow> wp rest Q u" "\<And>u. r u \<Longrightarrow> Q (-1 :: int) u"
  shows "wp (do { ok \<leftarrow> op; if \<not> ok then ret (-1) else rest }) Q t"
  by (rule wp_bindI [OF assms(1)]) (auto simp: stage_def wp_return assms(2,3))

end
