(* ===== verification/Udtcp_Client_Lifecycle.thy ===== *)
theory Udtcp_Client_Lifecycle
  imports Udtcp_Connect Udtcp_Resources
begin

text \<open>
  \<open>create_client.c\<close> and \<open>delete_client.c\<close>.  The state before \<open>udtcp_create_client\<close> stands for
  the memory that \<open>udtcp_new_client\<close> returns, whatever it holds; only its history and \<open>errno\<close>
  matter.  The function is cut into the stages of the source, each of which returns whether the
  next one is to run; a stage that fails has already cleaned up.
\<close>

section \<open>The structure itself\<close>

text \<open>\<open>udtcp_new_client\<close> and \<open>udtcp_free_client\<close> of \<open>new_free.c\<close>.  The member \<open>send\<close> is 736 bytes
  behind the beginning of the structure.\<close>

definition client_addr :: "client \<Rightarrow> u64" where
  "client_addr s = send_addr s - 736"

definition udtcp_new_client :: "env \<Rightarrow> ('a sys_scheme, int) state" where
  "udtcp_new_client e = sys_int e C_new_client"

definition udtcp_free_client :: "env \<Rightarrow> (client, unit) state" where
  "udtcp_free_client e = do { a \<leftarrow> gets client_addr; sys_do e (C_free_client a) }"

lemma free_client_destructs [simp]:
  "wp (udtcp_free_client e) (\<lambda>_. destructs {#} {#} {#uint (client_addr s)#} s) s"
  by (simp add: udtcp_free_client_def wp_simps wp_calls wp_syscall destructs_def releases_def sys_frame_def)

lemma keeps_free_client [inv_intros]: "keeps (holds D M h) (udtcp_free_client e)"
  unfolding udtcp_free_client_def sys_do_def by (intro inv_intros) simp

section \<open>Deleting\<close>

definition udtcp_delete_client :: "env \<Rightarrow> (client, unit) state" where
  "udtcp_delete_client e = do {
     me \<leftarrow> gets (\<lambda>s. infos s ! 0);
     shutdown_logged e (tcp_socket me);
     close_logged e (tcp_socket me);
     close_logged e (udp_server_socket me);
     close_logged e (udp_client_socket me);
     (if tcp_socket me \<noteq> -1 then call_back disconnect_callback DisconnectCb 1 [] else skip);
     s \<leftarrow> gets id;
     (if buffer_size s > 0 then udtcp_free_buffer e (buffer_data s) else skip);
     (if send_buffer_size (csend s) > 0 then udtcp_free_buffer e (send_buffer (csend s)) else skip);
     sys_do e (C_mutex_destroy (send_addr s));
     udtcp_free_client e }"

section \<open>Creating\<close>

text \<open>\<open>memset(client, 0, sizeof(udtcp_client))\<close> on the block at address \<open>p\<close>.\<close>

definition clear_client :: "int \<Rightarrow> client \<Rightarrow> client" where
  "clear_client p s = \<lparr>hist = hist s, errno = errno s, infos = [zero_infos, zero_infos],
     poll_fds = [zero_pollfd, zero_pollfd], poll_nfds = 0, connect_callback = False,
     disconnect_callback = False, receive_tcp_callback = False, receive_udp_callback = False,
     log_callback = False, poll_loop = 0, is_started = 0, buffer_data = None, buffer_size = 0,
     csend = zero_send, send_addr = word_of_int p + 736\<rparr>"

definition client_open_sockets :: "env \<Rightarrow> (client, bool) state" where
  "client_open_sockets e = do {
     m \<leftarrow> gets send_addr;
     tcp \<leftarrow> sys_int e (C_socket SOCK_STREAM);
     set_infos 0 (\<lambda>x. x\<lparr>tcp_socket := tcp\<rparr>);
     if tcp < 0 then do {
       sys_do e (C_mutex_destroy m); udtcp_free_client e; ret False } else do {
     us \<leftarrow> sys_int e (C_socket SOCK_DGRAM);
     set_infos 0 (\<lambda>x. x\<lparr>udp_server_socket := us\<rparr>);
     if us < 0 then do {
       sys_do e (C_mutex_destroy m); sys_do e (C_close tcp); udtcp_free_client e; ret False }
     else do {
     uc \<leftarrow> sys_int e (C_socket SOCK_DGRAM);
     set_infos 0 (\<lambda>x. x\<lparr>udp_client_socket := uc\<rparr>);
     if uc < 0 then do {
       sys_do e (C_mutex_destroy m); sys_do e (C_close tcp); sys_do e (C_close us);
       udtcp_free_client e; ret False }
     else ret True } } }"

text \<open>The operands of \<open>||\<close> are evaluated from left to right until one of the calls fails.\<close>

fun setsockopts :: "env \<Rightarrow> sock_option \<Rightarrow> int list \<Rightarrow> ('a sys_scheme, bool) state" where
  "setsockopts e opt [] = ret True"
| "setsockopts e opt (fd # fds) = do {
     r \<leftarrow> sys_int e (C_setsockopt fd opt);
     if r = -1 then ret False else setsockopts e opt fds }"

definition client_reuse :: "env \<Rightarrow> (client, bool) state" where
  "client_reuse e = do {
     me \<leftarrow> gets (\<lambda>s. infos s ! 0);
     ok \<leftarrow> setsockopts e SO_REUSEADDR [tcp_socket me, udp_server_socket me, udp_client_socket me];
     if \<not> ok then do { udtcp_delete_client e; ret False } else do {
     ok \<leftarrow> setsockopts e SO_REUSEPORT [tcp_socket me, udp_server_socket me, udp_server_socket me];
     if \<not> ok then do { udtcp_delete_client e; ret False } else ret True } }"

text \<open>\<open>bind\<close> a socket and read the address it got, which \<open>upd\<close> stores: the same for the three
  sockets of a client and of a server.\<close>

definition bind_named ::
    "env \<Rightarrow> int \<Rightarrow> u32 \<Rightarrow> u16 \<Rightarrow> (sockaddr_in \<Rightarrow> udtcp_infos \<Rightarrow> udtcp_infos) \<Rightarrow> ('a peer_scheme, bool) state" where
  "bind_named e fd host_addr port upd = do {
     let addr = zero_sockaddr\<lparr>sin_family := AF_INET, sin_addr := htonl host_addr,
       sin_port := htons port\<rparr>;
     set_infos 0 (upd addr);
     r \<leftarrow> sys_int e (C_bind fd addr);
     if r \<noteq> 0 then ret False else do {
     g \<leftarrow> syscall e (C_getsockname fd);
     if rv g = -1 then ret False else do {
       set_infos 0 (upd (from_addr g));
       ret True } } }"

definition client_bind :: "env \<Rightarrow> u32 \<Rightarrow> u16 \<Rightarrow> u16 \<Rightarrow> u16 \<Rightarrow> (client, bool) state" where
  "client_bind e host_addr port udp_s udp_c = do {
     me \<leftarrow> gets (\<lambda>s. infos s ! 0);
     ok \<leftarrow> bind_named e (tcp_socket me) host_addr port (\<lambda>a x. x\<lparr>tcp_addr := a\<rparr>);
     if \<not> ok then do { udtcp_delete_client e; ret False } else do {
     ok \<leftarrow> bind_named e (udp_server_socket me) host_addr udp_s (\<lambda>a x. x\<lparr>udp_server_addr := a\<rparr>);
     if \<not> ok then do { udtcp_delete_client e; ret False } else do {
     ok \<leftarrow> bind_named e (udp_client_socket me) host_addr udp_c (\<lambda>a x. x\<lparr>udp_client_addr := a\<rparr>);
     if \<not> ok then do { udtcp_delete_client e; ret False } else do {
       set_infos 0 (\<lambda>x. x\<lparr>tcp_port := htons (sin_port (tcp_addr x)),
         udp_server_port := htons (sin_port (udp_server_addr x)),
         udp_client_port := htons (sin_port (udp_client_addr x))\<rparr>);
       ret True } } } }"

definition client_nonblock :: "env \<Rightarrow> (client, bool) state" where
  "client_nonblock e = do {
     me \<leftarrow> gets (\<lambda>s. infos s ! 0);
     r \<leftarrow> udtcp_socket_add_option e (tcp_socket me) O_NONBLOCK;
     if r = -1 then do { udtcp_delete_client e; ret False } else do {
     r \<leftarrow> udtcp_socket_add_option e (udp_server_socket me) O_NONBLOCK;
     if r = -1 then do { udtcp_delete_client e; ret False } else ret True } }"

text \<open>The poll table, the names, the default callbacks; the TCP socket is closed, \<open>connect\<close>
  makes another.\<close>

definition client_finish :: "env \<Rightarrow> byte list \<Rightarrow> (client, unit) state" where
  "client_finish e name = do {
     me \<leftarrow> gets (\<lambda>s. infos s ! 0);
     modify (\<lambda>s. s\<lparr>poll_fds := [\<lparr>pfd = tcp_socket me, events = POLLIN, revents = revents (poll_fds s ! 0)\<rparr>,
         \<lparr>pfd = udp_server_socket me, events = POLLIN, revents = revents (poll_fds s ! 1)\<rparr>],
       poll_nfds := 2\<rparr>);
     hn \<leftarrow> copy_string 256 (c_string name) (hostname me);
     ipv \<leftarrow> copy_string 16 (inet_ntoa (sin_addr (tcp_addr me))) (ip me);
     set_infos 0 (\<lambda>x. x\<lparr>info_id := 0, hostname := hn, ip := ipv\<rparr>);
     modify (\<lambda>s. s\<lparr>connect_callback := False, disconnect_callback := False,
       receive_tcp_callback := False, receive_udp_callback := False, log_callback := False,
       poll_loop := 0, buffer_data := None, buffer_size := 0\<rparr>);
     sys_do e (C_close (tcp_socket me)) }"

definition udtcp_create_client ::
    "env \<Rightarrow> byte list \<Rightarrow> u16 \<Rightarrow> u16 \<Rightarrow> u16 \<Rightarrow> (client, int) state" where
  "udtcp_create_client e host port udp_s udp_c = do {
     host_entity \<leftarrow> syscall e (C_gethostbyname host);
     if rv host_entity = 0 then do { set_errno EHOSTUNREACH; ret (-1) } else do {
     p \<leftarrow> udtcp_new_client e;
     if p = 0 then ret (-1) else do {
     modify (clear_client p);
     m \<leftarrow> gets send_addr;
     r \<leftarrow> sys_int e (C_mutex_init m);
     if r \<noteq> 0 then do { udtcp_free_client e; ret (-1) } else do {
     ok \<leftarrow> client_open_sockets e;
     if \<not> ok then ret (-1) else do {
     ok \<leftarrow> client_reuse e;
     if \<not> ok then ret (-1) else do {
     ok \<leftarrow> client_bind e (host_addr_of host_entity) port udp_s udp_c;
     if \<not> ok then ret (-1) else do {
     ok \<leftarrow> client_nonblock e;
     if \<not> ok then ret (-1) else do {
       client_finish e (h_name host_entity);
       ret 0 } } } } } } } }"

section \<open>What deleting releases\<close>

lemma frame_client:
  assumes "sys_frame s t"
  shows "infos t = infos s" "buffer_data t = buffer_data s" "buffer_size t = buffer_size s"
    "csend t = csend s" "send_addr t = send_addr s" "poll_fds t = poll_fds s" "poll_nfds t = poll_nfds s"
proof -
  from assms have eq: "t\<lparr>hist := hist s, errno := errno s\<rparr> = s" by (simp add: sys_frame_def)
  from arg_cong [OF eq, of infos] arg_cong [OF eq, of buffer_data] arg_cong [OF eq, of buffer_size]
    arg_cong [OF eq, of csend] arg_cong [OF eq, of send_addr] arg_cong [OF eq, of poll_fds]
    arg_cong [OF eq, of poll_nfds]
  show "infos t = infos s" "buffer_data t = buffer_data s" "buffer_size t = buffer_size s"
    "csend t = csend s" "send_addr t = send_addr s" "poll_fds t = poll_fds s" "poll_nfds t = poll_nfds s"
    by simp_all
qed

lemma client_addr_frame: "sys_frame s t \<Longrightarrow> client_addr t = client_addr s"
  by (simp add: client_addr_def frame_client)

lemma free_client_frame:
  "sys_frame s t \<Longrightarrow> wp (udtcp_free_client e) (\<lambda>_. destructs {#} {#} {#uint (client_addr s)#} t) t"
  using free_client_destructs [of e t] by (simp add: client_addr_frame)

definition buffer_sized :: "'a peer_scheme \<Rightarrow> bool" where
  "buffer_sized s \<longleftrightarrow> (buffer_data s = None \<longleftrightarrow> buffer_size s = 0)"

lemma free_receive_buffer:
  "buffer_sized s \<Longrightarrow> wp (if 0 < buffer_size s then udtcp_free_buffer e (buffer_data s) else skip)
     (\<lambda>_. destructs {#} {#} (buffer_block s) t) t"
  by (cases "buffer_data s") (auto simp: buffer_sized_def buffer_block_def)

lemma free_send_buffer:
  "sized sd \<Longrightarrow> wp (if 0 < send_buffer_size sd then udtcp_free_buffer e (send_buffer sd) else skip)
     (\<lambda>_. destructs {#} {#} (send_block sd) t) t"
  by (cases "send_buffer sd") (auto simp: sized_def send_block_def word_gt_0)

lemma delete_client_destructs:
  assumes "buffer_sized s" "sized (csend s)"
  shows "wp (udtcp_delete_client e) (\<lambda>_. destructs
    (valid_fd (tcp_socket (infos s ! 0)) + valid_fd (udp_server_socket (infos s ! 0)) +
     valid_fd (udp_client_socket (infos s ! 0)))
    {#send_addr s#} (buffer_block s + send_block (csend s) + {#uint (client_addr s)#}) s) s"
proof -
  have tail: "wp (do { u \<leftarrow> gets id;
      (if buffer_size u > 0 then udtcp_free_buffer e (buffer_data u) else skip);
      (if send_buffer_size (csend u) > 0 then udtcp_free_buffer e (send_buffer (csend u)) else skip);
      sys_do e (C_mutex_destroy (send_addr u));
      udtcp_free_client e }) (\<lambda>_. destructs {#} {#send_addr s#}
        (buffer_block s + send_block (csend s) + {#uint (client_addr s)#}) t) t"
    if "sys_frame s t" for t
    by (rule wp_bind_gets, unfold id_apply frame_client [OF that],
        rule wp_destructs_bind [OF free_receive_buffer [OF assms(1)]],
        rule wp_destructs_bind [OF free_send_buffer [OF assms(2)]],
        rule wp_destructs_bind [OF calls_destructs(5) free_client_frame])
      (simp_all, meson sys_frame_trans that)
  let ?x = "infos s ! 0"
  have cb: "wp (if tcp_socket ?x \<noteq> -1 then call_back disconnect_callback DisconnectCb 1 [] else skip)
      (\<lambda>_. destructs {#} {#} {#} t) t" for t by simp
  show ?thesis
    unfolding udtcp_delete_client_def
    by (rule wp_bind_gets, rule wp_destructs_bind [OF shutdown_logged_destructs],
        rule wp_destructs_bind [OF close_logged_destructs],
        rule wp_destructs_bind [OF close_logged_destructs],
        rule wp_destructs_bind [OF close_logged_destructs],
        rule wp_destructs_bind [OF cb], rule tail)
      (simp_all, meson sys_frame_trans)
qed

section \<open>What creating holds\<close>

text \<open>A structure under construction: its sockets, no buffers, no callbacks.\<close>

definition new_client :: "int \<Rightarrow> int \<Rightarrow> int \<Rightarrow> u64 \<Rightarrow> client \<Rightarrow> bool" where
  "new_client tcp us uc m s \<longleftrightarrow> length (infos s) = 2 \<and> length (poll_fds s) = 2 \<and>
     tcp_socket (infos s ! 0) = tcp \<and> udp_server_socket (infos s ! 0) = us \<and>
     udp_client_socket (infos s ! 0) = uc \<and> buffer_data s = None \<and> buffer_size s = 0 \<and>
     csend s = zero_send \<and> send_addr s = m \<and> poll_loop s = 0"

definition creating ::
    "int multiset \<Rightarrow> event list \<Rightarrow> int \<Rightarrow> int \<Rightarrow> int \<Rightarrow> u64 \<Rightarrow> client \<Rightarrow> bool" where
  "creating D h tcp us uc m s \<longleftrightarrow> new_client tcp us uc m s \<and> holds D {#m#} h s"

lemma keeps_new_client:
  "keeps (new_client tcp us uc m) (syscall e c)"
  "keeps (new_client tcp us uc m) (emit ev)"
  "(\<And>x. tcp_socket (f x) = tcp_socket x \<and> udp_server_socket (f x) = udp_server_socket x \<and>
     udp_client_socket (f x) = udp_client_socket x) \<Longrightarrow> keeps (new_client tcp us uc m) (set_infos 0 f)"
  by (auto simp: keeps_def wp_simps new_client_def intro: wp_syscallI)

lemma keeps_creating [inv_intros]:
  "neutral c \<Longrightarrow> keeps (creating D h tcp us uc m) (syscall e c)"
  "(\<And>x. tcp_socket (f x) = tcp_socket x \<and> udp_server_socket (f x) = udp_server_socket x \<and>
     udp_client_socket (f x) = udp_client_socket x) \<Longrightarrow> keeps (creating D h tcp us uc m) (set_infos 0 f)"
  "keeps (creating D h tcp us uc m) (emit (Fault f'))"
  unfolding creating_def by (intro keeps_conj keeps_new_client keeps_holds; simp)+

lemma keeps_bind_named [inv_intros]:
  assumes "\<And>a x. tcp_socket (upd a x) = tcp_socket x \<and> udp_server_socket (upd a x) = udp_server_socket x \<and>
     udp_client_socket (upd a x) = udp_client_socket x"
  shows "keeps (creating D h tcp us uc m) (bind_named e fd a port upd)"
  unfolding bind_named_def sys_int_def by (intro inv_intros) (simp_all add: assms)

lemma keeps_setsockopts [inv_intros]: "keeps (creating D h tcp us uc m) (setsockopts e opt fds)"
  by (induction fds) (simp_all add: sys_int_def inv_intros)

lemma add_option_creating [inv_intros]: "keeps (creating D h tcp us uc m) (udtcp_socket_add_option e fd opt)"
  unfolding udtcp_socket_add_option_def sys_int_def by (intro inv_intros) simp_all

text \<open>Deleting what has been constructed gives everything back.\<close>

definition client_building :: "event list \<Rightarrow> int \<Rightarrow> int \<Rightarrow> int \<Rightarrow> u64 \<Rightarrow> client \<Rightarrow> bool" where
  "client_building h tcp us uc m s \<longleftrightarrow> 0 \<le> tcp \<and> 0 \<le> us \<and> 0 \<le> uc \<and>
     creating {#tcp, us, uc#} h tcp us uc m s"

lemma delete_new_client:
  assumes "client_building h tcp us uc m s"
  shows "wp (udtcp_delete_client e) (\<lambda>_. holds {#} {#} h) s"
proof -
  have c: "creating {#tcp, us, uc#} h tcp us uc m s" "0 \<le> tcp" "0 \<le> us" "0 \<le> uc"
    using assms by (simp_all add: client_building_def)
  then have "buffer_sized s" "sized (csend s)" "buffer_block s = {#}" "send_block (csend s) = {#}"
    by (simp_all add: creating_def new_client_def buffer_sized_def sized_def
        zero_send_def buffer_block_def send_block_def)
  with delete_client_destructs [of s e] have "wp (udtcp_delete_client e) (\<lambda>_.
      destructs {#tcp, us, uc#} {#m#} {#uint (client_addr s)#} s) s"
    using c by (simp add: creating_def new_client_def valid_fd_def add_ac add_mset_commute)
  then show ?thesis
    by (rule wp_mono) (rule holds_release, use c in \<open>auto simp: creating_def\<close>)
qed

interpretation client_stage: staged "udtcp_delete_client e" "client_building h tcp us uc m" "holds {#} {#} h"
    for e h tcp us uc m
  by unfold_locales (rule delete_new_client)

lemma keeps_building: "keeps (creating {#tcp, us, uc#} h tcp us uc m) op \<Longrightarrow> keeps (client_building h tcp us uc m) op"
  by (auto simp: keeps_def client_building_def wp_run)

lemma client_stages:
  assumes "client_building h tcp us uc m s"
  shows "wp (client_reuse e) (stage (client_building h tcp us uc m) (holds {#} {#} h)) s"
    "wp (client_bind e a p1 p2 p3) (stage (client_building h tcp us uc m) (holds {#} {#} h)) s"
    "wp (client_nonblock e) (stage (client_building h tcp us uc m) (holds {#} {#} h)) s"
proof -
  note step = client_stage.stage_step [where P = "\<lambda>x. \<not> x", OF keeps_building]
    client_stage.stage_step [where P = "\<lambda>x. x = - 1", OF keeps_building]
  show "wp (client_reuse e) (stage (client_building h tcp us uc m) (holds {#} {#} h)) s"
    unfolding client_reuse_def
    by (rule wp_bind_gets) (intro step client_stage.stage_done assms inv_intros; assumption)
  show "wp (client_nonblock e) (stage (client_building h tcp us uc m) (holds {#} {#} h)) s"
    unfolding client_nonblock_def
    by (rule wp_bind_gets) (intro step client_stage.stage_done assms inv_intros; assumption)
  show "wp (client_bind e a p1 p2 p3) (stage (client_building h tcp us uc m) (holds {#} {#} h)) s"
    unfolding client_bind_def
    by (rule wp_bind_gets)
      (intro step client_stage.stage_last [OF keeps_building] assms inv_intros; simp)
qed

lemma client_open_sockets_holds:
  assumes "length (infos s) = 2" "length (poll_fds s) = 2" "buffer_data s = None" "buffer_size s = 0"
    and "csend s = zero_send" "send_addr s = m" "poll_loop s = 0" "holds {#} {#m#} h s"
  shows "wp (client_open_sockets e) (\<lambda>ok s'. if ok
    then \<exists>tcp us uc. client_building h tcp us uc m s'
    else holds {#} {#} h s') s"
  using assms
  by (auto simp: client_open_sockets_def udtcp_free_client_def wp_simps wp_calls wp_syscall holds_def client_building_def
      creating_def new_client_def not_less add_mset_commute)

text \<open>A client that has been created: not connected, its TCP socket closed again, though both
  \<open>tcp_socket\<close> and the poll table still name it.\<close>

definition created_client :: "event list \<Rightarrow> int \<Rightarrow> int \<Rightarrow> int \<Rightarrow> u64 \<Rightarrow> client \<Rightarrow> bool" where
  "created_client h tcp us uc m s \<longleftrightarrow> 0 \<le> tcp \<and> 0 \<le> us \<and> 0 \<le> uc \<and> client_wf s \<and>
     creating {#us, uc#} h tcp us uc m s \<and> pfd (poll_fds s ! 0) = tcp \<and> pfd (poll_fds s ! 1) = us"

lemma wp_copy_string:
  assumes "\<And>g t. t = s \<or> t = s\<lparr>hist := hist s @ [Fault StructOverflow]\<rparr> \<Longrightarrow> Q g t"
  shows "wp (copy_string n src f) Q s"
  using assms by (simp add: copy_string_def wp_simps)

lemma client_finish_created:
  assumes "client_building h tcp us uc m s"
  shows "wp (client_finish e name) (\<lambda>_. created_client h tcp us uc m) s"
  using assms unfolding client_finish_def wp_bind
  by (auto simp: wp_simps wp_calls wp_syscall intro!: wp_copy_string)
    (auto simp: created_client_def client_wf_def client_building_def creating_def new_client_def holds_def add_mset_commute)

lemma create_client_outcome:
  "wp (udtcp_create_client e host p1 p2 p3) (\<lambda>r s'.
     if r = 0 then \<exists>tcp us uc m. created_client (hist s) tcp us uc m s'
     else r = -1 \<and> holds {#} {#} (hist s) s') s"
proof -
  define Q where "Q = (\<lambda>r s'. if r = (0 :: int) then \<exists>tcp us uc m. created_client (hist s) tcp us uc m s'
     else r = -1 \<and> holds {#} {#} (hist s) s')"
  have bad: "wp (ret (- 1)) Q t" if "holds {#} {#} (hist s) t" for t :: client
    using that by (simp add: wp_return Q_def)
  have finish: "wp (do { client_finish e name; ret 0 }) Q t"
    if "client_building (hist s) tcp us uc m t" for name tcp us uc m t
    by (rule wp_bindI [OF client_finish_created [OF that]]) (auto simp: wp_return Q_def)
  have minus: "Q (-1) t" if "holds {#} {#} (hist s) t" for t :: client
    using that by (simp add: Q_def)
  have opened: "wp (do {
     ok \<leftarrow> client_open_sockets e;
     if \<not> ok then ret (-1) else do {
     ok \<leftarrow> client_reuse e;
     if \<not> ok then ret (-1) else do {
     ok \<leftarrow> client_bind e a p1 p2 p3;
     if \<not> ok then ret (-1) else do {
     ok \<leftarrow> client_nonblock e;
     if \<not> ok then ret (-1) else do {
       client_finish e name;
       ret 0 } } } } }) Q t"
    if "length (infos t) = 2" "length (poll_fds t) = 2" "buffer_data t = None" "buffer_size t = 0"
      "csend t = zero_send" "send_addr t = m" "poll_loop t = 0" "holds {#} {#m#} (hist s) t" for t m a name
    by (rule wp_bindI [OF client_open_sockets_holds [OF that]], rule wp_ifI)
      (auto intro!: bad minus wp_stage_bind client_stages finish)
  have early: "wp (do { udtcp_free_client e; ret (-1) }) Q t" if "holds {#} {#} (hist s) t" for t
    using keepsD [OF keeps_free_client that, of e] by (simp add: wp_simps Q_def)
  have cleared: "wp (do {
     modify (clear_client p);
     m \<leftarrow> gets send_addr;
     r \<leftarrow> sys_int e (C_mutex_init m);
     if r \<noteq> 0 then do { udtcp_free_client e; ret (-1) } else rest }) Q t"
    if "holds {#} {#} (hist s) t" "\<And>m u. length (infos u) = 2 \<Longrightarrow> length (poll_fds u) = 2 \<Longrightarrow>
      buffer_data u = None \<Longrightarrow> buffer_size u = 0 \<Longrightarrow> csend u = zero_send \<Longrightarrow> send_addr u = m \<Longrightarrow>
      poll_loop u = 0 \<Longrightarrow> holds {#} {#m#} (hist s) u \<Longrightarrow> wp rest Q u" for t p rest
    using that
    by (auto simp: wp_bind wp_modify wp_gets wp_sys_int wp_syscall clear_client_def holds_def
        intro!: early [unfolded wp_bind] that(2) [unfolded holds_def])
  have host: "wp (syscall e (C_gethostbyname host)) (\<lambda>_. holds {#} {#} (hist s)) s"
    by (rule keepsD [OF keeps_holds(1) holds_refl]) simp
  have alloc: "wp (udtcp_new_client e) (\<lambda>_. holds {#} {#} (hist s)) t"
    if "holds {#} {#} (hist s) t" for t
    unfolding udtcp_new_client_def wp_sys_int by (rule keepsD [OF keeps_holds(1) that]) simp
  have no_host: "wp (do { set_errno EHOSTUNREACH; ret (-1) }) Q t" if "holds {#} {#} (hist s) t" for t
    using that by (auto simp: wp_simps Q_def holds_def)
  have "wp (udtcp_create_client e host p1 p2 p3) Q s"
    unfolding udtcp_create_client_def
    by (rule wp_bindI [OF host], rule wp_ifI, erule no_host,
        rule wp_bindI [OF alloc], assumption, rule wp_ifI, erule bad, rule cleared, assumption,
        rule opened)
  then show ?thesis by (simp add: Q_def)
qed

end
