(* ===== verification/Udtcp_Server_Lifecycle.thy ===== *)
theory Udtcp_Server_Lifecycle
  imports Udtcp_Server_Accept Udtcp_Client_Lifecycle
begin

text \<open>
  \<open>create_server.c\<close> and \<open>delete_server.c\<close>, in the stages of the source.  The slots of \<open>sends\<close>
  from 2 on have a mutex each, named by its address.
\<close>

section \<open>The structure itself\<close>

text \<open>\<open>udtcp_new_server\<close> and \<open>udtcp_free_server\<close> of \<open>new_free.c\<close>.  The array \<open>sends\<close> is 15856
  bytes behind the beginning of the structure.\<close>

definition server_addr :: "server \<Rightarrow> u64" where
  "server_addr s = sends_base s - 15856"

definition udtcp_new_server :: "env \<Rightarrow> ('a sys_scheme, int) state" where
  "udtcp_new_server e = sys_int e C_new_server"

definition udtcp_free_server :: "env \<Rightarrow> (server, unit) state" where
  "udtcp_free_server e = do { a \<leftarrow> gets server_addr; sys_do e (C_free_server a) }"

lemma free_server_destructs [simp]:
  "wp (udtcp_free_server e) (\<lambda>_. destructs {#} {#} {#uint (server_addr s)#} s) s"
  by (simp add: udtcp_free_server_def wp_simps wp_calls wp_syscall destructs_def releases_def sys_frame_def)

lemma keeps_free_server [inv_intros]: "keeps (holds D M h) (udtcp_free_server e)"
  unfolding udtcp_free_server_def sys_do_def by (intro inv_intros) simp

section \<open>Loops over the mutexes\<close>

fun destroy_mutexes :: "env \<Rightarrow> nat list \<Rightarrow> (server, unit) state" where
  "destroy_mutexes e [] = skip"
| "destroy_mutexes e (k # ks) = do {
     a \<leftarrow> gets (\<lambda>s. sends_addr s k);
     sys_do e (C_mutex_destroy a);
     destroy_mutexes e ks }"

text \<open>The clean-up loop \<open>for (i = i - 1; i > 2; --i)\<close> after the failure at \<open>i\<close>.\<close>

definition cleanup_slots :: "nat \<Rightarrow> nat list" where
  "cleanup_slots i = rev [3..<i]"

fun init_mutexes :: "env \<Rightarrow> nat \<Rightarrow> nat \<Rightarrow> (server, bool) state" where
  "init_mutexes e i 0 = ret True"
| "init_mutexes e i (Suc n) = do {
     a \<leftarrow> gets (\<lambda>s. sends_addr s i);
     r \<leftarrow> sys_int e (C_mutex_init a);
     if r \<noteq> 0 then do { destroy_mutexes e (cleanup_slots i); udtcp_free_server e; ret False }
     else init_mutexes e (Suc i) n }"

section \<open>Deleting\<close>

text \<open>The loop over \<open>sends\<close>.\<close>

fun delete_sends :: "env \<Rightarrow> nat list \<Rightarrow> (server, unit) state" where
  "delete_sends e [] = skip"
| "delete_sends e (k # ks) = do {
     sd \<leftarrow> gets (\<lambda>s. sends s ! k);
     (if send_buffer_size sd > 0 then udtcp_free_buffer e (send_buffer sd) else skip);
     a \<leftarrow> gets (\<lambda>s. sends_addr s k);
     sys_do e (C_mutex_destroy a);
     delete_sends e ks }"

text \<open>The loop over the clients.\<close>

fun delete_clients :: "env \<Rightarrow> nat list \<Rightarrow> (server, unit) state" where
  "delete_clients e [] = skip"
| "delete_clients e (k # ks) = do {
     fd \<leftarrow> gets (\<lambda>s. pfd (poll_fds s ! k));
     shutdown_logged e fd;
     close_logged e fd;
     (if fd \<noteq> -1 then call_back disconnect_callback DisconnectCb k [] else skip);
     delete_clients e ks }"

definition udtcp_delete_server :: "env \<Rightarrow> (server, unit) state" where
  "udtcp_delete_server e = do {
     me \<leftarrow> gets (\<lambda>s. infos s ! 0);
     close_logged e (tcp_socket me);
     close_logged e (udp_server_socket me);
     close_logged e (udp_client_socket me);
     delete_sends e [2..<UDTCP_POLL_TABLE_SIZE];
     n \<leftarrow> gets poll_nfds;
     delete_clients e [2..<n];
     s \<leftarrow> gets id;
     (if buffer_size s > 0 then udtcp_free_buffer e (buffer_data s) else skip);
     udtcp_free_server e }"

section \<open>Creating\<close>

text \<open>\<open>memset(server, 0, sizeof(udtcp_server))\<close> on the block at address \<open>p\<close>.  What lies behind \<open>poll_fds\<close> and \<open>infos\<close> is left as
  the state has it.\<close>

definition clear_server :: "int \<Rightarrow> server \<Rightarrow> server" where
  "clear_server p s = \<lparr>hist = hist s, errno = errno s,
     infos = replicate UDTCP_POLL_TABLE_SIZE zero_infos,
     poll_fds = replicate UDTCP_POLL_TABLE_SIZE zero_pollfd, poll_nfds = 0,
     connect_callback = False, disconnect_callback = False, receive_tcp_callback = False,
     receive_udp_callback = False, log_callback = False, poll_loop = 0, is_started = 0,
     buffer_data = None, buffer_size = 0,
     sends = replicate UDTCP_POLL_TABLE_SIZE zero_send, sends_base = word_of_int p + 15856,
     count_id = 0, stray_fd = stray_fd s, stray_infos = stray_infos s\<rparr>"

definition set_poll_fd :: "nat \<Rightarrow> int \<Rightarrow> (server, unit) state" where
  "set_poll_fd i fd = modify (\<lambda>s. s\<lparr>poll_fds := (poll_fds s)[i := (poll_fds s ! i)\<lparr>pfd := fd,
     events := POLLIN\<rparr>], poll_nfds := Suc i\<rparr>)"

definition server_open_sockets :: "env \<Rightarrow> (server, bool) state" where
  "server_open_sockets e = do {
     tcp \<leftarrow> sys_int e (C_socket SOCK_STREAM);
     set_infos 0 (\<lambda>x. x\<lparr>tcp_socket := tcp\<rparr>);
     if tcp < 0 then do {
       destroy_mutexes e [2..<UDTCP_POLL_TABLE_SIZE]; udtcp_free_server e; ret False } else do {
     set_poll_fd 0 tcp;
     us \<leftarrow> sys_int e (C_socket SOCK_DGRAM);
     set_infos 0 (\<lambda>x. x\<lparr>udp_server_socket := us\<rparr>);
     if us < 0 then do {
       destroy_mutexes e [2..<UDTCP_POLL_TABLE_SIZE]; sys_do e (C_close tcp);
       udtcp_free_server e; ret False } else do {
     set_poll_fd 1 us;
     uc \<leftarrow> sys_int e (C_socket SOCK_DGRAM);
     set_infos 0 (\<lambda>x. x\<lparr>udp_client_socket := uc\<rparr>);
     if uc < 0 then do {
       destroy_mutexes e [2..<UDTCP_POLL_TABLE_SIZE]; sys_do e (C_close tcp); sys_do e (C_close us);
       udtcp_free_server e; ret False }
     else ret True } } }"

definition server_bind :: "env \<Rightarrow> u32 \<Rightarrow> u16 \<Rightarrow> u16 \<Rightarrow> u16 \<Rightarrow> (server, bool) state" where
  "server_bind e host_addr port udp_s udp_c = do {
     me \<leftarrow> gets (\<lambda>s. infos s ! 0);
     ok \<leftarrow> bind_named e (tcp_socket me) host_addr port (\<lambda>a x. x\<lparr>tcp_addr := a\<rparr>);
     if \<not> ok then do { udtcp_delete_server e; ret False } else do {
     ok \<leftarrow> bind_named e (udp_server_socket me) host_addr udp_s (\<lambda>a x. x\<lparr>udp_server_addr := a\<rparr>);
     if \<not> ok then do { udtcp_delete_server e; ret False } else do {
     ok \<leftarrow> bind_named e (udp_client_socket me) host_addr udp_c (\<lambda>a x. x\<lparr>udp_client_addr := a\<rparr>);
     if \<not> ok then do { udtcp_delete_server e; ret False } else do {
       set_infos 0 (\<lambda>x. x\<lparr>tcp_port := htons (sin_port (tcp_addr x)),
         udp_server_port := htons (sin_port (udp_server_addr x)),
         udp_client_port := htons (sin_port (udp_client_addr x))\<rparr>);
       ret True } } } }"

definition server_listen :: "env \<Rightarrow> (server, bool) state" where
  "server_listen e = do {
     me \<leftarrow> gets (\<lambda>s. infos s ! 0);
     r \<leftarrow> sys_int e (C_listen (tcp_socket me) 10);
     if r \<noteq> 0 then do { udtcp_delete_server e; ret False } else do {
     r \<leftarrow> udtcp_socket_add_option e (tcp_socket me) O_NONBLOCK;
     if r = -1 then do { udtcp_delete_server e; ret False } else do {
     r \<leftarrow> udtcp_socket_add_option e (udp_server_socket me) O_NONBLOCK;
     if r = -1 then do { udtcp_delete_server e; ret False } else ret True } } }"

definition server_finish :: "env \<Rightarrow> (server, unit) state" where
  "server_finish e = do {
     set_infos 0 (\<lambda>x. x\<lparr>info_id := 0\<rparr>);
     x \<leftarrow> gets (\<lambda>s. infos s ! 0);
     x' \<leftarrow> udtcp_set_string_infos e x (tcp_addr x);
     set_infos 0 (\<lambda>_. x');
     modify (\<lambda>s. s\<lparr>count_id := 1\<rparr>) }"

definition udtcp_create_server ::
    "env \<Rightarrow> byte list \<Rightarrow> u16 \<Rightarrow> u16 \<Rightarrow> u16 \<Rightarrow> (server, int) state" where
  "udtcp_create_server e host port udp_s udp_c = do {
     host_entity \<leftarrow> syscall e (C_gethostbyname host);
     if rv host_entity = 0 then do { set_errno EHOSTUNREACH; ret (-1) } else do {
     p \<leftarrow> udtcp_new_server e;
     if p = 0 then ret (-1) else do {
     modify (clear_server p);
     ok \<leftarrow> init_mutexes e 2 (UDTCP_POLL_TABLE_SIZE - 2);
     if \<not> ok then ret (-1) else do {
     ok \<leftarrow> server_open_sockets e;
     if \<not> ok then ret (-1) else do {
     ok \<leftarrow> server_bind e (host_addr_of host_entity) port udp_s udp_c;
     if \<not> ok then ret (-1) else do {
     ok \<leftarrow> server_listen e;
     if \<not> ok then ret (-1) else do {
       server_finish e;
       ret 0 } } } } } } }"

section \<open>What deleting releases\<close>

lemma frame_server:
  assumes "sys_frame s t"
  shows "sends t = sends s" "sends_addr t k = sends_addr s k" "poll_fds t = poll_fds s"
    "poll_nfds t = poll_nfds s" "infos t = infos s" "buffer_data t = buffer_data s"
    "buffer_size t = buffer_size s" "disconnect_callback t = disconnect_callback s"
proof -
  from assms have eq: "t\<lparr>hist := hist s, errno := errno s\<rparr> = s" by (simp add: sys_frame_def)
  from arg_cong [OF eq, of sends] arg_cong [OF eq, of sends_base]
  show "sends t = sends s" "sends_addr t k = sends_addr s k" by (simp_all add: sends_addr_def)
  from arg_cong [OF eq, of poll_fds] arg_cong [OF eq, of poll_nfds] arg_cong [OF eq, of infos]
    arg_cong [OF eq, of buffer_data] arg_cong [OF eq, of buffer_size]
    arg_cong [OF eq, of disconnect_callback]
  show "poll_fds t = poll_fds s" "poll_nfds t = poll_nfds s" "infos t = infos s"
    "buffer_data t = buffer_data s" "buffer_size t = buffer_size s"
    "disconnect_callback t = disconnect_callback s" by simp_all
qed

lemma server_addr_frame: "sys_frame s t \<Longrightarrow> server_addr t = server_addr s"
  unfolding sys_frame_def by (drule arg_cong [of _ _ sends_base]) (simp add: server_addr_def)

lemma free_server_frame:
  "sys_frame s t \<Longrightarrow> wp (udtcp_free_server e) (\<lambda>_. destructs {#} {#} {#uint (server_addr s)#} t) t"
  using free_server_destructs [of e t] by (simp add: server_addr_frame)

lemma destroy_mutexes_destructs:
  "wp (destroy_mutexes e ks) (\<lambda>_. destructs {#} (mset (map (sends_addr s) ks)) {#} s) s"
proof (induction ks arbitrary: s)
  case (Cons k ks)
  have "wp (destroy_mutexes e ks) (\<lambda>_. destructs {#} (mset (map (sends_addr s) ks)) {#} t) t"
    if "sys_frame s t" for t
    using Cons [of t] frame_server(2) [OF that] by simp
  then show ?case by (auto intro!: wp_bind_gets wp_destructs_bind)
qed simp

lemma delete_sends_destructs:
  "\<forall>k \<in> set ks. sized (sends s ! k) \<Longrightarrow>
   wp (delete_sends e ks) (\<lambda>_. destructs {#} (mset (map (sends_addr s) ks))
     (\<Sum>\<^sub># (mset (map (\<lambda>k. send_block (sends s ! k)) ks))) s) s"
proof (induction ks arbitrary: s)
  case (Cons k ks)
  have rest: "wp (delete_sends e ks) (\<lambda>_. destructs {#} (mset (map (sends_addr s) ks))
      (\<Sum>\<^sub># (mset (map (\<lambda>k. send_block (sends s ! k)) ks))) t) t" if "sys_frame s t" for t
    using Cons.IH [of t] Cons.prems frame_server(1,2) [OF that] by simp
  have free: "wp (if 0 < send_buffer_size (sends s ! k) then udtcp_free_buffer e (send_buffer (sends s ! k)) else skip)
      (\<lambda>_. destructs {#} {#} (send_block (sends s ! k)) s) s"
    using Cons.prems by (cases "send_buffer (sends s ! k)") (auto simp: sized_def send_block_def word_gt_0)
  have tail: "wp (do { a \<leftarrow> gets (\<lambda>s. sends_addr s k); sys_do e (C_mutex_destroy a); delete_sends e ks })
      (\<lambda>_. destructs {#} (mset (map (sends_addr s) (k # ks)))
        (\<Sum>\<^sub># (mset (map (\<lambda>k. send_block (sends s ! k)) ks))) t) t" if "sys_frame s t" for t
    using rest sys_frame_trans [OF that]
    by (intro wp_bind_gets wp_destructs_bind [OF calls_destructs(5)])
      (simp_all add: frame_server(2) [OF that])
  show ?case
    by (simp only: delete_sends.simps, rule wp_bind_gets, rule wp_destructs_bind [OF free tail]) simp_all
qed simp

end
