(* ===== verification/Udtcp_Start_Stop.thy ===== *)
theory Udtcp_Start_Stop
  imports Udtcp_Server_Poll Udtcp_Client
begin

text \<open>
  \<open>client_start_stop.c\<close> and \<open>server_start_stop.c\<close>.  The thread functions are loops over the
  poll functions; \<open>start\<close> and \<open>stop\<close> are first given as the caller sees them, then both
  threads are interleaved at the level of their accesses to \<open>poll_loop\<close> and \<open>is_started\<close>.
\<close>

section \<open>The thread functions\<close>

definition UDTCP_POLL_LOOP_TIMEOUT :: int where
  "UDTCP_POLL_LOOP_TIMEOUT = 180000"

text \<open>\<open>poll_step\<close> is \<open>udtcp_server_poll\<close> or \<open>udtcp_client_poll\<close>; \<open>None\<close> is a thread that
  never leaves its loop.\<close>

partial_function (option) poll_thread_loop ::
    "env \<Rightarrow> ('a peer_scheme \<Rightarrow> (udtcp_poll_e \<times> 'a peer_scheme) option) \<Rightarrow> 'a peer_scheme \<Rightarrow>
     'a peer_scheme option" where
  "poll_thread_loop e poll_step s =
     (if looping e s then
        Option.bind (poll_step s) (\<lambda>(ret_poll, s').
          if ret_poll = UDTCP_POLL_ERROR \<or> ret_poll = UDTCP_POLL_SIGNAL then Some s'
          else poll_thread_loop e poll_step s')
      else Some s)"

definition poll_thread ::
    "env \<Rightarrow> ('a peer_scheme \<Rightarrow> (udtcp_poll_e \<times> 'a peer_scheme) option) \<Rightarrow> 'a peer_scheme \<Rightarrow>
     'a peer_scheme option" where
  "poll_thread e poll_step s =
     Option.bind (poll_thread_loop e poll_step (after_log e UDTCP_LOG_LEVEL_INFO s))
       (\<lambda>s'. Some (after_log e UDTCP_LOG_LEVEL_INFO (s'\<lparr>is_started := 0\<rparr>)))"

definition thread_server_poll :: "env \<Rightarrow> server \<Rightarrow> server option" where
  "thread_server_poll e s = poll_thread e (udtcp_server_poll e UDTCP_POLL_LOOP_TIMEOUT) s"

definition thread_client_poll :: "env \<Rightarrow> client \<Rightarrow> client option" where
  "thread_client_poll e s = poll_thread e (udtcp_client_poll e UDTCP_POLL_LOOP_TIMEOUT) s"

text \<open>\<open>P\<close> holds while the loop goes on, \<open>Q\<close> when it has been left.\<close>

lemma poll_thread_loop_rule:
  assumes "poll_thread_loop e poll_step s = Some y" "P s"
    and "\<And>s. P s \<Longrightarrow> \<not> looping e s \<Longrightarrow> Q s"
    and "\<And>s r s'. P s \<Longrightarrow> poll_step s = Some (r, s') \<Longrightarrow>
      if r = UDTCP_POLL_ERROR \<or> r = UDTCP_POLL_SIGNAL then Q s' else P s'"
  shows "Q y"
  using assms
proof (induction rule: poll_thread_loop.raw_induct [rotated, consumes 1, case_names step])
  case (step loop e poll_step s y)
  show ?case
  proof (cases "looping e s")
    case False
    with step(2-4) show ?thesis by auto
  next
    case True
    then obtain r t where poll: "poll_step s = Some (r, t)"
      and t: "(if r = UDTCP_POLL_ERROR \<or> r = UDTCP_POLL_SIGNAL then Some t else loop e poll_step t) = Some y"
      using step(2) by (auto simp: bind_eq_Some_conv)
    show ?thesis
    proof (cases "r = UDTCP_POLL_ERROR \<or> r = UDTCP_POLL_SIGNAL")
      case True
      with step(5) [OF step(3) poll] t show ?thesis by auto
    next
      case False
      with t have "loop e poll_step t = Some y" by simp
      moreover from False step(5) [OF step(3) poll] have "P t" by simp
      ultimately show ?thesis by (rule step(1)) (rule step(4,5), assumption+)+
    qed
  qed
qed

text \<open>The contract of the poll functions with the thread: an invariant, and, for the end of the
  thread, that they return and leave a trace in the history, in which a stop is seen in time.\<close>

locale polled =
  fixes e :: env
    and poll_step :: "'a peer_scheme \<Rightarrow> (udtcp_poll_e \<times> 'a peer_scheme) option"
    and inv :: "'a peer_scheme \<Rightarrow> bool"
  assumes step: "inv s \<Longrightarrow> poll_step s = Some (r, s') \<Longrightarrow> inv s'"
    and logged: "inv s \<Longrightarrow> inv (after_log e UDTCP_LOG_LEVEL_INFO s)"
    and ended: "inv s \<Longrightarrow> inv (s\<lparr>is_started := 0\<rparr>)"
begin

lemma loop_inv: "poll_thread_loop e poll_step s = Some s' \<Longrightarrow> inv s \<Longrightarrow> inv s'"
  by (rule poll_thread_loop_rule [where P = inv and Q = inv]) (auto intro: step)

lemma thread_inv:
  assumes "poll_thread e poll_step s = Some s'" "inv s"
  shows "inv s' \<and> is_started s' = 0"
  using assms by (auto simp: poll_thread_def bind_eq_Some_conv intro!: logged ended dest: loop_inv)

end

locale polled_finite = polled +
  fixes M :: nat
  assumes returns: "inv s \<Longrightarrow> \<exists>r s'. poll_step s = Some (r, s')"
    and grows: "inv s \<Longrightarrow> poll_step s = Some (r, s') \<Longrightarrow> length (hist s) < length (hist s')"
    and stop_in_time: "inv s \<Longrightarrow> M \<le> length h \<Longrightarrow> stop_seen e h"
begin

lemma loop_ends:
  assumes "inv s"
  shows "\<exists>s'. poll_thread_loop e poll_step s = Some s'"
  using assms
proof (induction "M - length (hist s)" arbitrary: s rule: less_induct)
  case less
  show ?case
  proof (cases "looping e s")
    case False
    then show ?thesis by (subst poll_thread_loop.simps) simp
  next
    case True
    then have small: "length (hist s) < M"
      using stop_in_time [OF less.prems, of "hist s"] by (auto simp: looping_def not_less [symmetric])
    obtain r s' where poll: "poll_step s = Some (r, s')" using returns [OF less.prems] by blast
    from grows [OF less.prems poll] small step [OF less.prems poll]
    have "\<exists>u. poll_thread_loop e poll_step s' = Some u" by (intro less) simp_all
    then show ?thesis using poll by (subst poll_thread_loop.simps) auto
  qed
qed

lemma thread_ends:
  assumes "inv s"
  shows "\<exists>s'. poll_thread e poll_step s = Some s' \<and> is_started s' = 0"
proof -
  obtain u where "poll_thread_loop e poll_step (after_log e UDTCP_LOG_LEVEL_INFO s) = Some u"
    using loop_ends [OF logged [OF assms]] by blast
  then show ?thesis by (simp add: poll_thread_def)
qed

end

section \<open>Starting and stopping\<close>

definition udtcp_start_client :: "env \<Rightarrow> (client, int) state" where
  "udtcp_start_client e = do {
     running \<leftarrow> gets poll_loop;
     if running \<noteq> 0 then do { log_error e; ret (-1) } else do {
       modify (\<lambda>s. s\<lparr>poll_loop := 1, is_started := 1\<rparr>);
       r \<leftarrow> sys_int e C_pthread_create;
       if r \<noteq> 0 then do { modify (\<lambda>s. s\<lparr>poll_loop := 0, is_started := 0\<rparr>); ret (-1) }
       else ret 0 } }"

definition udtcp_start_server :: "env \<Rightarrow> (server, int) state" where
  "udtcp_start_server e = do {
     running \<leftarrow> gets poll_loop;
     if running \<noteq> 0 then do { log_error e; ret (-1) } else do {
       modify (\<lambda>s. s\<lparr>poll_loop := 1\<rparr>);
       r \<leftarrow> sys_int e C_pthread_create;
       if r \<noteq> 0 then do { modify (\<lambda>s. s\<lparr>poll_loop := 0\<rparr>); ret (-1) }
       else do { modify (\<lambda>s. s\<lparr>is_started := 1\<rparr>); ret 0 } } }"

text \<open>The two \<open>stop\<close> functions are the same.\<close>

definition udtcp_stop :: "env \<Rightarrow> ('a peer_scheme, unit) state" where
  "udtcp_stop e = do {
     running \<leftarrow> gets poll_loop;
     if running = 0 then log_error e else do {
       modify (\<lambda>s. s\<lparr>poll_loop := 0\<rparr>);
       sys_do e C_pthread_kill;
       sys_do e C_pthread_join } }"

definition udtcp_stop_client :: "env \<Rightarrow> (client, unit) state" where
  "udtcp_stop_client e = udtcp_stop e"

definition udtcp_stop_server :: "env \<Rightarrow> (server, unit) state" where
  "udtcp_stop_server e = udtcp_stop e"

section \<open>The two threads interleaved\<close>

text \<open>Where the caller of \<open>start\<close> and \<open>stop\<close> is, and where the poll thread is.\<close>

datatype caller_pc =
    Idle          \<comment> \<open>outside, no thread to join\<close>
  | LoopSet       \<comment> \<open>\<open>poll_loop = 1\<close> done, before \<open>pthread_create\<close>\<close>
  | Created       \<comment> \<open>\<open>pthread_create\<close> has succeeded, \<open>start\<close> has not returned\<close>
  | Running       \<comment> \<open>\<open>start\<close> has returned 0\<close>
  | Stopping      \<comment> \<open>\<open>stop\<close> has cleared \<open>poll_loop\<close> and waits in \<open>pthread_join\<close>\<close>

datatype thread_pc =
    NoThread
  | AtTest        \<comment> \<open>before reading \<open>poll_loop\<close>\<close>
  | InPoll
  | Leaving       \<comment> \<open>out of the loop, before \<open>is_started = 0\<close>\<close>
  | Finished

record threads =
  caller :: caller_pc
  thread :: thread_pc
  loop_flag :: bool
  started_flag :: bool

definition threads_init :: threads where
  "threads_init = \<lparr>caller = Idle, thread = NoThread, loop_flag = False, started_flag = False\<rparr>"

datatype side = ClientSide | ServerSide

text \<open>The client sets \<open>is_started\<close> together with \<open>poll_loop\<close>, before the thread exists; the
  server when \<open>pthread_create\<close> has returned.\<close>

inductive thread_step :: "side \<Rightarrow> threads \<Rightarrow> threads \<Rightarrow> bool" for sd where
  start_client: "sd = ClientSide \<Longrightarrow> caller t = Idle \<Longrightarrow> \<not> loop_flag t \<Longrightarrow>
     thread_step sd t (t\<lparr>caller := LoopSet, loop_flag := True, started_flag := True\<rparr>)"
| start_server: "sd = ServerSide \<Longrightarrow> caller t = Idle \<Longrightarrow> \<not> loop_flag t \<Longrightarrow>
     thread_step sd t (t\<lparr>caller := LoopSet, loop_flag := True\<rparr>)"
| create: "caller t = LoopSet \<Longrightarrow> thread_step sd t (t\<lparr>caller := Created, thread := AtTest\<rparr>)"
| create_fails_client: "sd = ClientSide \<Longrightarrow> caller t = LoopSet \<Longrightarrow>
     thread_step sd t (t\<lparr>caller := Idle, loop_flag := False, started_flag := False\<rparr>)"
| create_fails_server: "sd = ServerSide \<Longrightarrow> caller t = LoopSet \<Longrightarrow>
     thread_step sd t (t\<lparr>caller := Idle, loop_flag := False\<rparr>)"
| return_client: "sd = ClientSide \<Longrightarrow> caller t = Created \<Longrightarrow> thread_step sd t (t\<lparr>caller := Running\<rparr>)"
| return_server: "sd = ServerSide \<Longrightarrow> caller t = Created \<Longrightarrow>
     thread_step sd t (t\<lparr>caller := Running, started_flag := True\<rparr>)"
| stop: "caller t = Running \<Longrightarrow> loop_flag t \<Longrightarrow>
     thread_step sd t (t\<lparr>caller := Stopping, loop_flag := False\<rparr>)"
| join: "caller t = Stopping \<Longrightarrow> thread t = Finished \<Longrightarrow>
     thread_step sd t (t\<lparr>caller := Idle, thread := NoThread\<rparr>)"
| test_true: "thread t = AtTest \<Longrightarrow> loop_flag t \<Longrightarrow> thread_step sd t (t\<lparr>thread := InPoll\<rparr>)"
| test_false: "thread t = AtTest \<Longrightarrow> \<not> loop_flag t \<Longrightarrow> thread_step sd t (t\<lparr>thread := Leaving\<rparr>)"
| poll_again: "thread t = InPoll \<Longrightarrow> thread_step sd t (t\<lparr>thread := AtTest\<rparr>)"
| poll_breaks: "thread t = InPoll \<Longrightarrow> thread_step sd t (t\<lparr>thread := Leaving\<rparr>)"
| leave: "thread t = Leaving \<Longrightarrow> thread_step sd t (t\<lparr>thread := Finished, started_flag := False\<rparr>)"

inductive_cases thread_stepE: "thread_step sd t t'"

definition threads_reachable :: "side \<Rightarrow> threads \<Rightarrow> bool" where
  "threads_reachable sd t \<longleftrightarrow> (thread_step sd)\<^sup>*\<^sup>* threads_init t"

section \<open>What holds in every reachable state\<close>

text \<open>The caller's position determines whether there is a thread; a client's flag is set exactly
  while the thread exists or is about to.\<close>

definition threads_inv :: "side \<Rightarrow> threads \<Rightarrow> bool" where
  "threads_inv sd t \<longleftrightarrow>
     (thread t = NoThread \<longleftrightarrow> caller t = Idle \<or> caller t = LoopSet) \<and>
     (loop_flag t \<longleftrightarrow> caller t \<in> {LoopSet, Created, Running}) \<and>
     (sd = ClientSide \<longrightarrow> (started_flag t \<longleftrightarrow>
        caller t = LoopSet \<or> thread t \<in> {AtTest, InPoll, Leaving}))"

lemma threads_inv_init: "threads_inv sd threads_init"
  by (simp add: threads_inv_def threads_init_def)

lemma threads_inv_step: "thread_step sd t t' \<Longrightarrow> threads_inv sd t \<Longrightarrow> threads_inv sd t'"
  by (induction rule: thread_step.induct) (auto simp: threads_inv_def)

lemma threads_inv_reachable: "threads_reachable sd t \<Longrightarrow> threads_inv sd t"
  unfolding threads_reachable_def
  by (induction rule: rtranclp_induct) (blast intro: threads_inv_init threads_inv_step)+

end
