(* ===== verification/Udtcp_Example.thy ===== *)
theory Udtcp_Example
  imports Udtcp_Server_Safety Udtcp_Server_Lifecycle Udtcp_Start_Stop Udtcp_Stream
begin

text \<open>
  Concrete environments and states, on which the general statements are instantiated: a system
  whose calls all succeed with empty results, one that delivers a stream in pieces of four
  bytes, a server with no clients, a client that is not connected.
\<close>

section \<open>Environments\<close>

definition ok_reply :: reply where
  "ok_reply = \<lparr>rv = 0, err = 0, payload = [], from_addr = zero_sockaddr, revs = [], h_name = []\<rparr>"

definition mk_env :: "(event list \<Rightarrow> call \<Rightarrow> reply) \<Rightarrow> env" where
  "mk_env f = \<lparr>os = f, stop_seen = (\<lambda>_. False), log_build = None\<rparr>"

lemma mk_env_simps [simp]:
  "os (mk_env f) = f" "stop_seen (mk_env f) h = False" "log_build (mk_env f) = None"
  by (simp_all add: mk_env_def)

text \<open>Everything fails as on a system with no descriptors, no data and no memory.\<close>

definition dead_env :: env where
  "dead_env = mk_env (\<lambda>_ c. case c of
      C_malloc _ \<Rightarrow> ok_reply
    | C_new_client \<Rightarrow> ok_reply
    | C_new_server \<Rightarrow> ok_reply
    | C_gethostbyname _ \<Rightarrow> ok_reply
    | C_gethostbyaddr _ \<Rightarrow> ok_reply
    | _ \<Rightarrow> ok_reply\<lparr>rv := -1, err := EWOULDBLOCK\<rparr>)"

text \<open>One readable entry after another, nothing to read: \<open>poll\<close> reports the table ready, every
  \<open>accept\<close>, \<open>recv\<close> and \<open>recvfrom\<close> would block.\<close>

definition idle_env :: env where
  "idle_env = mk_env (\<lambda>_ c. case c of
      C_poll fds _ \<Rightarrow> ok_reply\<lparr>rv := int (length fds), revs := map (\<lambda>_. POLLIN) fds\<rparr>
    | C_accept _ \<Rightarrow> ok_reply\<lparr>rv := -1, err := EWOULDBLOCK\<rparr>
    | C_recv _ _ \<Rightarrow> ok_reply\<lparr>rv := -1, err := EWOULDBLOCK\<rparr>
    | C_recvfrom _ _ _ \<Rightarrow> ok_reply\<lparr>rv := -1, err := EWOULDBLOCK\<rparr>
    | C_malloc n \<Rightarrow> ok_reply\<lparr>rv := 4096\<rparr>
    | _ \<Rightarrow> ok_reply)"

text \<open>The stream \<open>bs\<close> on descriptor \<open>fd\<close>, four bytes at a time.\<close>

definition stream_env :: "int \<Rightarrow> byte list \<Rightarrow> env" where
  "stream_env fd bs = mk_env (\<lambda>h c. case c of
      C_recv fd' n \<Rightarrow> if fd' = fd then ok_reply\<lparr>payload := take 4 (drop (consumed fd h) bs)\<rparr>
        else ok_reply\<lparr>rv := -1, err := EWOULDBLOCK\<rparr>
    | C_poll _ _ \<Rightarrow> ok_reply\<lparr>rv := 1, revs := [POLLIN]\<rparr>
    | C_malloc n \<Rightarrow> ok_reply\<lparr>rv := 4096\<rparr>
    | C_send _ d \<Rightarrow> ok_reply\<lparr>rv := int (length d)\<rparr>
    | C_sendto _ d _ \<Rightarrow> ok_reply\<lparr>rv := int (length d)\<rparr>
    | _ \<Rightarrow> ok_reply)"

lemma take_min_drop: "take (min (length bs - c) k) (drop c bs) = take k (drop c bs)"
  by (simp add: min_def)

lemma stream_env_delivers: "delivers (stream_env fd bs) fd bs"
  unfolding delivers_def by (auto simp: stream_env_def recv_result_def ok_reply_def Let_def
      take_min_drop)

lemma stream_env_whole_header:
  "4 \<le> length bs - consumed fd h \<Longrightarrow> whole_header (stream_env fd bs) fd h"
  by (simp add: whole_header_def stream_env_def recv_result_def ok_reply_def)

section \<open>States\<close>

definition blank_client :: client where
  "blank_client = \<lparr>hist = [], errno = 0, infos = [zero_infos, zero_infos],
     poll_fds = [zero_pollfd, zero_pollfd], poll_nfds = 2, connect_callback = True,
     disconnect_callback = True, receive_tcp_callback = True, receive_udp_callback = True,
     log_callback = False, poll_loop = 1, is_started = 0, buffer_data = None, buffer_size = 0,
     csend = zero_send, send_addr = 0\<rparr>"

text \<open>A server with sockets 3, 4 and 5 and no clients.\<close>

definition blank_server :: server where
  "blank_server = \<lparr>hist = [], errno = 0,
     infos = (replicate UDTCP_POLL_TABLE_SIZE zero_infos)[0 := zero_infos\<lparr>tcp_socket := 3,
       udp_server_socket := 4, udp_client_socket := 5\<rparr>],
     poll_fds = replicate UDTCP_POLL_TABLE_SIZE zero_pollfd, poll_nfds = 2,
     connect_callback = True, disconnect_callback = True, receive_tcp_callback = True,
     receive_udp_callback = True, log_callback = False, poll_loop = 1, is_started = 0,
     buffer_data = None, buffer_size = 0,
     sends = replicate UDTCP_POLL_TABLE_SIZE zero_send, sends_base = 0, count_id = 1,
     stray_fd = zero_pollfd, stray_infos = zero_infos\<rparr>"

lemma zero_fields [simp]:
  "tcp_socket zero_infos = 0" "udp_server_socket zero_infos = 0" "udp_client_socket zero_infos = 0"
  "send_ptr zero_infos = 0" "tcp_addr zero_infos = zero_sockaddr" "info_id zero_infos = 0"
  "udp_server_addr zero_infos = zero_sockaddr" "udp_client_addr zero_infos = zero_sockaddr"
  "send_buffer zero_send = None" "send_buffer_size zero_send = 0"
  "pfd zero_pollfd = 0" "events zero_pollfd = 0" "revents zero_pollfd = 0"
  by (simp_all add: zero_infos_def zero_send_def zero_pollfd_def)

lemma blank_client_fields [simp]:
  "hist blank_client = []" "errno blank_client = 0" "infos blank_client = [zero_infos, zero_infos]"
  "poll_fds blank_client = [zero_pollfd, zero_pollfd]" "poll_nfds blank_client = 2"
  "receive_tcp_callback blank_client" "receive_udp_callback blank_client"
  "connect_callback blank_client" "disconnect_callback blank_client" "\<not> log_callback blank_client"
  "poll_loop blank_client = 1" "buffer_data blank_client = None" "buffer_size blank_client = 0"
  "csend blank_client = zero_send" "send_addr blank_client = 0"
  by (simp_all add: blank_client_def)

lemma blank_server_fields [simp]:
  "hist blank_server = []" "errno blank_server = 0" "poll_nfds blank_server = 2"
  "receive_tcp_callback blank_server" "receive_udp_callback blank_server"
  "connect_callback blank_server" "disconnect_callback blank_server" "\<not> log_callback blank_server"
  "poll_loop blank_server = 1" "buffer_data blank_server = None" "buffer_size blank_server = 0"
  "count_id blank_server = 1" "sends_base blank_server = 0"
  "tcp_socket (infos blank_server ! 0) = 3" "udp_server_socket (infos blank_server ! 0) = 4"
  "udp_client_socket (infos blank_server ! 0) = 5" "infos blank_server ! 2 = zero_infos"
  "length (infos blank_server) = UDTCP_POLL_TABLE_SIZE"
  "length (poll_fds blank_server) = UDTCP_POLL_TABLE_SIZE"
  "i < UDTCP_POLL_TABLE_SIZE \<Longrightarrow> poll_fds blank_server ! i = zero_pollfd"
  using table_size_gt_2 by (simp_all add: blank_server_def)

lemma blank_client_ok:
  "client_wf blank_client" "buffer_ok blank_client" "heap_balanced {#} blank_client"
  by (simp_all add: client_wf_def buffer_ok_def heap_balanced_def buffer_block_def)

lemma blank_server_ok:
  "server_inv blank_server" "ids_inv blank_server" "buffer_ok blank_server"
  "heap_balanced {#} blank_server"
  "unat (count_id blank_server) + UDTCP_POLL_TABLE_SIZE < 2 ^ 64"
  using table_size_gt_2
  by (auto simp: server_inv_def server_wf_def blank_server_def ids_inv_def ids_def clients_def
      buffer_ok_def heap_balanced_def buffer_block_def UDTCP_POLL_TABLE_SIZE_def
      UDTCP_MAX_CONNECTION_def)

lemma blank_server_wf: "server_wf blank_server"
  using blank_server_ok(1) by (simp add: server_inv_def)

lemma idle_env_ok: "polite idle_env" "runs_dry idle_env 0"
  by (auto simp: polite_def udp_sizes_fit_def handshake_fits_def names_fit_def runs_dry_def
      idle_env_def ok_reply_def c_string_def)

end
