(* ===== verification/Udtcp_Claims_Conversation.thy ===== *)
theory Udtcp_Claims_Conversation
  imports Udtcp_Datagrams Udtcp_Example
begin

text \<open>
  The properties of conversations: what one side has sent with \<open>udtcp_send_tcp\<close> or \<open>udtcp_send_udp\<close>,
  message by message, is what a poll of the other side hands to its callback.
\<close>


text \<open>A connection over which \<open>bs\<close> arrives, four bytes at a time, and a poll that answers \<open>vs\<close>.\<close>

definition conversation_env :: "int \<Rightarrow> byte list \<Rightarrow> u16 list \<Rightarrow> env" where
  "conversation_env fd bs vs = mk_env (\<lambda>h c. case c of
      C_recv fd' n \<Rightarrow> if fd' = fd \<and> consumed fd h < length bs
        then ok_reply\<lparr>payload := take 4 (drop (consumed fd h) bs)\<rparr>
        else ok_reply\<lparr>rv := -1, err := EWOULDBLOCK\<rparr>
    | C_poll _ _ \<Rightarrow> ok_reply\<lparr>rv := 1, revs := vs\<rparr>
    | C_malloc n \<Rightarrow> ok_reply\<lparr>rv := 4096\<rparr>
    | _ \<Rightarrow> ok_reply)"

lemma conversation_channel: "channel (conversation_env fd bs vs) fd bs"
  unfolding channel_def delivers_def whole_header_def
  by (auto simp: conversation_env_def recv_result_def ok_reply_def Let_def take_min_drop)

lemma conversation_sent:
  obtains sd' t' where "run_state (send_all (stream_env 0 []) zero_infos zero_send [[1, 2, 3], [4]]) blank_client =
      ((all_sent [[1, 2, 3], [4]], sd'), t')" "sent_on 0 (hist blank_client) = []"
  by (simp add: udtcp_send_tcp_def sys_defs run_syscall stream_env_def ok_reply_def buffer_copy_def all_sent_def
        grow_send_buffer_def udtcp_new_buffer_def zero_send_def write_block_def frame_out_def overlay_def)




text \<open>C27. A conversation over UDP: whatever the network does to the datagrams of a list of messages, lose,
  repeat or reorder them, one \<open>udtcp_server_poll\<close> that finds the UDP socket readable calls
  \<open>receive_udp_callback\<close> once for each datagram in the queue, in its order, with exactly one of the
  messages that were sent and in the name of the client it came from, and returns success with the
  table as it was, without undefined behaviour or lost memory.\<close>

theorem server_receives_datagrams:
  assumes "send_ok sd" "list_all fits_datagram ds"
    and "run_state (send_all_udp e x sd ds) t = ((rs, sd'), t')"
    and "datagram_queue e' fd q" "taken fd (hist s) \<le> length q" "pending = drop (taken fd (hist s)) q"
    and "snd ` set pending \<subseteq> (\<lambda>p. fst (snd p)) ` set (drop (length (datagrams (hist t))) (datagrams (hist t')))"
    and "\<forall>p \<in> set pending. udtcp_get_infos (fst p) s \<noteq> None"
    and "udp_sizes_fit e'" "hearing e' K fd s" "only_ready e' 1 timeout s"
  shows "\<exists>ms s'. set ms \<subseteq> set ds \<and> length ms = length pending \<and> pending = map2 (\<lambda>p d. (fst p, frame d)) pending ms \<and>
    udtcp_server_poll e' timeout s = Some (UDTCP_POLL_SUCCESS, s') \<and> heard_all K pending ms s s'"
proof -
  obtain xs where "set xs \<subseteq> set ds"
    "datagrams (hist t') = datagrams (hist t) @ map (\<lambda>d. (udp_server_socket x, frame d, udp_server_addr x)) xs"
    using send_all_udp_datagrams [OF assms(1-3)] by blast
  with assms(7) have "snd ` set pending \<subseteq> frame ` set ds" by (auto simp: image_image)
  then obtain ms where ms: "length ms = length pending" "set ms \<subseteq> set ds"
    "pending = map2 (\<lambda>p d. (fst p, frame d)) pending ms" by (rule queue_messages)
  with assms(2) have "list_all fits_datagram ms" by (auto simp: list_all_iff)
  with server_poll_datagrams [OF assms(4,9-11,5) _ ms(1) _ assms(8)] ms assms(6) show ?thesis by blast
qed

text \<open>A socket with the queue \<open>q\<close>.\<close>

definition queue_env :: "int \<Rightarrow> (sockaddr_in \<times> byte list) list \<Rightarrow> u16 list \<Rightarrow> env" where
  "queue_env fd q vs = mk_env (\<lambda>h c. case c of
      C_recvfrom _ _ _ \<Rightarrow> if taken fd h < length q
        then ok_reply\<lparr>payload := snd (q ! taken fd h), from_addr := fst (q ! taken fd h)\<rparr>
        else ok_reply\<lparr>rv := -1, err := EWOULDBLOCK\<rparr>
    | C_poll _ _ \<Rightarrow> ok_reply\<lparr>rv := 1, revs := vs\<rparr>
    | C_malloc n \<Rightarrow> ok_reply\<lparr>rv := 4096\<rparr>
    | _ \<Rightarrow> ok_reply)"

lemma queue_env_queue: "datagram_queue (queue_env fd q vs) fd q"
  by (auto simp: datagram_queue_def queue_env_def recv_result_def ok_reply_def Let_def)

lemma queue_env_sizes:
  assumes "\<And>p. p \<in> set q \<Longrightarrow> \<exists>d. snd p = frame d \<and> length d + 4 < 2 ^ 31"
  shows "udp_sizes_fit (queue_env fd q vs)"
proof -
  have small: "unat (u32_of_bytes (take 4 (snd (q ! k)))) + 4 < 2 ^ 32" if "k < length q" for k
  proof -
    have "q ! k \<in> set q" using that by simp
    then obtain d where d: "snd (q ! k) = frame d" "length d + 4 < 2 ^ 31" using assms by blast
    then show ?thesis by (simp add: frame_def unat_of_nat)
  qed
  then show ?thesis by (simp add: udp_sizes_fit_def queue_env_def ok_reply_def)
qed

definition udp_server :: server where
  "udp_server = blank_server\<lparr>poll_nfds := 3, poll_fds := (poll_fds blank_server)[1 := zero_pollfd\<lparr>pfd := 4\<rparr>]\<rparr>"

text \<open>Two messages are sent; the second arrives twice, and first.\<close>

lemma server_receives_datagrams_witness:
  "\<exists>rs sd' t' s'. run_state (send_all_udp (stream_env 0 []) zero_infos zero_send [[1, 2, 3], [4]]) blank_client =
      ((rs, sd'), t') \<and>
    udtcp_server_poll (queue_env 4 [(zero_sockaddr, frame [4]), (zero_sockaddr, frame [1, 2, 3]), (zero_sockaddr, frame [4])]
      [0, POLLIN, 0]) 0 udp_server = Some (UDTCP_POLL_SUCCESS, s') \<and> length (callbacks (hist s')) = 3"
proof -
  let ?ds = "[[1, 2, 3], [4]] :: byte list list" and ?s = udp_server
  let ?q = "[(zero_sockaddr, frame [4]), (zero_sockaddr, frame [1, 2, 3]), (zero_sockaddr, frame [4])]"
  let ?e = "queue_env 4 ?q [0, POLLIN, 0]"
  obtain rs sd' t' where send: "run_state (send_all_udp (stream_env 0 []) zero_infos zero_send ?ds) blank_client =
      ((rs, sd'), t')" "frame [4] \<in> (\<lambda>p. fst (snd p)) ` set (datagrams (hist t'))"
      "frame [1, 2, 3] \<in> (\<lambda>p. fst (snd p)) ` set (datagrams (hist t'))"
    by (simp add: udtcp_send_udp_def sys_defs run_syscall stream_env_def ok_reply_def buffer_copy_def
        grow_send_buffer_def udtcp_new_buffer_def zero_send_def write_block_def frame_out_def overlay_def frame_def)
  have fits: "list_all fits_datagram ?ds" by (simp add: fits_datagram_def)
  have sizes: "udp_sizes_fit ?e" by (rule queue_env_sizes) (auto intro: exI [of _ "[4]"] exI [of _ "[1, 2, 3]"])
  have s: "hist ?s = []" "infos ?s = infos blank_server" "poll_nfds ?s = 3" "pfd (poll_fds ?s ! 1) = 4"
    "length (poll_fds ?s) = UDTCP_POLL_TABLE_SIZE"
    using table_size_gt_2 by (simp_all add: udp_server_def)
  have ready: "only_ready ?e 1 0 ?s"
    by (simp add: only_ready_def queue_env_def ok_reply_def s numeral_3_eq_3)
  have hear: "hearing ?e {#} 4 ?s"
    using blank_server_ok(3,4) table_size_gt_2 s
    by (simp add: hearing_def queue_env_def udp_server_def buffer_ok_def heap_balanced_def buffer_block_def)
  have known: "udtcp_get_infos zero_sockaddr ?s = Some 2" by (simp add: udtcp_get_infos_def s upt_rec)
  have "\<exists>ms s'. set ms \<subseteq> set ?ds \<and> length ms = length ?q \<and> ?q = map2 (\<lambda>p d. (fst p, frame d)) ?q ms \<and>
    udtcp_server_poll ?e 0 ?s = Some (UDTCP_POLL_SUCCESS, s') \<and> heard_all {#} ?q ms ?s s'"
    by (rule server_receives_datagrams [OF send_ok_zero fits send(1) queue_env_queue _ _ _ _ sizes hear ready])
      (use send(2,3) s(1) known in simp_all)
  with send(1) s(1) show ?thesis by (auto simp: heard_all_def)
qed

end
