(* ===== verification/Udtcp_Concurrent_Send.thy ===== *)
theory Udtcp_Concurrent_Send
  imports Udtcp_Send
begin

text \<open>
  Threads that call \<open>udtcp_send_tcp\<close> and \<open>udtcp_send_udp\<close> at the same time on structures that share
  one send structure \<open>*infos->send\<close>: its mutex and its buffer.  The statements of the two functions
  and of \<open>buffer_copy\<close> are steps, interleaved in any order.  Every such run is equivalent to one in which the calls are
  made one after the other, in the order in which they got the mutex.
\<close>

section \<open>The statements\<close>

text \<open>Where a caller is in the function it has called; the new buffer of \<open>buffer_copy\<close> is its local variable.\<close>

datatype send_pc =
    AtLock
  | AtTest
  | AtFree block
  | AtInstall block
  | AtSize
  | AtData
  | AtSend
  | AtUnlock
  | Returned

record sender =
  snd_udp :: bool
  snd_infos :: udtcp_infos
  snd_data :: "byte list"
  snd_size :: u32
  snd_at :: send_pc

text \<open>What a call of \<open>send\<close> or \<open>sendto\<close> is given: the descriptor, the address of \<open>sendto\<close>, the bytes.\<close>

type_synonym net_write = "int \<times> sockaddr_in option \<times> byte list"

definition packet :: "sender \<Rightarrow> byte list \<Rightarrow> net_write" where
  "packet x bs = (if snd_udp x then (udp_server_socket (snd_infos x), Some (udp_server_addr (snd_infos x)), bs)
     else (tcp_socket (snd_infos x), None, bs))"

text \<open>\<open>wire\<close>: what the kernel has taken, call by call; \<open>wild\<close>: a \<open>memcpy\<close> went wrong.  A buffer that
  is freed and not yet replaced is \<open>None\<close>: no thread may use it.\<close>

record sending =
  senders :: "sender list"
  owner :: "nat option"
  shared :: udtcp_send
  wire :: "net_write list"
  wild :: bool

definition moved :: "nat \<Rightarrow> send_pc \<Rightarrow> sending \<Rightarrow> sending" where
  "moved i p S = S\<lparr>senders := (senders S)[i := (senders S ! i)\<lparr>snd_at := p\<rparr>]\<rparr>"

definition at_pc :: "sending \<Rightarrow> nat \<Rightarrow> send_pc \<Rightarrow> bool" where
  "at_pc S i p \<longleftrightarrow> i < length (senders S) \<and> snd_at (senders S ! i) = p"

text \<open>\<open>memcpy\<close> to \<open>p\<close> in \<open>b\<close> when there is room for it.\<close>

definition put_bytes :: "block option \<Rightarrow> nat option \<Rightarrow> byte list \<Rightarrow> block option" where
  "put_bytes b p d = (case (b, p) of
     (Some k, Some off) \<Rightarrow> if off + length d \<le> length (block_bytes k)
       then Some (k\<lparr>block_bytes := overlay off d (block_bytes k)\<rparr>) else None
   | _ \<Rightarrow> None)"

inductive send_step :: "sending \<Rightarrow> sending \<Rightarrow> bool" where
  lock: "at_pc S i AtLock \<Longrightarrow> owner S = None \<Longrightarrow> send_step S (moved i AtTest (S\<lparr>owner := Some i\<rparr>))"
| lock_fails: "at_pc S i AtLock \<Longrightarrow> send_step S (moved i Returned S)"
| enough: "at_pc S i AtTest \<Longrightarrow> \<not> send_buffer_size (shared S) < snd_size (senders S ! i) \<Longrightarrow>
    send_step S (moved i AtSize S)"
| no_memory: "at_pc S i AtTest \<Longrightarrow> send_buffer_size (shared S) < snd_size (senders S ! i) \<Longrightarrow>
    send_step S (moved i AtUnlock S)"
| allocate: "at_pc S i AtTest \<Longrightarrow> send_buffer_size (shared S) < snd_size (senders S ! i) \<Longrightarrow>
    length (block_bytes b) = unat (of_nat (unat (snd_size (senders S ! i)) + 4) :: u32) \<Longrightarrow>
    block_addr b \<noteq> 0 \<Longrightarrow> send_step S (moved i (AtFree b) S)"
| free: "at_pc S i (AtFree b) \<Longrightarrow>
    send_step S (moved i (AtInstall b) (S\<lparr>shared := (shared S)\<lparr>send_buffer := None\<rparr>\<rparr>))"
| install: "at_pc S i (AtInstall b) \<Longrightarrow>
    send_step S (moved i AtSize (S\<lparr>shared := (shared S)\<lparr>send_buffer := Some b,
      send_buffer_size := snd_size (senders S ! i), size_offset := Some 0, payload_offset := Some 4\<rparr>\<rparr>))"
| copy_size: "at_pc S i AtSize \<Longrightarrow>
    put_bytes (send_buffer (shared S)) (size_offset (shared S)) (u32_bytes (snd_size (senders S ! i))) = Some b \<Longrightarrow>
    send_step S (moved i AtData (S\<lparr>shared := (shared S)\<lparr>send_buffer := Some b\<rparr>\<rparr>))"
| copy_data: "at_pc S i AtData \<Longrightarrow>
    put_bytes (send_buffer (shared S)) (payload_offset (shared S))
      (take (unat (snd_size (senders S ! i))) (snd_data (senders S ! i))) = Some b \<Longrightarrow>
    send_step S (moved i AtSend (S\<lparr>shared := (shared S)\<lparr>send_buffer := Some b\<rparr>\<rparr>))"
| copy_wild: "at_pc S i p \<Longrightarrow>
    p = AtSize \<and> put_bytes (send_buffer (shared S)) (size_offset (shared S)) (u32_bytes (snd_size (senders S ! i))) = None \<or>
    p = AtData \<and> put_bytes (send_buffer (shared S)) (payload_offset (shared S))
      (take (unat (snd_size (senders S ! i))) (snd_data (senders S ! i))) = None \<Longrightarrow>
    send_step S (S\<lparr>wild := True\<rparr>)"
| send: "at_pc S i AtSend \<Longrightarrow>
    send_step S (moved i AtUnlock (S\<lparr>wire := wire S @ [packet (senders S ! i)
      (take k (frame_out (shared S) (snd_size (senders S ! i))))]\<rparr>))"
| send_fails: "at_pc S i AtSend \<Longrightarrow> send_step S (moved i AtUnlock S)"
| unlock: "at_pc S i AtUnlock \<Longrightarrow> send_step S (moved i Returned (S\<lparr>owner := None\<rparr>))"

inductive_cases send_stepE: "send_step S S'"

section \<open>A call on its own\<close>

text \<open>What \<open>send\<close> and \<open>sendto\<close> hand to the kernel, in a history.\<close>

fun event_write :: "event \<Rightarrow> net_write list" where
  "event_write (Ev (C_send fd bs) r) = (if 0 \<le> rv r then [(fd, None, take (nat (rv r)) bs)] else [])"
| "event_write (Ev (C_sendto fd bs a) r) = (if 0 \<le> rv r then [(fd, Some a, take (nat (rv r)) bs)] else [])"
| "event_write _ = []"

definition writes :: "event list \<Rightarrow> net_write list" where
  "writes h = concat (map event_write h)"

lemma writes_simps [simp]: "writes [] = []" "writes (h @ h') = writes h @ writes h'"
  "writes (ev # h) = event_write ev @ writes h"
  by (simp_all add: writes_def)

text \<open>The call of the caller.\<close>

definition send_call :: "sender \<Rightarrow> env \<Rightarrow> udtcp_send \<Rightarrow> ('a sys_scheme, int \<times> udtcp_send) state" where
  "send_call x e sd = (if snd_udp x then udtcp_send_udp else udtcp_send_tcp) e (snd_infos x) sd (snd_data x) (snd_size x)"

text \<open>Some run of the call turns \<open>sd\<close> into \<open>sd'\<close> and writes \<open>w\<close>.\<close>

definition sends_alone :: "sender \<Rightarrow> udtcp_send \<Rightarrow> udtcp_send \<Rightarrow> net_write list \<Rightarrow> bool" where
  "sends_alone x sd sd' w \<longleftrightarrow> (\<exists>e (s :: sys) r s'.
     run_state (send_call x e sd) s = ((r, sd'), s') \<and>
     writes (hist s') = writes (hist s) @ w)"

text \<open>The callers of the list \<open>js\<close> one after the other.\<close>

inductive in_turn :: "sender list \<Rightarrow> udtcp_send \<Rightarrow> nat list \<Rightarrow> udtcp_send \<Rightarrow> net_write list \<Rightarrow> bool"
  for xs sd0 where
  nobody: "in_turn xs sd0 [] sd0 []"
| turn: "in_turn xs sd0 js sd w \<Longrightarrow> i < length xs \<Longrightarrow> i \<notin> set js \<Longrightarrow> sends_alone (xs ! i) sd sd' v \<Longrightarrow>
    in_turn xs sd0 (js @ [i]) sd' (w @ v)"

text \<open>A message with a size that can be sent.\<close>

definition proper :: "sender \<Rightarrow> bool" where
  "proper x \<longleftrightarrow> length (snd_data x) = unat (snd_size x) \<and> unat (snd_size x) + 4 < 2 ^ 32 \<and> snd_size x \<noteq> 0"

lemma proper_sendable: "proper x \<Longrightarrow> sendable sd (snd_size x)"
  by (simp add: proper_def sendable_def)

text \<open>An environment that answers \<open>malloc\<close> with \<open>rm\<close>, \<open>send\<close> and \<open>sendto\<close> with \<open>rs\<close> and \<open>pthread_mutex_lock\<close> with
  \<open>rl\<close>.\<close>

definition call_env :: "reply \<Rightarrow> reply \<Rightarrow> reply \<Rightarrow> env" where
  "call_env rl rm rs = \<lparr>os = (\<lambda>_ c. case c of C_malloc _ \<Rightarrow> rm | C_send _ _ \<Rightarrow> rs | C_sendto _ _ _ \<Rightarrow> rs | _ \<Rightarrow> rl),
     stop_seen = (\<lambda>_. False), log_build = None\<rparr>"

definition plain_reply :: "int \<Rightarrow> reply" where
  "plain_reply v = \<lparr>rv = v, err = 0, payload = [], from_addr = zero_sockaddr, revs = [], h_name = []\<rparr>"

lemma put_bytes_write: "put_bytes b p d = Some k \<Longrightarrow> run_state (write_block b p d) s = (Some k, s)"
  by (auto simp: put_bytes_def write_block_def split: option.splits if_splits)

text \<open>\<open>buffer_copy\<close> up to the copies, when \<open>malloc\<close> answers \<open>rm\<close>.\<close>

definition grown_to :: "reply \<Rightarrow> udtcp_send \<Rightarrow> u32 \<Rightarrow> udtcp_send \<Rightarrow> bool" where
  "grown_to rm sd n t \<longleftrightarrow> (\<forall>rs (s :: sys). \<exists>s'. run_state (grow_send_buffer (call_env (plain_reply 0) rm rs) sd n) s = (Some t, s') \<and>
     writes (hist s') = writes (hist s))"

lemma grown_to_enough: "\<not> send_buffer_size sd < n \<Longrightarrow> grown_to rm sd n sd"
  by (simp add: grown_to_def grow_send_buffer_def)

lemma grown_to_block:
  assumes "send_buffer_size sd < n" "length (block_bytes b) = unat (of_nat (unat n + 4) :: u32)" "block_addr b \<noteq> 0"
  shows "grown_to ((plain_reply (block_addr b))\<lparr>payload := block_bytes b\<rparr>) sd n
    (sd\<lparr>send_buffer := Some b, send_buffer_size := n, size_offset := Some 0, payload_offset := Some 4\<rparr>)"
proof -
  have "fit (unat (of_nat (unat n + 4) :: u32)) (block_bytes b) = block_bytes b"
    using assms(2) by (simp add: fit_def)
  then show ?thesis
    using assms(1,3)
    by (auto simp: grown_to_def grow_send_buffer_def udtcp_new_buffer_def udtcp_free_buffer_def run_syscall
        sys_do_def call_env_def plain_reply_def simp del: of_nat_add)
qed

lemmas send_call_defs = send_call_def packet_def udtcp_send_tcp_def udtcp_send_udp_def

lemma send_call_at [simp]:
  "send_call (x\<lparr>snd_at := p\<rparr>) = send_call x" "packet (x\<lparr>snd_at := p\<rparr>) = packet x"
  "sends_alone (x\<lparr>snd_at := p\<rparr>) = sends_alone x"
  by (simp_all add: send_call_def packet_def sends_alone_def fun_eq_iff)

lemma alone_lock_fails: "sends_alone x sd sd []"
  unfolding sends_alone_def
  by (rule exI [of _ "call_env (plain_reply 1) (plain_reply 0) (plain_reply 0)"])
    (simp add: send_call_defs sys_int_def run_syscall call_env_def plain_reply_def)

lemma alone_copied:
  assumes g: "grown_to rm sd (snd_size x) t"
    and p: "put_bytes (send_buffer t) (size_offset t) (u32_bytes (snd_size x)) = Some b"
      "put_bytes (Some b) (payload_offset t) (take (unat (snd_size x)) (snd_data x)) = Some b'"
  shows "sends_alone x sd (t\<lparr>send_buffer := Some b'\<rparr>)
      [packet x (take k (frame_out (t\<lparr>send_buffer := Some b'\<rparr>) (snd_size x)))]"
    "sends_alone x sd (t\<lparr>send_buffer := Some b'\<rparr>) []"
proof -
  let ?lock = "C_mutex_lock (send_ptr (snd_infos x))"
  let ?e = "call_env (plain_reply 0) rm"
  let ?sd' = "t\<lparr>send_buffer := Some b'\<rparr>"
  let ?s1 = "\<lambda>rs. \<lparr>hist = [Ev ?lock (plain_reply 0)], errno = 0\<rparr> :: sys"
  have copy: "\<exists>s2. run_state (buffer_copy (?e rs) sd (snd_data x) (snd_size x)) (?s1 rs) = ((0, ?sd'), s2) \<and>
      writes (hist s2) = []" for rs :: reply
  proof -
    obtain s2 where "run_state (grow_send_buffer (?e rs) sd (snd_size x)) (?s1 rs) = (Some t, s2)"
      "writes (hist s2) = writes (hist (?s1 rs))" using g unfolding grown_to_def by blast
    then show ?thesis by (simp add: buffer_copy_def put_bytes_write [OF p(1)] put_bytes_write [OF p(2)])
  qed
  have run: "sends_alone x sd ?sd' (if 0 \<le> rv rs
      then [packet x (take (nat (rv rs)) (frame_out ?sd' (snd_size x)))] else [])" for rs :: reply
  proof -
    obtain s2 where c: "run_state (buffer_copy (?e rs) sd (snd_data x) (snd_size x)) (?s1 rs) = ((0, ?sd'), s2)"
      and w: "writes (hist s2) = []" using copy by blast
    have "\<exists>r s'. run_state (send_call x (?e rs) sd)
        (\<lparr>hist = [], errno = 0\<rparr> :: sys) = ((r, ?sd'), s') \<and> writes (hist s') =
        (if 0 \<le> rv rs then [packet x (take (nat (rv rs)) (frame_out ?sd' (snd_size x)))] else [])"
      using c w by (simp add: send_call_defs sys_defs run_syscall call_env_def plain_reply_def)
    then show ?thesis unfolding sends_alone_def by fastforce
  qed
  from run [of "plain_reply (int k)"] run [of "plain_reply (-1)"]
  show "sends_alone x sd ?sd' [packet x (take k (frame_out ?sd' (snd_size x)))]"
    "sends_alone x sd ?sd' []" by (simp_all add: plain_reply_def)
qed

text \<open>Alone, a call keeps the structure in order and writes a part of its own frame at most.\<close>

definition own_frame :: "sender \<Rightarrow> net_write \<Rightarrow> bool" where
  "own_frame x w \<longleftrightarrow> (\<exists>k. w = packet x (take k (frame (snd_data x))))"

lemma keeps_writes [inv_intros]:
  "(\<And>r. event_write (Ev c r) = []) \<Longrightarrow> keeps (\<lambda>s. writes (hist s) = W) (syscall e c)"
  "keeps (\<lambda>s. writes (hist s) = W) (emit (Fault f))"
  by (auto simp: keeps_def wp_simps intro!: wp_syscallI)

lemma buffer_copy_writes: "keeps (\<lambda>s. writes (hist s) = W) (buffer_copy e sd d n)"
  unfolding buffer_copy_def grow_send_buffer_def udtcp_new_buffer_def udtcp_free_buffer_def sys_do_def write_block_def
  by (intro inv_intros; simp)

lemma alone_sends_frame:
  assumes "proper x" "send_ok sd" "sends_alone x sd sd' w"
  shows "send_ok sd' \<and> list_all (own_frame x) w \<and> length w \<le> 1"
proof -
  obtain e r and s s' :: sys
    where run: "run_state (send_call x e sd) s = ((r, sd'), s')"
    and w: "writes (hist s') = writes (hist s) @ w"
    using assms(3) unfolding sends_alone_def by blast
  have len: "length (snd_data x) = unat (snd_size x)" using assms(1) by (simp add: proper_def)
  note ok = buffer_copy_ok [OF assms(2) proper_sendable [OF assms(1)] len]
  have copy: "wp (buffer_copy e sd (snd_data x) (snd_size x)) (\<lambda>(c, t) u. send_ok t \<and>
      (c = 0 \<longrightarrow> frame_out t (snd_size x) = frame (snd_data x)) \<and> writes (hist u) = W) u"
    if "writes (hist u) = W" for W and u :: sys
    using ok [of e u] keepsD [OF buffer_copy_writes that, of e sd "snd_data x" "snd_size x"]
    by (auto simp: wp_def split: prod.splits)
  have "wp (send_call x e sd) (\<lambda>(r, sd') u. send_ok sd' \<and>
      (\<exists>v. writes (hist u) = writes (hist s) @ v \<and> list_all (own_frame x) v \<and> length v \<le> 1)) s"
  proof (cases "rv (os e (hist s) (C_mutex_lock (send_ptr (snd_infos x)))) = 0")
    case False
    then show ?thesis using assms(2) by (simp add: send_call_defs wp_simps wp_calls wp_syscall)
  next
    case True
    show ?thesis
    proof (cases "snd_udp x")
      case False
      show ?thesis
        unfolding send_call_def if_not_P [OF False] udtcp_send_tcp_def wp_bind wp_sys_int wp_syscall using True
        by (simp add: wp_simps, intro wp_mono [OF copy [of _ "writes (hist s)"]])
          (auto simp: wp_simps wp_calls wp_syscall own_frame_def packet_def False split: prod.splits)
    next
      case udp: True
      show ?thesis
        unfolding send_call_def if_P [OF udp] udtcp_send_udp_def wp_bind wp_sys_int wp_syscall using True
        by (simp add: wp_simps, intro wp_mono [OF copy [of _ "writes (hist s)"]])
          (auto simp: wp_simps wp_calls wp_syscall own_frame_def packet_def udp split: prod.splits)
    qed
  qed
  from wp_runI [OF this run] w show ?thesis by auto
qed

section \<open>Every run is one call after the other\<close>

text \<open>How far the owner of the mutex has come with a structure that was \<open>sd\<close> when it got it; \<open>v\<close> is
  what it has written since.\<close>

definition new_block :: "u32 \<Rightarrow> block \<Rightarrow> bool" where
  "new_block n b \<longleftrightarrow> length (block_bytes b) = unat (of_nat (unat n + 4) :: u32) \<and> block_addr b \<noteq> 0"

definition progress :: "sender \<Rightarrow> udtcp_send \<Rightarrow> udtcp_send \<Rightarrow> net_write list \<Rightarrow> bool" where
  "progress x sd sh v \<longleftrightarrow> (let n = snd_size x; h = u32_bytes n; d = take (unat n) (snd_data x) in
     case snd_at x of
       AtTest \<Rightarrow> sh = sd \<and> v = []
     | AtFree b \<Rightarrow> sh = sd \<and> v = [] \<and> send_buffer_size sd < n \<and> new_block n b
     | AtInstall b \<Rightarrow> sh = sd\<lparr>send_buffer := None\<rparr> \<and> v = [] \<and> send_buffer_size sd < n \<and> new_block n b
     | AtSize \<Rightarrow> v = [] \<and> (\<exists>rm. grown_to rm sd n sh)
     | AtData \<Rightarrow> v = [] \<and> (\<exists>rm t b. grown_to rm sd n t \<and>
         put_bytes (send_buffer t) (size_offset t) h = Some b \<and> sh = t\<lparr>send_buffer := Some b\<rparr>)
     | AtSend \<Rightarrow> v = [] \<and> (\<exists>rm t b b'. grown_to rm sd n t \<and> put_bytes (send_buffer t) (size_offset t) h = Some b \<and>
         put_bytes (Some b) (payload_offset t) d = Some b' \<and> sh = t\<lparr>send_buffer := Some b'\<rparr>)
     | AtUnlock \<Rightarrow> sends_alone x sd sh v
     | _ \<Rightarrow> False)"

definition critical :: "send_pc \<Rightarrow> bool" where
  "critical p \<longleftrightarrow> p \<noteq> AtLock \<and> p \<noteq> Returned"

definition same_senders :: "sending \<Rightarrow> sending \<Rightarrow> bool" where
  "same_senders S0 S \<longleftrightarrow> length (senders S) = length (senders S0) \<and>
     (\<forall>i < length (senders S). (senders S ! i)\<lparr>snd_at := AtLock\<rparr> = senders S0 ! i)"

text \<open>The callers that have returned, in the order \<open>js\<close>, have led to \<open>sd\<close> and \<open>w\<close>.\<close>

definition serial :: "sending \<Rightarrow> sending \<Rightarrow> nat list \<Rightarrow> udtcp_send \<Rightarrow> net_write list \<Rightarrow>
    net_write list \<Rightarrow> bool" where
  "serial S0 S js sd w v \<longleftrightarrow> \<not> wild S \<and> same_senders S0 S \<and>
     in_turn (senders S0) (shared S0) js sd w \<and> wire S = w @ v \<and>
     (\<forall>i. i \<in> set js \<longleftrightarrow> at_pc S i Returned) \<and>
     (\<forall>i < length (senders S). critical (snd_at (senders S ! i)) \<longleftrightarrow> owner S = Some i) \<and>
     (case owner S of None \<Rightarrow> shared S = sd \<and> v = []
      | Some i \<Rightarrow> i < length (senders S) \<and> progress (senders S ! i) sd (shared S) v)"

lemma in_turn_ok:
  assumes "in_turn xs sd0 js sd w" "send_ok sd0" "\<forall>x \<in> set xs. proper x"
  shows "send_ok sd \<and> (\<forall>f \<in> set w. \<exists>x \<in> set xs. own_frame x f) \<and> length w \<le> length js"
  using assms
proof (induction rule: in_turn.induct)
  case (turn js sd w i sd' v)
  then have "proper (xs ! i)" "xs ! i \<in> set xs" by simp_all
  from alone_sends_frame [OF this(1) _ turn(4)] turn this(2) show ?case
    by (auto simp: list_all_iff)
qed simp

text \<open>A structure in order has room for the frame once \<open>buffer_copy\<close> has grown it.\<close>

lemma grown_to_ok:
  assumes "grown_to rm sd n t" "send_ok sd" "sendable sd n"
  shows "send_ok t \<and> n \<le> send_buffer_size t \<and> send_buffer t \<noteq> None"
proof -
  let ?s = "\<lparr>hist = [], errno = 0\<rparr> :: sys"
  obtain s' where run: "run_state (grow_send_buffer (call_env (plain_reply 0) rm rm) sd n) ?s = (Some t, s')"
    using assms(1) unfolding grown_to_def by blast
  from wp_runI [OF grow_send_buffer_ok [OF assms(2,3)] run] show ?thesis by simp
qed

lemma grown_to_puts:
  assumes g: "grown_to rm sd (snd_size x) t" and ok: "send_ok sd" "proper x"
  obtains b b' where "put_bytes (send_buffer t) (size_offset t) (u32_bytes (snd_size x)) = Some b"
    "put_bytes (Some b) (payload_offset t) (take (unat (snd_size x)) (snd_data x)) = Some b'"
proof -
  from grown_to_ok [OF g ok(1) proper_sendable [OF ok(2)]] obtain b where
    b: "send_buffer t = Some b" "size_offset t = Some 0" "payload_offset t = Some 4"
      "unat (snd_size x) + 4 \<le> length (block_bytes b)"
    by (auto simp: send_ok_def word_le_nat_alt)
  let ?k = "b\<lparr>block_bytes := overlay 0 (u32_bytes (snd_size x)) (block_bytes b)\<rparr>"
  have len: "length (block_bytes ?k) = length (block_bytes b)" using b(4) by simp
  have one: "put_bytes (send_buffer t) (size_offset t) (u32_bytes (snd_size x)) = Some ?k"
    using b by (simp add: put_bytes_def)
  have "4 + length (take (unat (snd_size x)) (snd_data x)) \<le> length (block_bytes ?k)"
    using b(4) len by simp
  then have "\<exists>b'. put_bytes (Some ?k) (payload_offset t) (take (unat (snd_size x)) (snd_data x)) = Some b'"
    by (simp only: put_bytes_def b(3) prod.case option.case if_True) blast
  with one that show ?thesis by blast
qed

text \<open>The steps of the owner.\<close>

lemma moved_fields [simp]:
  "owner (moved i p S) = owner S" "shared (moved i p S) = shared S" "wire (moved i p S) = wire S"
  "wild (moved i p S) = wild S" "length (senders (moved i p S)) = length (senders S)"
  "i < length (senders S) \<Longrightarrow> senders (moved i p S) ! j = (if j = i then (senders S ! i)\<lparr>snd_at := p\<rparr> else senders S ! j)"
  by (simp_all add: moved_def nth_list_update)

lemma same_senders_moved: "same_senders S0 S \<Longrightarrow> i < length (senders S) \<Longrightarrow> same_senders S0 (moved i p S)"
  by (simp add: same_senders_def)

lemma serial_owner:
  assumes "serial S0 S js sd w v" "at_pc S i p" "critical p"
  shows "owner S = Some i" "progress (senders S ! i) sd (shared S) v" "snd_at (senders S ! i) = p"
  using assms by (auto simp: serial_def at_pc_def)

lemma serial_step:
  assumes ser: "serial S0 S js sd w v" and at: "at_pc S i p" "critical p" "critical q"
    and pr: "progress ((senders S ! i)\<lparr>snd_at := q\<rparr>) sd sh (v @ u)"
  shows "serial S0 (moved i q (S\<lparr>shared := sh, wire := wire S @ u\<rparr>)) js sd w (v @ u)"
proof -
  have i: "i < length (senders S)" "owner S = Some i" using at(1) serial_owner(1) [OF ser at(1,2)] by (simp_all add: at_pc_def)
  let ?S = "S\<lparr>shared := sh, wire := wire S @ u\<rparr>"
  have "at_pc (moved i q ?S) j Returned \<longleftrightarrow> at_pc S j Returned" for j
    using at i by (auto simp: at_pc_def critical_def)
  moreover have "same_senders S0 ?S" using ser by (simp add: serial_def same_senders_def)
  ultimately show ?thesis
    using ser i at pr same_senders_moved [of S0 ?S i q] by (auto simp: serial_def)
qed

text \<open>The mutex is taken, a call returns.\<close>

lemma serial_lock:
  assumes ser: "serial S0 S js sd w v" and at: "at_pc S i AtLock" "owner S = None"
  shows "serial S0 (moved i AtTest (S\<lparr>owner := Some i\<rparr>)) js sd w v"
proof -
  have i: "i < length (senders S)" using at(1) by (simp add: at_pc_def)
  let ?S = "S\<lparr>owner := Some i\<rparr>"
  have "at_pc (moved i AtTest ?S) j Returned \<longleftrightarrow> at_pc S j Returned" for j
    using at i by (auto simp: at_pc_def)
  moreover have "same_senders S0 ?S" using ser by (simp add: serial_def same_senders_def)
  ultimately show ?thesis
    using ser i at same_senders_moved [of S0 ?S i AtTest]
    by (auto simp: serial_def progress_def critical_def)
qed

lemma serial_return:
  assumes ser: "serial S0 S js sd w v" and at: "at_pc S i p" "p \<noteq> Returned"
    and alone: "p = AtUnlock \<longrightarrow> own = None" "p = AtLock \<longrightarrow> own = owner S" "p = AtLock \<or> p = AtUnlock"
  shows "\<exists>js sd w v. serial S0 (moved i Returned (S\<lparr>owner := own\<rparr>)) js sd w v"
proof -
  have i: "i < length (senders S)" "snd_at (senders S ! i) = p" using at(1) by (simp_all add: at_pc_def)
  let ?S = "S\<lparr>owner := own\<rparr>"
  have turn: "in_turn (senders S0) (shared S0) js sd w" and w: "wire S = w @ v"
    and same: "same_senders S0 S" and ret: "\<And>i. i \<in> set js \<longleftrightarrow> at_pc S i Returned" "\<not> wild S"
    and crit: "\<And>j. j < length (senders S) \<Longrightarrow> critical (snd_at (senders S ! j)) \<longleftrightarrow> owner S = Some j"
    using ser by (auto simp: serial_def)
  have x: "sends_alone (senders S0 ! i) = sends_alone (senders S ! i)" "i < length (senders S0)"
    using same i(1) send_call_at(3) [where x = "senders S ! i" and p = AtLock] by (auto simp: same_senders_def)
  have ended: "at_pc (moved i Returned ?S) j Returned \<longleftrightarrow> j = i \<or> at_pc S j Returned" for j
    using i by (auto simp: at_pc_def)
  have same': "same_senders S0 (moved i Returned ?S)"
    using same i(1) by (intro same_senders_moved) (simp_all add: same_senders_def)
  have new: "i \<notin> set js" using ret(1) at i by (auto simp: at_pc_def)
  show ?thesis
  proof (cases "p = AtLock")
    case True
    then have "owner S \<noteq> Some i" using crit [OF i(1)] i(2) by (simp add: critical_def)
    have "in_turn (senders S0) (shared S0) (js @ [i]) sd (w @ [])"
      by (rule in_turn.turn [OF turn x(2) new]) (rule alone_lock_fails)
    with True ser \<open>owner S \<noteq> Some i\<close> alone i same' ended new crit ret w
    have "serial S0 (moved i Returned ?S) (js @ [i]) sd w v"
      by (auto simp: serial_def critical_def split: option.splits)
    then show ?thesis by blast
  next
    case False
    then have p: "p = AtUnlock" "own = None" using alone by simp_all
    then have "critical p" by (simp add: critical_def)
    note o = serial_owner [OF ser at(1) this]
    have "in_turn (senders S0) (shared S0) (js @ [i]) (shared S) (w @ v)"
      by (rule in_turn.turn [OF turn x(2) new]) (use o p x in \<open>simp add: progress_def\<close>)
    with p o(1) i same' ended crit ret w
    have "serial S0 (moved i Returned ?S) (js @ [i]) (shared S) (w @ v) []"
      by (auto simp: serial_def critical_def)
    then show ?thesis by blast
  qed
qed

lemma alone_no_memory:
  assumes "send_buffer_size sd < snd_size x"
  shows "sends_alone x sd sd []"
  unfolding sends_alone_def
  by (rule exI [of _ "call_env (plain_reply 0) (plain_reply 0) (plain_reply 0)"])
    (use assms in \<open>simp add: send_call_defs buffer_copy_def grow_send_buffer_def udtcp_new_buffer_def
      sys_defs run_syscall call_env_def plain_reply_def\<close>)

lemma serial_preserved:
  assumes "send_step S S'" "serial S0 S js sd w v" "send_ok (shared S0)" "\<forall>x \<in> set (senders S0). proper x"
  shows "\<exists>js sd w v. serial S0 S' js sd w v"
proof -
  have turn: "in_turn (senders S0) (shared S0) js sd w" and same: "same_senders S0 S" and wild: "\<not> wild S"
    using assms(2) by (auto simp: serial_def)
  have ok: "send_ok sd" using in_turn_ok [OF turn assms(3,4)] by simp
  have proper: "proper (senders S ! i)" if "i < length (senders S)" for i
  proof -
    have "(senders S ! i)\<lparr>snd_at := AtLock\<rparr> \<in> set (senders S0)" using same that by (simp add: same_senders_def)
    with assms(4) have "proper ((senders S ! i)\<lparr>snd_at := AtLock\<rparr>)" by blast
    then show ?thesis by (simp add: proper_def)
  qed
  have go: "\<exists>js sd w v. serial S0 (moved i q (S\<lparr>shared := sh, wire := wire S @ u\<rparr>)) js sd w v"
    if "at_pc S i p" "critical p" "critical q"
      "progress (senders S ! i) sd (shared S) v \<Longrightarrow> snd_at (senders S ! i) = p \<Longrightarrow> proper (senders S ! i) \<Longrightarrow>
        progress ((senders S ! i)\<lparr>snd_at := q\<rparr>) sd sh (v @ u)" for i p q sh u
  proof -
    have "progress ((senders S ! i)\<lparr>snd_at := q\<rparr>) sd sh (v @ u)"
      using serial_owner [OF assms(2) that(1,2)] that(1) by (intro that(4)) (auto simp: at_pc_def intro: proper)
    from serial_step [OF assms(2) that(1-3) this] show ?thesis by blast
  qed
  have stay: "S\<lparr>shared := shared S, wire := wire S @ []\<rparr> = S" by simp
  have free: "S\<lparr>shared := sh, wire := wire S @ []\<rparr> = S\<lparr>shared := sh\<rparr>" for sh by simp
  show ?thesis
    using assms(1)
  proof cases
    case (lock i)
    then show ?thesis using serial_lock [OF assms(2)] by blast
  next
    case (lock_fails i)
    then show ?thesis using serial_return [OF assms(2), of i AtLock "owner S"] by simp
  next
    case (enough i)
    with go [of i AtTest AtSize "shared S" "[]"] show ?thesis
      by (auto simp: stay critical_def progress_def Let_def intro: grown_to_enough)
  next
    case (no_memory i)
    with go [of i AtTest AtUnlock "shared S" "[]"] show ?thesis
      by (auto simp: stay critical_def progress_def Let_def intro: alone_no_memory)
  next
    case (allocate i b)
    with go [of i AtTest "AtFree b" "shared S" "[]"] show ?thesis
      by (auto simp: stay critical_def progress_def Let_def new_block_def)
  next
    case (free i b)
    with go [of i "AtFree b" "AtInstall b" "(shared S)\<lparr>send_buffer := None\<rparr>" "[]"] show ?thesis
      by (auto simp: critical_def progress_def Let_def)
  next
    case (install i b)
    with go [of i "AtInstall b" AtSize "(shared S)\<lparr>send_buffer := Some b, send_buffer_size := snd_size (senders S ! i),
        size_offset := Some 0, payload_offset := Some 4\<rparr>" "[]"] show ?thesis
      using grown_to_block [of sd "snd_size (senders S ! i)" b]
      by (auto simp: critical_def progress_def Let_def new_block_def)
  next
    case (copy_size i b)
    with go [of i AtSize AtData "(shared S)\<lparr>send_buffer := Some b\<rparr>" "[]"] show ?thesis
      by (auto simp: critical_def progress_def Let_def)
  next
    case (copy_data i b)
    with go [of i AtData AtSend "(shared S)\<lparr>send_buffer := Some b\<rparr>" "[]"] show ?thesis
      by (fastforce simp: critical_def progress_def Let_def)
  next
    case (copy_wild i p)
    then have "critical p" "i < length (senders S)" by (auto simp: critical_def at_pc_def)
    note o = serial_owner [OF assms(2) copy_wild(2) this(1)] and x = proper [OF this(2)]
    from copy_wild(3) o have False
    proof (elim disjE conjE)
      assume p: "p = AtSize" and bad: "put_bytes (send_buffer (shared S)) (size_offset (shared S))
        (u32_bytes (snd_size (senders S ! i))) = None"
      with o obtain rm where "grown_to rm sd (snd_size (senders S ! i)) (shared S)" by (auto simp: progress_def Let_def)
      from grown_to_puts [OF this ok x] bad show False by (metis option.distinct(1))
    next
      assume p: "p = AtData" and bad: "put_bytes (send_buffer (shared S)) (payload_offset (shared S))
        (take (unat (snd_size (senders S ! i))) (snd_data (senders S ! i))) = None"
      with o obtain rm t b where g: "grown_to rm sd (snd_size (senders S ! i)) t"
        and b: "put_bytes (send_buffer t) (size_offset t) (u32_bytes (snd_size (senders S ! i))) = Some b"
        and sh: "shared S = t\<lparr>send_buffer := Some b\<rparr>" by (auto simp: progress_def Let_def)
      from grown_to_puts [OF g ok x] b bad sh show False by fastforce
    qed
    then show ?thesis ..
  next
    case (send i k)
    let ?u = "[packet (senders S ! i) (take k (frame_out (shared S) (snd_size (senders S ! i))))]"
    have "sends_alone (senders S ! i) sd (shared S) (v @ ?u)"
      if "progress (senders S ! i) sd (shared S) v" "snd_at (senders S ! i) = AtSend"
      using that by (auto simp: progress_def Let_def intro: alone_copied(1))
    then have "\<exists>js sd w v. serial S0 (moved i AtUnlock (S\<lparr>shared := shared S, wire := wire S @ ?u\<rparr>)) js sd w v"
      by (intro go [OF send(2)]) (simp_all add: critical_def progress_def)
    then show ?thesis by (simp add: send(1))
  next
    case (send_fails i)
    have "sends_alone (senders S ! i) sd (shared S) (v @ [])"
      if "progress (senders S ! i) sd (shared S) v" "snd_at (senders S ! i) = AtSend"
      using that by (auto simp: progress_def Let_def intro: alone_copied(2))
    then have "\<exists>js sd w v. serial S0 (moved i AtUnlock (S\<lparr>shared := shared S, wire := wire S @ []\<rparr>)) js sd w v"
      by (intro go [OF send_fails(2)]) (simp_all add: critical_def progress_def)
    then show ?thesis by (simp add: send_fails(1))
  next
    case (unlock i)
    then show ?thesis using serial_return [OF assms(2), of i AtUnlock None] by simp
  qed
qed

lemma in_turn_distinct: "in_turn xs sd0 js sd w \<Longrightarrow> distinct js"
  by (induction rule: in_turn.induct) auto

text \<open>Whatever was written so far is a part of a frame of one of the callers.\<close>

lemma serial_frames:
  assumes "serial S0 S js sd w v" "send_ok (shared S0)" "\<forall>x \<in> set (senders S0). proper x"
  shows "\<forall>f \<in> set (wire S). \<exists>x \<in> set (senders S0). own_frame x f"
proof -
  have turn: "in_turn (senders S0) (shared S0) js sd w" and wire: "wire S = w @ v" and same: "same_senders S0 S"
    using assms(1) by (simp_all add: serial_def)
  note ok = in_turn_ok [OF turn assms(2,3)]
  have "\<exists>x \<in> set (senders S0). own_frame x f" if "f \<in> set v" for f
  proof (cases "owner S")
    case None
    with assms(1) that show ?thesis by (simp add: serial_def)
  next
    case (Some i)
    with assms(1) have i: "i < length (senders S)" "progress (senders S ! i) sd (shared S) v"
      by (auto simp: serial_def)
    then have x: "(senders S ! i)\<lparr>snd_at := AtLock\<rparr> \<in> set (senders S0)"
      using same by (auto simp: same_senders_def)
    from i(2) that have "sends_alone ((senders S ! i)\<lparr>snd_at := AtLock\<rparr>) sd (shared S) v"
      by (auto simp: progress_def Let_def split: send_pc.splits)
    from alone_sends_frame [OF _ _ this] assms(3) x ok that show ?thesis by (auto simp: list_all_iff)
  qed
  with ok show ?thesis by (auto simp: wire)
qed

section \<open>Runs\<close>

text \<open>Before anybody has begun.\<close>

definition sends_start :: "sending \<Rightarrow> bool" where
  "sends_start S \<longleftrightarrow> owner S = None \<and> wire S = [] \<and> \<not> wild S \<and> send_ok (shared S) \<and>
     (\<forall>x \<in> set (senders S). snd_at x = AtLock \<and> proper x)"

lemma serial_start: "sends_start S \<Longrightarrow> serial S S [] (shared S) [] []"
  by (auto simp: serial_def sends_start_def same_senders_def at_pc_def critical_def intro: in_turn.nobody)

lemma serial_reachable:
  assumes "send_step\<^sup>*\<^sup>* S0 S" "sends_start S0"
  shows "\<exists>js sd w v. serial S0 S js sd w v"
  using assms
proof (induction rule: rtranclp_induct)
  case base
  then show ?case using serial_start by blast
next
  case (step S S')
  then obtain js sd w v where "serial S0 S js sd w v" by blast
  with serial_preserved [OF step(2) this] step.prems show ?case by (simp add: sends_start_def)
qed

text \<open>The statements a caller has still to execute, at most.\<close>

fun remaining :: "send_pc \<Rightarrow> nat" where
  "remaining AtLock = 8"
| "remaining AtTest = 7"
| "remaining (AtFree b) = 6"
| "remaining (AtInstall b) = 5"
| "remaining AtSize = 4"
| "remaining AtData = 3"
| "remaining AtSend = 2"
| "remaining AtUnlock = 1"
| "remaining Returned = 0"

definition work :: "sending \<Rightarrow> nat" where
  "work S = sum_list (map (\<lambda>x. remaining (snd_at x)) (senders S))"

lemma work_moved:
  assumes "at_pc S i p" "remaining q < remaining p" "senders T = senders S"
  shows "work (moved i q T) < work S"
proof -
  have i: "i < length (senders S)" "snd_at (senders S ! i) = p" using assms(1) by (simp_all add: at_pc_def)
  let ?f = "\<lambda>x. remaining (snd_at x)"
  have "remaining p \<le> work S"
    using i member_le_sum_list [of "?f (senders S ! i)" "map ?f (senders S)"] by (auto simp: work_def)
  moreover have "work (moved i q T) = work S + remaining q - remaining p"
    using i assms(3) by (simp add: work_def moved_def map_update sum_list_update)
  ultimately show ?thesis using assms(2) by simp
qed

lemma step_work: "send_step S S' \<Longrightarrow> \<not> wild S' \<Longrightarrow> work S' < work S"
  by (induction rule: send_step.induct) (auto intro: work_moved)

text \<open>The owner of the mutex can always go on; if there is none, whoever waits can take it.\<close>

lemma send_enabled:
  assumes "serial S0 S js sd w v" "i < length (senders S)" "snd_at (senders S ! i) \<noteq> Returned"
  shows "\<exists>S'. send_step S S'"
proof (cases "owner S")
  case None
  then have "at_pc S i AtLock" using assms by (auto simp: serial_def critical_def at_pc_def)
  from send_step.lock [OF this None] show ?thesis by blast
next
  case (Some j)
  then have j: "at_pc S j (snd_at (senders S ! j))" "critical (snd_at (senders S ! j))"
    using assms(1) by (auto simp: serial_def at_pc_def)
  show ?thesis
  proof (cases "snd_at (senders S ! j)")
    case AtTest
    with j show ?thesis using send_step.enough [of S j] send_step.no_memory [of S j] by auto
  next
    case AtSize
    with j(1) show ?thesis
      using send_step.copy_size [of S j] send_step.copy_wild [of S j AtSize] by (metis not_None_eq)
  next
    case AtData
    with j(1) show ?thesis
      using send_step.copy_data [of S j] send_step.copy_wild [of S j AtData] by (metis not_None_eq)
  next
    case (AtFree b)
    with j(1) show ?thesis using send_step.free [of S j b] by auto
  next
    case (AtInstall b)
    with j(1) show ?thesis using send_step.install [of S j b] by auto
  next
    case AtSend
    with j(1) show ?thesis using send_step.send_fails [of S j] by auto
  next
    case AtUnlock
    with j(1) show ?thesis using send_step.unlock [of S j] by auto
  qed (use j(2) in \<open>simp_all add: critical_def\<close>)
qed

lemma run_bounded:
  assumes "(send_step ^^ n) S0 S" "sends_start S0"
  shows "n + work S \<le> work S0"
  using assms
proof (induction n arbitrary: S)
  case (Suc n)
  then obtain T where T: "(send_step ^^ n) S0 T" "send_step T S" by auto
  have "send_step\<^sup>*\<^sup>* S0 S" using Suc.prems(1) by (rule relpowp_imp_rtranclp)
  from serial_reachable [OF this Suc.prems(2)] have "\<not> wild S" by (auto simp: serial_def)
  from step_work [OF T(2) this] Suc.IH [OF T(1) Suc.prems(2)] show ?case by simp
qed simp

lemma work_start: "sends_start S \<Longrightarrow> work S = 8 * length (senders S)"
proof -
  assume "sends_start S"
  then have "map (\<lambda>x. remaining (snd_at x)) (senders S) = map (\<lambda>_. 8) (senders S)"
    by (intro map_cong) (auto simp: sends_start_def)
  then have "work S = sum_list (map (\<lambda>_. 8) (senders S))" by (simp only: work_def)
  then show ?thesis by (simp add: sum_list_triv)
qed

end
