(* ===== verification/Udtcp_Claims_Transport.thy ===== *)
theory Udtcp_Claims_Transport
  imports Udtcp_Example Udtcp_Concurrent_Send
begin

text \<open>
  The properties of messages: how they are framed and sent, how both sides take them from a
  stream or a socket, and where the sizes that come from the network can do harm.
\<close>

section \<open>Receiving from a stream\<close>



text \<open>The client does the same with the frames of its server, and returns 1.\<close>

theorem client_tcp_reassembles:
  assumes "delivers e fd stream" "buffer_ok s" "fd = tcp_socket (infos s ! 1)"
    and "consumed fd (hist s) \<le> length stream"
    and "drop (consumed fd (hist s)) stream = frame data @ rest"
    and "data \<noteq> []" "length data < 2 ^ 32" "whole_header e fd (hist s)"
  shows "\<exists>s'. run_state (client_receive_tcp e) s = (1, s') \<and>
    drop (consumed fd (hist s')) stream = rest \<and>
    callbacks (hist s') = callbacks (hist s) @
      (if receive_tcp_callback s then [Cb ReceiveTcpCb 1 data] else []) \<and> buffer_frame s s'"
  using receive_tcp_delivers [OF assms, of True "\<lambda>_. 1"] by (auto simp: client_receive_tcp_def)

lemma client_tcp_reassembles_witness:
  "\<exists>s'. run_state (client_receive_tcp (stream_env 0 (frame [7, 8, 9, 10, 11]))) blank_client = (1, s') \<and>
     callbacks (hist s') = [Cb ReceiveTcpCb 1 [7, 8, 9, 10, 11]]"
proof -
  let ?d = "[7, 8, 9, 10, 11] :: byte list"
  have fd: "(0 :: int) = tcp_socket (infos blank_client ! 1)" by simp
  have len: "length ?d = 5" by simp
  from client_tcp_reassembles [OF stream_env_delivers blank_client_ok(2) fd, of "frame ?d" ?d "[]"]
  show ?thesis
    by (auto simp: stream_env_whole_header len simp del: list.size)
qed

text \<open>C33. The two reads of a frame are not atomic.  When the header has arrived but the payload
  has not, \<open>receive_tcp\<close> returns \<open>-1\<close> with \<open>errno\<close> equal to \<open>EWOULDBLOCK\<close>, for which the poll
  function keeps the connection, although the four bytes of the header are gone: the next call
  takes the first bytes of the payload for a header.\<close>

theorem server_tcp_loses_header:
  assumes "fd = tcp_socket (infos s ! i)" "0 \<le> rv (os e (hist s) (C_recv fd 4))"
    and "snd (recv_result 4 (os e (hist s) (C_recv fd 4))) = u32_bytes n"
    and "\<And>h. length (hist s) < length h \<Longrightarrow>
      rv (os e h (C_recv fd (unat n))) = -1 \<and> err (os e h (C_recv fd (unat n))) = EWOULDBLOCK"
    and "\<And>h k. rv (os e h (C_malloc k)) \<noteq> 0"
  shows "\<exists>s'. run_state (server_receive_tcp e i) s = (-1, s') \<and>
    consumed fd (hist s') = consumed fd (hist s) + 4 \<and>
    run_state (server_after_receive e i (-1)) s' = (False, s')"
proof -
  let ?h = "hist s @ [Ev (C_recv fd 4) (os e (hist s) (C_recv fd 4))]"
  have r: "recv_result 4 (os e (hist s) (C_recv fd 4)) = (4, u32_bytes n)"
    using assms(2,3) by (auto simp: recv_result_def)
  have p: "recv_result (unat n) (os e h (C_recv fd (unat n))) = (-1, [])"
    "rv (os e h (C_recv fd (unat n))) < 0" "err (os e h (C_recv fd (unat n))) = EWOULDBLOCK"
    if "length (hist s) < length h" for h
    using assms(4) [OF that] by (simp_all add: recv_result_def)
  define s1 where "s1 = s\<lparr>hist := ?h\<rparr>"
  have run: "run_state (server_receive_tcp e i) s = run_state (receive_payload False sint e i fd n) s1"
    using assms(1,2) r by (simp add: server_receive_tcp_def receive_tcp_def sys_recv_def run_syscall s1_def)
  have "\<exists>s'. run_state (receive_payload False sint e i fd n) s1 = (-1, s') \<and> errno s' = EWOULDBLOCK \<and>
      consumed fd (hist s') = consumed fd (hist s1)"
    using assms(5) p
    by (auto simp: receive_payload_def ensure_buffer_def udtcp_new_buffer_def udtcp_free_buffer_def
        sys_do_def sys_recv_def run_syscall recv_into_def store_buffer_def s1_def)
  then obtain s' where "run_state (receive_payload False sint e i fd n) s1 = (-1, s')"
    "errno s' = EWOULDBLOCK" "consumed fd (hist s') = consumed fd (hist s1)" by blast
  with run r show ?thesis by (simp add: s1_def server_after_receive_def)
qed

text \<open>A system on which the header of a frame of six bytes arrives alone.\<close>

definition late_env :: env where
  "late_env = mk_env (\<lambda>_ c. case c of
      C_recv _ n \<Rightarrow> if n = 4 then ok_reply\<lparr>payload := u32_bytes 6\<rparr>
        else ok_reply\<lparr>rv := -1, err := EWOULDBLOCK\<rparr>
    | C_malloc _ \<Rightarrow> ok_reply\<lparr>rv := 4096\<rparr>
    | _ \<Rightarrow> ok_reply)"

lemma server_tcp_loses_header_witness:
  "\<exists>s'. run_state (server_receive_tcp late_env 2) blank_server = (-1, s') \<and>
     run_state (server_after_receive late_env 2 (-1)) s' = (False, s')"
proof -
  have fd: "(0 :: int) = tcp_socket (infos blank_server ! 2)"
    by simp
  have r: "os late_env h (C_recv 0 4) = ok_reply\<lparr>payload := u32_bytes 6\<rparr>"
    "os late_env h (C_recv 0 6) = ok_reply\<lparr>rv := -1, err := EWOULDBLOCK\<rparr>"
    "rv (os late_env h (C_malloc k)) \<noteq> 0" for h k
    by (simp_all add: late_env_def)
  have "\<exists>s'. run_state (server_receive_tcp late_env 2) blank_server = (-1, s') \<and>
    consumed 0 (hist s') = consumed 0 (hist blank_server) + 4 \<and>
    run_state (server_after_receive late_env 2 (-1)) s' = (False, s')"
    by (rule server_tcp_loses_header [OF fd, of late_env 6])
      (simp_all add: r ok_reply_def recv_result_def)
  then show ?thesis by blast
qed

section \<open>Memory\<close>

text \<open>C28. Receiving a TCP message is memory safe for every environment: the receive buffer stays
  as large as it claims to be, no write leaves it, and of the blocks allocated the buffer is
  still the only one not freed beside those of \<open>K\<close>.\<close>

theorem server_tcp_memory_safe:
  assumes "buffer_ok s" "heap_balanced K s"
  shows "wp (server_receive_tcp e i) (\<lambda>_ s'. buffer_ok s' \<and> heap_balanced K s' \<and>
    faults (hist s') = faults (hist s) \<and> buffer_frame s s') s"
  by (rule wp_mono [OF server_receive_tcp_inv [OF rx_inv_refl [OF assms]]]) (auto simp: rx_inv_def)

lemma server_tcp_memory_safe_witness:
  "wp (server_receive_tcp idle_env 2) (\<lambda>_ s'. buffer_ok s' \<and> heap_balanced {#} s' \<and>
    faults (hist s') = faults (hist blank_server) \<and> buffer_frame blank_server s') blank_server"
  by (rule server_tcp_memory_safe [OF blank_server_ok(3,4)])

text \<open>The same holds of datagrams as long as no peer announces a size whose frame does not fit
  a \<open>uint32_t\<close>, on the server and on the client.\<close>

theorem udp_memory_safe:
  assumes "buffer_ok s" "heap_balanced K s" "udp_sizes_fit e"
  shows "wp (server_receive_udp e) (\<lambda>_ s'. buffer_ok s' \<and> heap_balanced K s' \<and>
      faults (hist s') = faults (hist s) \<and> buffer_frame s s') s \<and>
    wp (client_receive_udp e) (\<lambda>_ s'. buffer_ok s' \<and> heap_balanced K s' \<and>
      faults (hist s') = faults (hist s) \<and> buffer_frame s s') s"
  unfolding server_receive_udp_def client_receive_udp_def
  by (intro conjI wp_mono [OF receive_udp_inv [OF rx_inv_refl [OF assms(1,2)] assms(3)]])
    (auto simp: rx_inv_def)

lemma udp_memory_safe_witness:
  "wp (server_receive_udp idle_env) (\<lambda>_ s'. buffer_ok s' \<and> heap_balanced {#} s' \<and>
      faults (hist s') = faults (hist blank_server) \<and> buffer_frame blank_server s') blank_server \<and>
    wp (client_receive_udp idle_env) (\<lambda>_ s'. buffer_ok s' \<and> heap_balanced {#} s' \<and>
      faults (hist s') = faults (hist blank_server) \<and> buffer_frame blank_server s') blank_server"
  by (rule udp_memory_safe [OF blank_server_ok(3,4)]) (use idle_env_ok in \<open>simp add: polite_def\<close>)

text \<open>The block \<open>ensure_buffer\<close> makes has the size that \<open>udtcp_new_buffer\<close> was given.\<close>

lemma ensure_buffer_alloc:
  assumes "\<And>h k. rv (os e h (C_malloc k)) \<noteq> 0" "buffer_size s < need"
  shows "\<exists>s' b. run_state (ensure_buffer e need) s = (True, s') \<and> buffer_data s' = Some b \<and>
    length (block_bytes b) = unat (of_nat need :: u32)"
  using assms
  by (cases "buffer_data s")
    (auto simp: ensure_buffer_def udtcp_new_buffer_def udtcp_free_buffer_def sys_do_def run_syscall)

text \<open>C32. Without that a datagram overflows the heap: a header that announces a size \<open>n\<close> with
  \<open>n + 4 \<ge> 2 ^ 32\<close> makes the server allocate \<open>n + 4 - 2 ^ 32\<close> bytes, and the datagram, read
  with the size that does not wrap, is written behind them.\<close>

theorem udp_size_wrap_overflows:
  assumes "fd = udp_server_socket (infos s ! 0)"
    and "0 \<le> rv (os e (hist s) (C_recvfrom fd 4 True))"
    and "snd (recv_result 4 (os e (hist s) (C_recvfrom fd 4 True))) = u32_bytes n"
    and "2 ^ 32 \<le> unat n + 4" "buffer_size s < 4 + unat n"
    and "\<And>h k. rv (os e h (C_malloc k)) \<noteq> 0"
    and "\<And>h. unat (n + 4) < length (snd (recv_result (4 + unat n) (os e h (C_recvfrom fd (4 + unat n) False))))"
  shows "Fault HeapOverflow \<in> set (hist (snd (run_state (server_receive_udp e) s)))"
proof -
  let ?r = "os e (hist s) (C_recvfrom fd 4 True)"
  have r: "recv_result 4 ?r = (4, u32_bytes n)"
    using assms(2,3) by (auto simp: recv_result_def)
  have c: "c_int 4 = 4" by (simp add: c_int_id)
  define s1 where "s1 = s\<lparr>hist := hist s @ [Ev (C_recvfrom fd 4 True) ?r]\<rparr>"
  have run: "run_state (server_receive_udp e) s =
      run_state (receive_datagram False udtcp_get_infos sint e fd n) s1"
    using assms(1,2) r c by (simp add: server_receive_udp_def receive_udp_def sys_recvfrom_def
        run_syscall s1_def)
  have sz: "unat (of_nat (4 + unat n) :: u32) = unat (n + 4)"
    by (simp only: unat_of_nat unat_word_ariths) (simp add: add.commute [of 4])
  obtain s2 b where s2: "run_state (ensure_buffer e (4 + unat n)) s1 = (True, s2)"
    "buffer_data s2 = Some b" "length (block_bytes b) = unat (n + 4)"
    using ensure_buffer_alloc [of e s1 "4 + unat n"] assms(5,6) unfolding sz by (auto simp: s1_def)
  let ?q = "os e (hist s2) (C_recvfrom fd (4 + unat n) False)"
  let ?d = "snd (recv_result (4 + unat n) ?q)"
  have long: "unat (n + 4) < length ?d" using assms(7) .
  then have "?d \<noteq> []" by auto
  then have store: "run_state (store_buffer 0 ?d) t = ((), t\<lparr>hist := hist t @ [Fault HeapOverflow]\<rparr>)"
    if "buffer_data t = Some b" for t :: "'a peer_scheme"
    using that long s2(3) by (simp add: store_buffer_def)
  obtain y where s3: "run_state (recvfrom_into e fd (4 + unat n)) s2 = ((c_int (fst (recv_result (4 + unat n) ?q)),
      from_addr ?q), s2\<lparr>errno := y, hist := hist s2 @ [Ev (C_recvfrom fd (4 + unat n) False) ?q,
      Fault HeapOverflow]\<rparr>)"
    using s2(2) by (simp add: recvfrom_into_def sys_recvfrom_def run_syscall store)
  show ?thesis
    unfolding run by (simp add: receive_datagram_def s2(1) s3 after_log_def after_cb_def split: option.splits)
qed

text \<open>A datagram of eight bytes whose header announces \<open>2 ^ 32 - 4\<close>.\<close>

definition wrap_env :: env where
  "wrap_env = mk_env (\<lambda>_ c. case c of
      C_recvfrom _ n peek \<Rightarrow> ok_reply\<lparr>payload := u32_bytes (- 4) @ (if peek then [] else [1, 2, 3, 4])\<rparr>
    | C_malloc _ \<Rightarrow> ok_reply\<lparr>rv := 4096\<rparr>
    | _ \<Rightarrow> ok_reply)"

lemma udp_size_wrap_overflows_witness:
  "Fault HeapOverflow \<in> set (hist (snd (run_state (server_receive_udp wrap_env) blank_server)))"
proof -
  have n: "unat (- 4 :: u32) = 4294967292" by simp
  show ?thesis
    by (rule udp_size_wrap_overflows [OF refl, of wrap_env _ "- 4"])
      (simp_all add: wrap_env_def recv_result_def ok_reply_def n)
qed

section \<open>Sending\<close>

text \<open>\<open>udtcp_send_tcp\<close>: the kernel is given the frame of the message and takes as many of its
  bytes as the function returns, none when it fails; the send structure keeps its invariant, the
  mutex is left as it was found, nothing is written outside the buffer and no block is lost.\<close>

theorem send_tcp_sends_frame:
  assumes "send_ok sd" "sendable sd n" "length data = unat n"
  shows "wp (udtcp_send_tcp e x sd data n) (\<lambda>r s'. send_outcome (send_ptr x) sd (hist s)
    (\<lambda>r h'. sent_on (tcp_socket x) h' = sent_on (tcp_socket x) (hist s) @ take (nat r) (frame data))
    r (hist s')) s"
  by (rule send_tcp_outcome [OF assms])

lemma send_tcp_sends_frame_witness:
  "wp (udtcp_send_tcp idle_env zero_infos zero_send [1, 2, 3] 3) (\<lambda>r s'.
     send_outcome 0 zero_send [] (\<lambda>r h'. sent_on 0 h' = take (nat r) (frame [1, 2, 3])) r (hist s'))
     blank_client"
  using send_tcp_sends_frame [of zero_send 3 "[1, 2, 3]" idle_env zero_infos blank_client]
  by (simp add: send_ok_zero sendable_def)

text \<open>\<open>udtcp_send_udp\<close>: either no datagram leaves and the result is not positive, or exactly one
  does, the frame of the message to the receiver's UDP address.\<close>

theorem send_udp_sends_frame:
  assumes "send_ok sd" "sendable sd n" "length data = unat n"
  shows "wp (udtcp_send_udp e x sd data n) (\<lambda>r s'. send_outcome (send_ptr x) sd (hist s)
    (\<lambda>r h'. datagrams h' = datagrams (hist s) \<and> r \<le> 0 \<or> datagrams h' =
       datagrams (hist s) @ [(udp_server_socket x, frame data, udp_server_addr x)] \<and> 0 \<le> r)
    r (hist s')) s"
  by (rule send_udp_outcome [OF assms])

lemma send_udp_sends_frame_witness:
  "wp (udtcp_send_udp idle_env zero_infos zero_send [1, 2, 3] 3) (\<lambda>r s'.
     send_outcome 0 zero_send [] (\<lambda>r h'. datagrams h' = [] \<and> r \<le> 0 \<or>
       datagrams h' = [(0, frame [1, 2, 3], zero_sockaddr)] \<and> 0 \<le> r) r (hist s')) blank_client"
  using send_udp_sends_frame [of zero_send 3 "[1, 2, 3]" idle_env zero_infos blank_client]
  by (simp add: send_ok_zero sendable_def)

text \<open>C36. The two sizes excluded above are real: an empty first message is copied through a null
  pointer, and a message of \<open>2 ^ 32 - 4\<close> bytes or more that does not fit the buffer is written
  into a new one of \<open>n + 4 - 2 ^ 32\<close> bytes.\<close>

theorem send_bad_sizes:
  assumes "2 ^ 32 \<le> unat n + 4" "send_buffer_size sd < n" "\<And>h k. rv (os e h (C_malloc k)) \<noteq> 0"
  shows "Fault HeapOverflow \<in> set (hist (snd (run_state (buffer_copy e sd data n) s))) \<and>
    Fault NullPointer \<in> set (hist (snd (run_state (buffer_copy e' zero_send [] 0) s)))"
proof
  have sz: "unat (of_nat (unat n + 4) :: u32) = unat n + 4 - 2 ^ 32"
  proof -
    have "unat n + 4 - 2 ^ 32 < 2 ^ 32" using unsigned_less [of n, where ?'a = nat] by simp
    then show ?thesis using assms(1) by (simp only: unat_of_nat) (simp add: mod_if)
  qed
  have small: "unat n + 4 - 2 ^ 32 < 4" using unsigned_less [of n, where ?'a = nat] by simp
  show "Fault NullPointer \<in> set (hist (snd (run_state (buffer_copy e' zero_send [] 0) s)))"
    by (simp add: buffer_copy_def grow_send_buffer_def zero_send_def write_block_def)
  show "Fault HeapOverflow \<in> set (hist (snd (run_state (buffer_copy e sd data n) s)))"
    using assms(2,3) sz small
    by (auto simp: buffer_copy_def grow_send_buffer_def udtcp_new_buffer_def udtcp_free_buffer_def
        sys_do_def run_syscall write_block_def)
qed

lemma send_bad_sizes_witness:
  "Fault HeapOverflow \<in> set (hist (snd (run_state (buffer_copy idle_env zero_send [] (- 2)) blank_client)))"
proof -
  have n: "unat (- 2 :: u32) = 4294967294" by simp
  have m: "rv (os idle_env h (C_malloc k)) \<noteq> 0" for h k by (simp add: idle_env_def)
  show ?thesis
    by (rule send_bad_sizes [THEN conjunct1]) (simp_all add: n m word_less_nat_alt)
qed

section \<open>Names and options\<close>

text \<open>\<open>udtcp_set_string_infos\<close> copies without a terminator: read as C strings, the address
  field and, when the resolver fails, the host name are the dotted address followed by whatever
  the old contents had behind that length; nothing else of the structure changes.\<close>

theorem set_string_infos_fields:
  "wp (udtcp_set_string_infos e x a) (\<lambda>x' s'. let d = inet_ntoa (sin_addr a) in
     c_string (ip x') = d @ c_string (drop (length d) (ip x)) \<and>
     (if rv (os e (hist s) (C_gethostbyaddr (take 4 (sockaddr_bytes a)))) = 0
      then c_string (hostname x') = d @ c_string (drop (length d) (hostname x)) else True) \<and>
     x'\<lparr>hostname := hostname x, ip := ip x\<rparr> = x) s"
proof -
  let ?d = "inet_ntoa (sin_addr a)"
  have len: "length ?d \<le> 16" "length ?d \<le> 256" using length_inet_ntoa [of "sin_addr a"] by simp_all
  have c: "c_string (overlay 0 ?d old) = ?d @ c_string (drop (length ?d) old)" for old
    by (rule c_string_copy) (rule inet_ntoa_nonzero)
  show ?thesis
    by (auto simp: udtcp_set_string_infos_def wp_simps wp_syscall copy_string_def len c Let_def)
qed

text \<open>\<open>udtcp_socket_add_option\<close> returns 0 exactly when both \<open>fcntl\<close> calls have succeeded, and
  has then written the old flags with all bits of the option set; \<open>udtcp_socket_sub_option\<close>
  likewise with all of them cleared.\<close>

theorem socket_options:
  "wp (udtcp_socket_add_option e fd opt) (\<lambda>r s'.
     if r = 0 then \<exists>g p w. hist s' = hist s @ [Ev (C_getfl fd) g, Ev (C_setfl fd w) p] \<and>
       0 \<le> rv g \<and> 0 \<le> rv p \<and> w = word_of_int (rv g) OR opt \<and> w AND opt = opt
     else r = -1 \<and> (\<exists>c p. last (hist s') = Ev c p \<and> rv p < 0)) s \<and>
   wp (udtcp_socket_sub_option e fd opt) (\<lambda>r s'.
     if r = 0 then \<exists>g p w. hist s' = hist s @ [Ev (C_getfl fd) g, Ev (C_setfl fd w) p] \<and>
       0 \<le> rv g \<and> 0 \<le> rv p \<and> w = word_of_int (rv g) AND NOT opt \<and> w AND opt = 0
     else r = -1 \<and> (\<exists>c p. last (hist s') = Ev c p \<and> rv p < 0)) s"
proof -
  have "(w OR opt) AND opt = opt" "(w AND NOT opt) AND opt = 0" for w
    by (rule bit_word_eqI; auto simp: bit_simps)+
  then show ?thesis
    by (auto simp: socket_option_defs wp_simps wp_calls wp_syscall not_less not_le)
qed

section \<open>Memory images\<close>



section \<open>Sending at the same time\<close>

text \<open>A caller of \<open>udtcp_send_tcp\<close> and one of \<open>udtcp_send_udp\<close> on a structure without a buffer, and the
  states of a run in which the second goes first: \<open>bs\<close> is the buffer once there is one.\<close>

definition two_senders :: sending where
  "two_senders = \<lparr>senders =
      [\<lparr>snd_udp = False, snd_infos = zero_infos\<lparr>tcp_socket := 5\<rparr>, snd_data = [1], snd_size = 1, snd_at = AtLock\<rparr>,
       \<lparr>snd_udp = True, snd_infos = zero_infos\<lparr>udp_server_socket := 6\<rparr>, snd_data = [2, 3], snd_size = 2, snd_at = AtLock\<rparr>],
     owner = None, shared = zero_send, wire = [], wild = False\<rparr>"

definition first_block :: "byte list \<Rightarrow> block" where
  "first_block bs = \<lparr>block_addr = 4096, block_bytes = bs\<rparr>"

definition two_at :: "send_pc \<Rightarrow> send_pc \<Rightarrow> nat option \<Rightarrow> byte list \<Rightarrow> net_write list \<Rightarrow> sending" where
  "two_at p q own bs w = two_senders\<lparr>senders := [(senders two_senders ! 0)\<lparr>snd_at := p\<rparr>,
      (senders two_senders ! 1)\<lparr>snd_at := q\<rparr>], owner := own, wire := w,
     shared := if bs = [] then zero_send else zero_send\<lparr>send_buffer := Some (first_block bs),
       send_buffer_size := 2, size_offset := Some 0, payload_offset := Some 4\<rparr>\<rparr>"

definition datagram_out :: net_write where
  "datagram_out = (6, Some zero_sockaddr, [2, 0, 0, 0, 2, 3])"

lemma two_senders_start: "sends_start two_senders" "two_senders = two_at AtLock AtLock None [] []"
  by (simp_all add: two_senders_def two_at_def sends_start_def send_ok_zero proper_def)

lemma small_sizes: "u32_bytes 1 = [1, 0, 0, 0]" "u32_bytes 2 = [2, 0, 0, 0]"
  by code_simp+

lemmas eval_senders = two_senders_def two_at_def at_pc_def moved_def zero_send_def first_block_def put_bytes_def
  overlay_def small_sizes packet_def frame_out_def datagram_out_def

lemma datagram_first:
  "send_step\<^sup>*\<^sup>* two_senders (two_at AtLock Returned None [2, 0, 0, 0, 2, 3] [datagram_out])"
proof -
  let ?S = "two_at AtLock"
  let ?o = "Some 1" and ?zeros = "[0, 0, 0, 0, 0, 0]" and ?half = "[2, 0, 0, 0, 0, 0]" and ?full = "[2, 0, 0, 0, 2, 3]"
  let ?b = "first_block ?zeros"
  have "send_step (?S AtLock None [] []) (?S AtTest ?o [] [])"
    using send_step.lock [of "?S AtLock None [] []" 1] by (simp add: eval_senders)
  moreover have "send_step (?S AtTest ?o [] []) (?S (AtFree ?b) ?o [] [])"
    using send_step.allocate [of "?S AtTest ?o [] []" 1 ?b] by (simp add: eval_senders)
  moreover have "send_step (?S (AtFree ?b) ?o [] []) (?S (AtInstall ?b) ?o [] [])"
    using send_step.free [of "?S (AtFree ?b) ?o [] []" 1 ?b] by (simp add: eval_senders)
  moreover have "send_step (?S (AtInstall ?b) ?o [] []) (?S AtSize ?o ?zeros [])"
    using send_step.install [of "?S (AtInstall ?b) ?o [] []" 1 ?b] by (simp add: eval_senders)
  moreover have "send_step (?S AtSize ?o ?zeros []) (?S AtData ?o ?half [])"
    using send_step.copy_size [of "?S AtSize ?o ?zeros []" 1 "first_block ?half"] by (simp add: eval_senders)
  moreover have "send_step (?S AtData ?o ?half []) (?S AtSend ?o ?full [])"
    using send_step.copy_data [of "?S AtData ?o ?half []" 1 "first_block ?full"] by (simp add: eval_senders)
  moreover have "send_step (?S AtSend ?o ?full []) (?S AtUnlock ?o ?full [datagram_out])"
    using send_step.send [of "?S AtSend ?o ?full []" 1 6] by (simp add: eval_senders)
  moreover have "send_step (?S AtUnlock ?o ?full [datagram_out]) (?S Returned None ?full [datagram_out])"
    using send_step.unlock [of "?S AtUnlock ?o ?full [datagram_out]" 1] by (simp add: eval_senders)
  ultimately show ?thesis
    unfolding two_senders_start(2) by (meson rtranclp.rtrancl_refl converse_rtranclp_into_rtranclp)
qed

lemma segment_second:
  "send_step\<^sup>*\<^sup>* (two_at AtLock Returned None [2, 0, 0, 0, 2, 3] [datagram_out])
    (two_at Returned Returned None [1, 0, 0, 0, 1, 3] [datagram_out, (5, None, [1, 0, 0, 0, 1])])"
proof -
  let ?S = "\<lambda>p. two_at p Returned"
  let ?o = "Some 0" and ?w = "[datagram_out]" and ?w' = "[datagram_out, (5, None, [1, 0, 0, 0, 1])]"
  let ?old = "[2, 0, 0, 0, 2, 3]" and ?half = "[1, 0, 0, 0, 2, 3]" and ?full = "[1, 0, 0, 0, 1, 3]"
  have "send_step (?S AtLock None ?old ?w) (?S AtTest ?o ?old ?w)"
    using send_step.lock [of "?S AtLock None ?old ?w" 0] by (simp add: eval_senders)
  moreover have "send_step (?S AtTest ?o ?old ?w) (?S AtSize ?o ?old ?w)"
    using send_step.enough [of "?S AtTest ?o ?old ?w" 0] by (simp add: eval_senders)
  moreover have "send_step (?S AtSize ?o ?old ?w) (?S AtData ?o ?half ?w)"
    using send_step.copy_size [of "?S AtSize ?o ?old ?w" 0 "first_block ?half"] by (simp add: eval_senders)
  moreover have "send_step (?S AtData ?o ?half ?w) (?S AtSend ?o ?full ?w)"
    using send_step.copy_data [of "?S AtData ?o ?half ?w" 0 "first_block ?full"] by (simp add: eval_senders)
  moreover have "send_step (?S AtSend ?o ?full ?w) (?S AtUnlock ?o ?full ?w')"
    using send_step.send [of "?S AtSend ?o ?full ?w" 0 5] by (simp add: eval_senders)
  moreover have "send_step (?S AtUnlock ?o ?full ?w') (?S Returned None ?full ?w')"
    using send_step.unlock [of "?S AtUnlock ?o ?full ?w'" 0] by (simp add: eval_senders)
  ultimately show ?thesis by (meson rtranclp.rtrancl_refl converse_rtranclp_into_rtranclp)
qed

text \<open>C8. Threads that send over one send structure at the same time do not mix their frames: however
  their statements are interleaved, no \<open>memcpy\<close> goes wrong, every write is (a part of) the frame of
  one caller's own message, on its connection or as its datagram, and whenever the mutex is free, the
  structure and what was written are the result of one call of \<open>udtcp_send_tcp\<close> or \<open>udtcp_send_udp\<close>
  for each caller that has returned, one after the other.\<close>

theorem concurrent_sends_serialise:
  assumes "sends_start S0" "send_step\<^sup>*\<^sup>* S0 S"
  shows "\<not> wild S \<and> (\<forall>f \<in> set (wire S). \<exists>x \<in> set (senders S0). own_frame x f) \<and>
    (owner S = None \<longrightarrow> (\<exists>js. distinct js \<and> (\<forall>i. i \<in> set js \<longleftrightarrow> at_pc S i Returned) \<and>
       in_turn (senders S0) (shared S0) js (shared S) (wire S)))"
proof -
  obtain js sd w v where ser: "serial S0 S js sd w v" using serial_reachable [OF assms(2,1)] by blast
  have "send_ok (shared S0)" "\<forall>x \<in> set (senders S0). proper x" using assms(1) by (auto simp: sends_start_def)
  from serial_frames [OF ser this] ser show ?thesis
    by (auto simp: serial_def dest: in_turn_distinct)
qed

lemma concurrent_sends_serialise_witness:
  "\<exists>js. set js = {0, 1} \<and> in_turn (senders two_senders) zero_send js
     (shared (two_at Returned Returned None [1, 0, 0, 0, 1, 3] []))
     [(6, Some zero_sockaddr, [2, 0, 0, 0, 2, 3]), (5, None, [1, 0, 0, 0, 1])]"
proof -
  let ?T = "two_at Returned Returned None [1, 0, 0, 0, 1, 3] [datagram_out, (5, None, [1, 0, 0, 0, 1])]"
  define S where "S = ?T"
  have S: "owner S = None" "at_pc S i Returned \<longleftrightarrow> i = 0 \<or> i = 1"
    "wire S = [datagram_out, (5, None, [1, 0, 0, 0, 1])]" "shared two_senders = zero_send"
    "shared S = shared (two_at Returned Returned None [1, 0, 0, 0, 1, 3] [])" for i
    by (auto simp: S_def eval_senders nth_Cons' less_Suc_eq)
  have run: "send_step\<^sup>*\<^sup>* two_senders S"
    unfolding S_def by (rule rtranclp_trans [OF datagram_first segment_second])
  have "\<exists>js. distinct js \<and> (\<forall>i. i \<in> set js \<longleftrightarrow> at_pc S i Returned) \<and>
      in_turn (senders two_senders) (shared two_senders) js (shared S) (wire S)"
    using concurrent_sends_serialise [OF two_senders_start(1) run] S(1) by simp
  then obtain js where js: "\<forall>i. i \<in> set js \<longleftrightarrow> at_pc S i Returned"
      "in_turn (senders two_senders) (shared two_senders) js (shared S) (wire S)" by (elim exE conjE)
  have "i \<in> set js \<longleftrightarrow> i \<in> {0, 1}" for i by (simp only: js(1) [rule_format] S(2) insert_iff empty_iff simp_thms)
  then have "set js = {0, 1}" by (rule set_eqI)
  with js(2) show ?thesis by (auto simp: S(3-5) datagram_out_def)
qed



end
