(* ===== verification/Udtcp_Origin.thy ===== *)
theory Udtcp_Origin
  imports Udtcp_Server_Safety Udtcp_Resources
begin

text \<open>
  Where the clients of a server come from.  The structure of a client is what its peer has sent, but its
  addresses are those of the connection that was accepted: a datagram is attributed to a client only if
  it comes from the host of its connection.
\<close>

section \<open>The origin of a connection\<close>

definition accepted_from :: "event list \<Rightarrow> int \<Rightarrow> u32 \<Rightarrow> bool" where
  "accepted_from h fd a \<longleftrightarrow> (\<exists>l r. Ev (C_accept l) r \<in> set h \<and> 0 \<le> rv r \<and> rv r = fd \<and> sin_addr (from_addr r) = a)"

definition came_from :: "event list \<Rightarrow> udtcp_infos \<Rightarrow> bool" where
  "came_from h x \<longleftrightarrow> accepted_from h (tcp_socket x) (sin_addr (tcp_addr x)) \<and>
     sin_addr (udp_client_addr x) = sin_addr (tcp_addr x)"

lemma accepted_from_mono: "accepted_from h fd a \<Longrightarrow> set h \<subseteq> set h' \<Longrightarrow> accepted_from h' fd a"
  unfolding accepted_from_def by blast

lemma came_from_mono: "came_from h x \<Longrightarrow> set h \<subseteq> set h' \<Longrightarrow> came_from h' x"
  unfolding came_from_def by (blast intro: accepted_from_mono)

text \<open>Nothing that has happened is forgotten.\<close>

definition recalls :: "event list \<Rightarrow> 'a sys_scheme \<Rightarrow> bool" where
  "recalls h s \<longleftrightarrow> set h \<subseteq> set (hist s)"

lemma recalls_refl [simp]: "recalls (hist s) s"
  by (simp add: recalls_def)

lemma keeps_recalls [inv_intros]:
  "keeps (recalls h) (syscall e c)" "keeps (recalls h) (emit ev)" "keeps (recalls h) (udtcp_log e l)"
  "keeps (recalls h) (call_back f cb i d)" "keeps (recalls h) (set_infos i g)"
  by (auto simp: keeps_def wp_simps recalls_def after_log_def after_cb_def intro!: wp_syscallI)

lemma buffer_ops_recalls [inv_intros]:
  "keeps (recalls h) (store_buffer off d)" "keeps (recalls h) (ensure_buffer e need)"
  unfolding store_buffer_def ensure_buffer_def udtcp_new_buffer_def udtcp_free_buffer_def sys_do_def
  by (intro inv_intros keeps_modify, simp_all add: recalls_def)+

lemmas server_ops_recall = server_ops_keep [of "recalls h" for h, OF keeps_recalls buffer_ops_recalls]

section \<open>The table\<close>

definition origins :: "server \<Rightarrow> bool" where
  "origins s \<longleftrightarrow> server_wf s \<and> (\<forall>c \<in> set (clients s). came_from (hist s) (snd c))"

lemma origins_map:
  assumes "origins s" "server_wf t" "set (map snd (clients t)) \<subseteq> set (map snd (clients s))" "recalls (hist s) t"
  shows "origins t"
proof -
  have "came_from (hist s) x" if "x \<in> set (map snd (clients t))" for x
    using assms(1,3) that by (fastforce simp: origins_def)
  with assms(2,4) show ?thesis by (auto simp: origins_def recalls_def intro: came_from_mono)
qed

lemma frame_origins:
  assumes "buffer_frame s t" "recalls (hist s) t" "origins s"
  shows "origins t"
proof -
  note f = buffer_frame_fields [OF assms(1)]
  have "clients t = clients s" by (simp add: clients_def f)
  moreover have "server_wf t"
    using assms(3) server_more [OF f(6)] by (simp add: origins_def server_wf_def f)
  ultimately show ?thesis using origins_map [OF assms(3), of t] assms(2) by simp
qed

lemma keeps_origins:
  assumes "\<And>s0. keeps (buffer_frame s0) m" "\<And>h. keeps (recalls h) m"
  shows "keeps origins m"
  unfolding keeps_def wp_run
  using keeps_run [OF assms(1) buffer_frame_refl] keeps_run [OF assms(2) recalls_refl] frame_origins by blast

section \<open>Accepting\<close>

lemma exchange_recalls: "keeps (recalls h) (exchange_informations e n)"
proof -
  have string: "keeps (recalls h) (udtcp_set_string_infos e x a)" for x a
    unfolding udtcp_set_string_infos_def copy_string_def by (intro inv_intros)
  show ?thesis
    unfolding exchange_informations_def server_initialize_connection_def register_client_def recv_infos_def
      sys_send_def sys_poll1_def sys_recv_def sys_do_def Let_def
    by (intro inv_intros string keeps_modify) (simp_all add: recalls_def)
qed

lemma accept_origin:
  assumes "server_wf s"
  shows "wp (accept_client e) (\<lambda>r u. r = 0 \<longrightarrow> came_from (hist u) (infos u ! poll_nfds s)) s"
proof (cases "poll_nfds s < UDTCP_POLL_TABLE_SIZE")
  case False
  then show ?thesis by (auto simp: accept_client_def wp_simps intro!: wp_mono [OF refuse_result])
next
  case True
  let ?n = "poll_nfds s"
  let ?Q = "\<lambda>r u. r = (0 :: int) \<longrightarrow> came_from (hist u) (infos u ! ?n)"
  have n: "?n < length (infos s)" "0 < ?n" using assms True by (simp_all add: server_wf_def)
  have exchange: "wp (exchange_informations e ?n) ?Q t"
    if t: "poll_nfds t = ?n" "?n < length (infos t)" "0 \<le> tcp_socket (infos t ! ?n)"
      and origin: "accepted_from (hist t) (tcp_socket (infos t ! ?n)) (sin_addr (tcp_addr (infos t ! ?n)))" for t
  proof -
    have "wp (exchange_informations e ?n) (\<lambda>r u. (if r = 0 then pinned (infos t ! 0) (tcp_socket (infos t ! ?n))
        (sin_addr (tcp_addr (infos t ! ?n))) (infos u ! ?n) \<and> info_id (infos u ! ?n) = count_id t \<and> poll_nfds u = Suc ?n
      else r = -1 \<and> poll_nfds u = ?n) \<and> recalls (hist t) u) t"
      unfolding wp_conj
      by (rule conjI [OF exchange_pins keepsD [OF exchange_recalls recalls_refl]]) (use t n in simp_all)
    then show ?thesis
      by (rule wp_mono)
        (use accepted_from_mono [OF origin] in \<open>auto simp: pinned_def came_from_def recalls_def\<close>)
  qed
  have option: "wp (do { r \<leftarrow> udtcp_socket_add_option e fd O_NONBLOCK;
         if r = -1 then do { sys_do e (C_close fd); ret (-1) } else exchange_informations e ?n }) ?Q t"
    if t: "poll_nfds t = ?n" "?n < length (infos t)" "tcp_socket (infos t ! ?n) = fd" "0 \<le> fd"
      "accepted_from (hist t) fd (sin_addr (tcp_addr (infos t ! ?n)))" for t fd
  proof (rule wp_bindI)
    show "wp (udtcp_socket_add_option e fd O_NONBLOCK) (\<lambda>_ u. infos u = infos t \<and> poll_nfds u = poll_nfds t \<and>
        set (hist t) \<subseteq> set (hist u)) t"
      by (auto simp: udtcp_socket_add_option_def wp_simps wp_calls wp_syscall)
    fix r and u :: server assume u: "infos u = infos t \<and> poll_nfds u = poll_nfds t \<and> set (hist t) \<subseteq> set (hist u)"
    with t(5) have "accepted_from (hist u) fd (sin_addr (tcp_addr (infos u ! ?n)))"
      using accepted_from_mono by metis
    with u t(1-4) show "wp (if r = -1 then do { sys_do e (C_close fd); ret (-1) } else exchange_informations e ?n) ?Q u"
      by (auto simp: wp_simps wp_calls wp_syscall intro!: exchange)
  qed
  have rejected: "wp (do { x \<leftarrow> gets errno; (if x \<noteq> EWOULDBLOCK then log_error e else skip); ret (-1 :: int) }) ?Q u" for u
    by (simp add: wp_simps)
  have acc: "wp (sys_accept e fd) (\<lambda>r u. (\<exists>h x. u = s\<lparr>hist := h, errno := x\<rparr>) \<and>
      (fst r = -1 \<or> 0 \<le> fst r \<and> accepted_from (hist u) (fst r) (sin_addr (snd r)))) s" for fd
    unfolding wp_sys_accept by (rule wp_syscallI) (auto 4 4 simp: accepted_from_def not_less)
  show ?thesis
    unfolding accept_client_def
    by (rule wp_bind_gets, simp only: not_le [THEN iffD2, OF True] if_False, rule wp_bind_gets, rule wp_bindI [OF acc])
      (auto intro!: wp_bind_set_infos wp_ifI rejected option simp: n)
qed

lemma accept_origins: "keeps origins (accept_client e)"
  unfolding keeps_def
proof (intro allI impI)
  fix s assume s: "origins s"
  then have wf: "server_wf s" by (simp add: origins_def)
  from accept_origin [OF wf] accept_client_wf_run [OF wf, of e]
    keepsD [OF server_ops_recall(3) recalls_refl, of s e]
  have "wp (accept_client e) (\<lambda>r u. (r = 0 \<longrightarrow> came_from (hist u) (infos u ! poll_nfds s)) \<and> accept_outcome s r u \<and>
      recalls (hist s) u) s"
    by (simp add: wp_conj recalls_def)
  then show "wp (accept_client e) (\<lambda>_. origins) s"
  proof (rule wp_mono, elim conjE)
    fix r u
    assume new: "r = 0 \<longrightarrow> came_from (hist u) (infos u ! poll_nfds s)" and out: "accept_outcome s r u"
      and old: "recalls (hist s) u"
    from out consider "r = 0" "poll_nfds s < UDTCP_POLL_TABLE_SIZE" "accepted s u" | "slot_frame (poll_nfds s) s u"
      by (auto simp: accept_outcome_def)
    then show "origins u"
    proof cases
      case 1
      with new s old show ?thesis
        using accepted_wf(1) [OF 1(3) wf 1(2)]
        by (auto simp: origins_def accepted_clients(1) [OF 1(3) wf 1(2)] recalls_def intro: came_from_mono)
    next
      case 2
      note f = slot_frame_fields [OF 2]
      have "take (poll_nfds s) (infos u) = take (poll_nfds s) (infos s)" by (rule take_eqI) (simp_all add: f)
      then have "clients u = clients s" by (simp add: clients_take f)
      moreover have "server_wf u" using wf by (simp add: server_wf_def f)
      ultimately show ?thesis using origins_map [OF s, of u] old by simp
    qed
  qed
qed

section \<open>A whole poll\<close>

lemma after_receive_origins: "keeps origins (server_after_receive e i r)"
proof -
  have drop: "keeps origins (server_disconnect e i)"
  proof (rule keeps_origins [OF disconnect_frame])
    show "keeps (recalls h) (server_disconnect e i)" for h
      unfolding server_disconnect_def sys_int_def by (intro inv_intros)
  qed
  have mark: "origins (s\<lparr>poll_fds := (poll_fds s)[i := (poll_fds s ! i)\<lparr>pfd := x\<rparr>]\<rparr>)" if "origins s" for s x
  proof (rule origins_map [OF that])
    have "server_wf s" using that by (simp add: origins_def)
    then show "server_wf (s\<lparr>poll_fds := (poll_fds s)[i := (poll_fds s ! i)\<lparr>pfd := x\<rparr>]\<rparr>)"
      "set (map snd (clients (s\<lparr>poll_fds := (poll_fds s)[i := (poll_fds s ! i)\<lparr>pfd := x\<rparr>]\<rparr>))) \<subseteq> set (map snd (clients s))"
      by (simp_all only: server_wf_def clients_def map_snd_zip_take flip: take_map drop_map) (simp_all add: server_wf_def)
  qed (simp add: recalls_def)
  show ?thesis
    unfolding server_after_receive_def server_drop_def
    by (intro inv_intros drop keeps_modify mark)
qed

lemma log_origins: "origins s \<Longrightarrow> origins (after_log e l s)"
  by (rule frame_origins [of s]) (auto simp: after_log_def recalls_def buffer_frame_update)

interpretation scan_origins: scan_keeps e origins for e
proof unfold_locales
  show "keeps origins (server_receive_tcp e i)" "keeps origins (server_receive_udp e)" for i
    by (intro keeps_origins server_receive_frame server_ops_recall; simp add: recalls_def)+
  show "keeps origins (log_error e)" by (simp add: keeps_def wp_simps log_origins)
qed (rule accept_origins after_receive_origins)+

lemma compact_origins:
  assumes "origins s"
  shows "origins (compact_table 2 s)"
proof -
  have wf: "server_wf s" using assms by (simp add: origins_def)
  note c = compact_table_clients [OF wf, of 2]
  have "set (map snd (clients (compact_table 2 s))) \<subseteq> set (map snd (clients s))" using c by auto
  moreover have "recalls (hist s) (compact_table 2 s)"
    using compact_table_hist [of 2 s] by (auto simp: recalls_def)
  ultimately show ?thesis using origins_map [OF assms] c by blast
qed

lemma server_poll_origins:
  assumes "udtcp_server_poll e t s = Some (r, s')" "origins s"
  shows "origins s'"
proof -
  obtain p s1 where p: "run_state (poll_table e t) s = (p, s1)" by fastforce
  note f = poll_table_frame [OF p]
  have wf: "server_wf s" using assms(2) by (simp add: origins_def)
  have "set (hist s) \<subseteq> set (hist s1)" using p by (auto simp: poll_table_def run_syscall split: if_splits)
  moreover have "map snd (clients s1) = map snd (clients s)"
    using wf f(4) by (simp add: clients_def f(1,2) map_snd_zip_take server_wf_def flip: take_map drop_map)
  ultimately have "origins s1"
    using origins_map [OF assms(2), of s1] wf poll_table_wf [OF p] by (simp add: recalls_def)
  then show ?thesis
    by (intro scan_origins.poll_keeps [OF assms(1) _ p]) (simp_all add: log_origins compact_origins)
qed

section \<open>Datagrams\<close>

lemma sender_origin:
  assumes "origins s" "udtcp_get_infos a s = Some j"
  shows "2 \<le> j" "j < poll_nfds s" "accepted_from (hist s) (tcp_socket (infos s ! j)) (sin_addr a)"
proof -
  from assms(2) have j: "2 \<le> j" "j < poll_nfds s" "sin_addr (udp_client_addr (infos s ! j)) = sin_addr a"
    by (auto simp: udtcp_get_infos_def find_Some_iff)
  then show "2 \<le> j" "j < poll_nfds s" by simp_all
  have wf: "server_wf s" using assms(1) by (simp add: origins_def)
  have "(poll_fds s ! j, infos s ! j) \<in> set (clients s)" using j by (simp add: clients_upt [OF wf])
  then have "came_from (hist s) (infos s ! j)" using assms(1) by (force simp: origins_def)
  with j(3) show "accepted_from (hist s) (tcp_socket (infos s ! j)) (sin_addr a)" by (simp add: came_from_def)
qed

end
