(* ===== verification/Udtcp_Claims_Server.thy ===== *)
theory Udtcp_Claims_Server
  imports Udtcp_Example Udtcp_Origin
begin

text \<open>
  The properties of the server's poll function and of what it is made of: accepting, receiving
  datagrams, dropping clients, closing the gaps.
\<close>

section \<open>Polling\<close>

text \<open>C2. A call of \<open>udtcp_server_poll\<close> that returns, whatever its result and whatever the kernel and
  the peers do, leaves a well-formed table in which every client is polled on its own socket, with
  identifiers that are distinct and below the counter.  The call is a step of the abstract
  registry: at most 42 clients are appended, with the next identifiers in order, and clients are
  taken out; those that remain keep their order.\<close>

theorem server_poll_keeps_table:
  assumes "server_inv s" "ids_inv s" "unat (count_id s) + UDTCP_POLL_TABLE_SIZE < 2 ^ 64"
    and "udtcp_server_poll e t s = Some (r, s')"
  shows "server_inv s' \<and> ids_inv s' \<and> ids_step s s'"
  by (rule server_poll_inv [OF assms])

lemma idle_poll: "\<exists>r s'. udtcp_server_poll idle_env 0 blank_server = Some (r, s')"
  by (rule server_poll_ends [OF idle_env_ok(2) blank_server_wf])

lemma server_poll_keeps_table_witness:
  "\<exists>r s'. udtcp_server_poll idle_env 0 blank_server = Some (r, s') \<and>
     server_inv s' \<and> ids_inv s' \<and> ids_step blank_server s'"
  using idle_poll server_poll_keeps_table [OF blank_server_ok(1,2,5), of idle_env 0] by blast

text \<open>C5. If the peers keep to the protocol (no announced UDP size that wraps, no handshake longer
  than the structure, no host name longer than its field), a call of \<open>udtcp_server_poll\<close> loses no
  memory, keeps the receive buffer as large as it claims, and the only undefined behaviours it
  can meet are those of the \<open>memcpy\<close> calls that close gaps in the table.\<close>

theorem server_poll_memory_safe:
  assumes "polite e" "server_wf s" "buffer_ok s" "heap_balanced K s" "udtcp_server_poll e t s = Some (r, s')"
  shows "buffer_ok s' \<and> heap_balanced K s' \<and> (\<exists>fs. faults (hist s') = faults (hist s) @ fs \<and>
    set fs \<subseteq> {Fault MemcpyOverlap, Fault ArrayOverrun})"
  by (rule server_poll_safe [OF assms])

lemma server_poll_memory_safe_witness:
  "\<exists>r s'. udtcp_server_poll idle_env 0 blank_server = Some (r, s') \<and> buffer_ok s' \<and>
     heap_balanced {#} s' \<and> (\<exists>fs. faults (hist s') = faults (hist blank_server) @ fs \<and>
       set fs \<subseteq> {Fault MemcpyOverlap, Fault ArrayOverrun})"
  using idle_poll server_poll_memory_safe [OF idle_env_ok(1) blank_server_wf blank_server_ok(3,4), of 0] by blast



text \<open>The result tells what \<open>poll\<close> said: it is \<open>UDTCP_POLL_SIGNAL\<close> or \<open>UDTCP_POLL_ERROR\<close> exactly
  when \<open>poll\<close> has failed, with and without \<open>EINTR\<close>, \<open>UDTCP_POLL_TIMEOUT\<close> when no entry was ready,
  and in these three cases no callback has run, no descriptor was opened or closed and the
  clients are the same.\<close>

theorem server_poll_result:
  assumes "udtcp_server_poll e t s = Some (r, s')"
  shows "let p = os e (hist s) (C_poll (map (\<lambda>p. (pfd p, events p)) (take (poll_nfds s) (poll_fds s))) (c_int t))
    in r = (if rv p < 0 then if err p = EINTR then UDTCP_POLL_SIGNAL else UDTCP_POLL_ERROR
            else if rv p = 0 then UDTCP_POLL_TIMEOUT else UDTCP_POLL_SUCCESS) \<and>
       (if r = UDTCP_POLL_SUCCESS then True else callbacks (hist s') = callbacks (hist s) \<and>
          opened (hist s') = opened (hist s) \<and> closed (hist s') = closed (hist s) \<and>
          infos s' = infos s \<and> poll_nfds s' = poll_nfds s \<and> map pfd (poll_fds s') = map pfd (poll_fds s))"
proof -
  have m: "map pfd (set_revents n vs ps) = map pfd ps" for n vs ps
    by (rule nth_equalityI) simp_all
  show ?thesis
    using assms
    by (auto simp: udtcp_server_poll_def poll_table_def run_syscall Let_def m
        split: if_splits option.splits)
qed

lemma server_poll_result_witness:
  "\<exists>s'. udtcp_server_poll dead_env 0 blank_server = Some (UDTCP_POLL_ERROR, s') \<and>
     callbacks (hist s') = []"
proof -
  have p: "rv (os dead_env h (C_poll fds t)) = -1" "err (os dead_env h (C_poll fds t)) = EWOULDBLOCK" for h fds t
    by (simp_all add: dead_env_def)
  obtain r s' where run: "udtcp_server_poll dead_env 0 blank_server = Some (r, s')"
    by (simp add: udtcp_server_poll_def poll_table_def run_syscall p errno_defs)
  from server_poll_result [OF run] have "r = UDTCP_POLL_ERROR" "callbacks (hist s') = []"
    by (auto simp: Let_def p errno_defs split: if_splits)
  with run show ?thesis by blast
qed

section \<open>Closing the gaps\<close>

text \<open>C19. Compaction of the table removes exactly the clients marked with \<open>-1\<close> and keeps the order of
  the others, each with its own poll entry; only the table, its count and the history change.\<close>

theorem compaction_is_filter:
  assumes "server_wf s"
  shows "server_wf (compact_table 2 s) \<and> clients (compact_table 2 s) = filter live (clients s) \<and>
    table_frame s (compact_table 2 s)"
  using compact_table_clients [OF assms, of 2] by simp

lemma compaction_is_filter_witness:
  "clients (compact_table 2 blank_server) = filter live (clients blank_server)"
  using compaction_is_filter [of blank_server] blank_server_ok(1) by (simp add: server_inv_def)

text \<open>C40. Compaction is free of undefined behaviour exactly when no entry but the last is marked:
  otherwise it copies between overlapping ranges with \<open>memcpy\<close>, and reads one element behind
  both arrays when the table is full.\<close>

theorem compaction_faults:
  assumes "server_wf s"
  shows "\<exists>fs. faults (hist (compact_table 2 s)) = faults (hist s) @ fs \<and>
    (fs = [] \<longleftrightarrow> (\<forall>j. 2 \<le> j \<longrightarrow> j < poll_nfds s - 1 \<longrightarrow> pfd (poll_fds s ! j) \<noteq> -1)) \<and>
    set fs \<subseteq> {Fault MemcpyOverlap} \<union>
      (if poll_nfds s = UDTCP_POLL_TABLE_SIZE then {Fault ArrayOverrun} else {})"
  by (rule compact_table_faults [OF assms]) simp

lemma compaction_faults_witness:
  "faults (hist (compact_table 2 blank_server)) = []"
  using compaction_faults [of blank_server] blank_server_ok(1) by (auto simp: server_inv_def)

section \<open>Accepting\<close>

text \<open>C20. \<open>accept_client\<close> returns 0 or -1.  With 0 there is one more client, behind the others, whose
  slot has the next identifier, the send structure of its position and a poll entry on its socket; with
  -1 the clients are as they were.\<close>

theorem accept_adds_one_client:
  assumes "server_inv s" "ids_inv s" "unat (count_id s) + UDTCP_POLL_TABLE_SIZE < 2 ^ 64"
  shows "wp (accept_client e) (\<lambda>r s'. server_inv s' \<and> ids_inv s' \<and>
    (if r = 0 then poll_nfds s < UDTCP_POLL_TABLE_SIZE \<and> ids s' = ids s @ [count_id s] \<and>
       accepted s s'
     else r = -1 \<and> ids s' = ids s \<and> poll_nfds s' = poll_nfds s)) s"
proof -
  have wf: "server_wf s" using assms(1) by (simp add: server_inv_def)
  have ok: "table_ok s s"
    using assms server_inv_scan [OF assms(1)]
    by (auto simp: table_ok_def ids_room_def ids_grow_def new_ids_def)
  show ?thesis
  proof (rule wp_mono [OF accept_client_run [OF ok]])
    fix r s' assume out: "accept_outcome s r s'"
    note t = accept_outcome_table(1,2) [OF out ok]
    from t(1) have "ids_inv s'" by (simp add: table_ok_def ids_room_def)
    moreover have "server_inv s'" using t(2) assms(1) by simp
    ultimately show "server_inv s' \<and> ids_inv s' \<and>
      (if r = 0 then poll_nfds s < UDTCP_POLL_TABLE_SIZE \<and> ids s' = ids s @ [count_id s] \<and>
         accepted s s'
       else r = -1 \<and> ids s' = ids s \<and> poll_nfds s' = poll_nfds s)"
      using out accepted_clients(2) [OF _ wf, of s'] slot_frame_table [of s s']
      by (auto simp: accept_outcome_def)
  qed
qed

lemma accept_adds_one_client_witness:
  "wp (accept_client idle_env) (\<lambda>r s'. server_inv s' \<and> ids_inv s') blank_server"
  by (rule wp_mono [OF accept_adds_one_client [OF blank_server_ok(1,2,5)]]) simp

text \<open>C22. The handshake cannot move a client: whatever structure the peer has sent, the slot that joins
  the table has the socket and the address of the accepted connection, the server's own UDP
  sockets, and the identifier of the counter.\<close>

theorem handshake_pins_identity:
  assumes "n = poll_nfds s" "n < length (infos s)" "0 < n" "0 \<le> tcp_socket (infos s ! n)"
  shows "wp (exchange_informations e n) (\<lambda>r s'. if r = 0
     then pinned (infos s ! 0) (tcp_socket (infos s ! n)) (sin_addr (tcp_addr (infos s ! n))) (infos s' ! n) \<and>
       info_id (infos s' ! n) = count_id s \<and> poll_nfds s' = Suc n
     else r = -1 \<and> poll_nfds s' = n) s"
  by (rule exchange_pins [OF assms])

text \<open>A peer that answers the handshake with a structure of zeros.\<close>

definition zero_peer_env :: env where
  "zero_peer_env = mk_env (\<lambda>_ c. case c of
      C_recv _ _ \<Rightarrow> ok_reply\<lparr>payload := infos_bytes zero_infos\<rparr>
    | C_send _ d \<Rightarrow> ok_reply\<lparr>rv := int (length d)\<rparr>
    | C_poll _ _ \<Rightarrow> ok_reply\<lparr>rv := 1, revs := [POLLIN]\<rparr>
    | _ \<Rightarrow> ok_reply)"

lemma handshake_pins_identity_witness:
  "wp (exchange_informations zero_peer_env 2) (\<lambda>r s'. if r = 0
     then tcp_socket (infos s' ! 2) = 0 \<and> info_id (infos s' ! 2) = 1 \<and> poll_nfds s' = 3
     else r = -1 \<and> poll_nfds s' = 2) blank_server"
  using table_size_gt_2
  by (intro wp_mono [OF handshake_pins_identity [of 2 blank_server zero_peer_env]])
    (auto simp: pinned_def)

text \<open>The loop that accepts clients always ends, however many connections are waiting: every
  success takes one of the table's slots.\<close>

theorem accept_loop_terminates:
  assumes "server_inv s" "ids_inv s" "unat (count_id s) + UDTCP_POLL_TABLE_SIZE < 2 ^ 64"
  shows "\<exists>r s'. drain e (\<lambda>r. r = 0) (accept_client e) s = Some (r, s') \<and>
    server_inv s' \<and> poll_nfds s \<le> poll_nfds s'"
proof -
  have ok: "table_ok s s"
    using assms server_inv_scan [OF assms(1)]
    by (auto simp: table_ok_def ids_room_def ids_grow_def new_ids_def)
  then have clean: "table_clean s s" using assms(1) by (simp add: table_clean_def)
  obtain r s' where run: "drain e (\<lambda>r. r = 0) (accept_client e) s = Some (r, s')"
    using accept_loop.drain_terminates [OF ok, of e] by blast
  have "server_inv s'" using accept_loop_clean.drain_inv [OF clean run] by (simp add: table_clean_def)
  moreover have "poll_nfds s \<le> poll_nfds s'"
    using accept_grows.drain_inv [of s s, OF _ run] ok by auto
  ultimately show ?thesis using run by blast
qed

lemma accept_loop_terminates_witness:
  "\<exists>r s'. drain idle_env (\<lambda>r. r = 0) (accept_client idle_env) blank_server = Some (r, s') \<and>
    server_inv s' \<and> 2 \<le> poll_nfds s'"
  using accept_loop_terminates [OF blank_server_ok(1,2,5), of idle_env] by simp

section \<open>Receiving datagrams\<close>

text \<open>\<open>udtcp_get_infos\<close> finds the first connected client with the sender's address and port, and
  nothing when there is none.\<close>

theorem get_infos_first_match:
  "let match = (\<lambda>i. sin_addr (udp_client_addr (infos s ! i)) = sin_addr a \<and>
       sin_port (udp_client_addr (infos s ! i)) = sin_port a)
   in case udtcp_get_infos a s of
        None \<Rightarrow> filter match [2..<poll_nfds s] = []
      | Some i \<Rightarrow> 2 \<le> i \<and> i < poll_nfds s \<and> match i \<and> filter match [2..<i] = []"
proof -
  have first: "filter P [2..<i] = []" if "find P [2..<n] = Some i" for P and n i :: nat
  proof -
    from that obtain j where j: "j < n - 2" "i = 2 + j" "\<And>k. k < j \<Longrightarrow> \<not> P ([2..<n] ! k)"
      by (auto simp: find_Some_iff)
    have "\<not> P m" if "2 \<le> m" "m < i" for m
    proof -
      have "[2..<n] ! (m - 2) = m" using j(1,2) that by (subst nth_upt) simp_all
      then show ?thesis using j(3) [of "m - 2"] j(2) that by simp
    qed
    then show ?thesis by (auto simp: filter_empty_conv)
  qed
  have some: "2 \<le> i \<and> i < n \<and> P i" if "find P [2..<n] = Some i" for P and n i :: nat
    using that by (auto simp: find_Some_iff)
  let ?P = "\<lambda>i. sin_addr (udp_client_addr (infos s ! i)) = sin_addr a \<and>
    sin_port (udp_client_addr (infos s ! i)) = sin_port a"
  show ?thesis
  proof (cases "find ?P [2..<poll_nfds s]")
    case None
    then have "filter ?P [2..<poll_nfds s] = []" by (simp add: find_None_iff filter_empty_conv)
    with None show ?thesis by (simp add: udtcp_get_infos_def Let_def)
  next
    case (Some i)
    from first [OF Some] some [OF Some] Some show ?thesis by (simp add: udtcp_get_infos_def Let_def)
  qed
qed

text \<open>C23. A client cannot speak for another host: after a poll, a datagram from \<open>a\<close> is attributed to the
  client in slot \<open>j\<close> only if the TCP connection of that client was accepted from the host of \<open>a\<close>, whatever
  addresses the peers have sent in their structures.\<close>

theorem datagrams_come_from_their_host:
  assumes "origins s" "udtcp_server_poll e t s = Some (r, s')" "udtcp_get_infos a s' = Some j"
  shows "origins s' \<and> 2 \<le> j \<and> j < poll_nfds s' \<and>
    accepted_from (hist s') (tcp_socket (infos s' ! j)) (sin_addr a)"
  using server_poll_origins [OF assms(2,1)] sender_origin [OF _ assms(3)] by simp

text \<open>A server with one client, whose connection was accepted from 0.0.0.0, and a poll that times out.\<close>

definition quiet_env :: env where
  "quiet_env = mk_env (\<lambda>_ _. ok_reply)"

definition host_server :: server where
  "host_server = blank_server\<lparr>poll_nfds := 3, hist := [Ev (C_accept 3) ok_reply]\<rparr>"

lemma datagrams_come_from_their_host_witness:
  "\<exists>s'. udtcp_server_poll quiet_env 0 host_server = Some (UDTCP_POLL_TIMEOUT, s') \<and>
     udtcp_get_infos zero_sockaddr s' = Some 2 \<and> accepted_from (hist s') 0 (sin_addr zero_sockaddr)"
proof -
  have slot: "clients host_server = [(zero_pollfd, zero_infos)]"
    using table_size_gt_2 blank_server_wf
    by (simp add: host_server_def clients_upt server_wf_def upt_rec)
  then have o: "origins host_server"
    using blank_server_wf table_size_gt_2
    by (auto simp: origins_def came_from_def accepted_from_def host_server_def server_wf_def ok_reply_def)
  obtain s' where run: "udtcp_server_poll quiet_env 0 host_server = Some (UDTCP_POLL_TIMEOUT, s')"
    "infos s' = infos blank_server" "poll_nfds s' = 3"
    by (simp add: udtcp_server_poll_def poll_table_def run_syscall quiet_env_def ok_reply_def host_server_def)
  then have j: "udtcp_get_infos zero_sockaddr s' = Some 2" by (simp add: udtcp_get_infos_def upt_rec)
  from datagrams_come_from_their_host [OF o run(1) j] run(2) have "accepted_from (hist s') 0 (sin_addr zero_sockaddr)"
    by simp
  with run(1) j show ?thesis by blast
qed

end
