(* ===== verification/Udtcp_Client_Safety.thy ===== *)
theory Udtcp_Client_Safety
  imports Udtcp_Client Udtcp_Receive_Safety
begin

text \<open>
  What a call of \<open>udtcp_client_poll\<close> does to the client: it keeps the connection and only
  receives, or it disconnects once; its memory safety; its end.  The receive loops are instances
  of the locales of \<open>Udtcp_Drain\<close>, interpreted on the client's own receivers.
\<close>

section \<open>The connection\<close>

text \<open>The connection is as it was, and nothing has happened to it but messages; or it has been
  closed after some messages, and the callback told.\<close>

definition connection_kept :: "client \<Rightarrow> client \<Rightarrow> bool" where
  "connection_kept s0 s \<longleftrightarrow> infos s = infos s0 \<and> received (hist s0) (hist s)"

definition connection_closed :: "client \<Rightarrow> client \<Rightarrow> bool" where
  "connection_closed s0 s \<longleftrightarrow>
     infos s = (infos s0)[0 := (infos s0 ! 0)\<lparr>tcp_socket := -1\<rparr>] \<and>
     opened (hist s) = opened (hist s0) \<and>
     closed (hist s) = closed (hist s0) + {#tcp_socket (infos s0 ! 0)#} \<and>
     (\<exists>cs. callbacks (hist s) = callbacks (hist s0) @ cs @
        (if disconnect_callback s0 then [Cb DisconnectCb 1 []] else []) \<and> list_all is_receive cs)"

text \<open>The rest of the structure: the poll table with its descriptors, the send structure.\<close>

definition client_same :: "client \<Rightarrow> client \<Rightarrow> bool" where
  "client_same s0 s \<longleftrightarrow> map pfd (poll_fds s) = map pfd (poll_fds s0) \<and> poll_nfds s = poll_nfds s0 \<and>
     csend s = csend s0 \<and> send_addr s = send_addr s0 \<and> poll_loop s = poll_loop s0"

text \<open>Only the receive buffer, the history and \<open>errno\<close> change while the connection is kept.\<close>

definition client_quiet :: "client \<Rightarrow> client \<Rightarrow> bool" where
  "client_quiet s0 s \<longleftrightarrow> buffer_frame s0 s \<and> received (hist s0) (hist s)"

definition client_dropped :: "client \<Rightarrow> client \<Rightarrow> bool" where
  "client_dropped s0 s \<longleftrightarrow> connection_closed s0 s \<and> client_same s0 s"

lemma client_more: "peer.more s = peer.more t \<Longrightarrow> csend s = csend t \<and> send_addr s = send_addr t"
  for s t :: client
  by (cases s; cases t; simp)

lemma client_quiet_refl [simp]: "client_quiet s s"
  by (simp add: client_quiet_def)

lemma client_quiet_trans: "client_quiet s t \<Longrightarrow> client_quiet t u \<Longrightarrow> client_quiet s u"
  by (auto simp: client_quiet_def elim: buffer_frame_trans received_trans)

lemma client_quiet_log [simp]: "client_quiet s0 s \<Longrightarrow> client_quiet s0 (after_log e l s)"
  by (simp add: client_quiet_def received_def)

lemma keeps_client_quiet:
  "keeps (client_quiet s0) (client_receive_tcp e)" "keeps (client_quiet s0) (client_receive_udp e)"
  unfolding client_quiet_def client_receive_tcp_def client_receive_udp_def
  by (intro keeps_conj receive_frame receive_received)+

interpretation client_tcp_quiet: drained "client_receive_tcp e" "client_quiet s0" for e s0
  by unfold_locales (rule keepsD [OF keeps_client_quiet(1)])

interpretation client_udp_quiet: drained "client_receive_udp e" "client_quiet s0" for e s0
  by unfold_locales (rule keepsD [OF keeps_client_quiet(2)])

lemma client_disconnect_drops:
  assumes "client_quiet s0 s"
  shows "client_dropped s0 (snd (run_state (client_disconnect e) s))"
proof -
  have f: "buffer_frame s0 s" and r: "received (hist s0) (hist s)"
    using assms by (simp_all add: client_quiet_def)
  note fields = buffer_frame_fields [OF f]
  have d: "disconnect_callback (after_log e l t) = disconnect_callback t" for l and t :: client
    by (simp add: after_log_def)
  define u where "u = snd (run_state (client_disconnect e) s)"
  have "infos u = (infos s)[0 := (infos s ! 0)\<lparr>tcp_socket := -1\<rparr>]" "poll_fds u = poll_fds s"
    "poll_nfds u = poll_nfds s" "poll_loop u = poll_loop s" "peer.more u = peer.more s" "opened (hist u) = opened (hist s)"
    "closed (hist u) = closed (hist s) + {#tcp_socket (infos s ! 0)#}"
    "callbacks (hist u) = callbacks (hist s) @ (if disconnect_callback s then [Cb DisconnectCb 1 []] else [])"
    by (simp_all add: u_def client_disconnect_def sys_defs run_syscall d)
  then show ?thesis
    unfolding u_def [symmetric] client_dropped_def connection_closed_def client_same_def
    using r fields client_more [of u s0] by (auto simp: received_def)
qed

text \<open>The outcome of one entry of the table, and of the scan.\<close>

lemma client_after_outcome:
  assumes "client_quiet s0 s" "run_state (client_after_tcp e r) s = (stop, s') \<or>
    run_state (client_after_udp e r) s = (stop, s')"
  shows "if stop then client_dropped s0 s' else client_quiet s0 s'"
proof -
  have "client_dropped s0 (snd (run_state (client_disconnect e) s))"
    "client_dropped s0 (snd (run_state (client_disconnect e) (after_log e UDTCP_LOG_LEVEL_ERROR s)))"
    "client_dropped s0 (snd (run_state (client_disconnect e)
      (after_log e UDTCP_LOG_LEVEL_ERROR (after_log e UDTCP_LOG_LEVEL_ERROR s))))"
    using assms(1) by (simp_all add: client_disconnect_drops)
  with assms show ?thesis
    by (cases stop) (auto simp: client_after_tcp_def client_after_udp_def split: if_splits prod.splits)
qed

text \<open>The cases of an entry.\<close>

lemma client_slot_cases:
  assumes "client_scan_slot e i s = Some (stop, s')"
  obtains (none) "\<not> stop" "s' = s"
    | (strange) "stop" "s' = after_log e UDTCP_LOG_LEVEL_ERROR s" "revents (poll_fds s ! i) \<noteq> 0"
        "revents (poll_fds s ! i) AND POLLIN = 0"
    | (message) r t where "drain e (\<lambda>r. 0 < r) (client_receive_tcp e) s = Some (r, t)"
        "run_state (client_after_tcp e r) t = (stop, s')"
    | (datagram) r t where "drain e (\<lambda>r. 0 < r) (client_receive_udp e) s = Some (r, t)"
        "run_state (client_after_udp e r) t = (stop, s')"
  using assms by (auto simp: client_scan_slot_def split: if_splits option.splits prod.splits)

lemma client_slot_outcome:
  assumes "client_quiet s0 s" "client_scan_slot e i s = Some (stop, s')"
  shows "if stop then client_dropped s0 s' \<or> client_quiet s0 s' \<and>
      revents (poll_fds s ! i) \<noteq> 0 \<and> revents (poll_fds s ! i) AND POLLIN = 0
    else client_quiet s0 s'"
  using assms(2)
proof (cases rule: client_slot_cases)
  case (message r t)
  from client_after_outcome [OF client_tcp_quiet.drain_inv [OF assms(1) message(1)] disjI1 [OF message(2)]]
  show ?thesis by (cases stop) simp_all
next
  case (datagram r t)
  from client_after_outcome [OF client_udp_quiet.drain_inv [OF assms(1) datagram(1)] disjI2 [OF datagram(2)]]
  show ?thesis by (cases stop) simp_all
qed (use assms(1) in simp_all)

text \<open>The scan ends at the first entry that says so.\<close>

lemma client_scan_rule:
  assumes "client_scan e i s = Some y" "P s"
    and "\<And>i s stop s'. P s \<Longrightarrow> i < poll_nfds s \<Longrightarrow> client_scan_slot e i s = Some (stop, s') \<Longrightarrow>
      if stop then Q s' else P s'"
  shows "if fst y = UDTCP_POLL_ERROR then Q (snd y) else fst y = UDTCP_POLL_SUCCESS \<and> P (snd y)"
  using assms
proof (induction rule: client_scan.raw_induct [rotated, consumes 1, case_names step])
  case (step scan e i s y)
  show ?case
  proof (cases "looping e s \<and> i < poll_nfds s")
    case False
    with step(2,3) show ?thesis by auto
  next
    case True
    then have nfds: "i < poll_nfds s" by simp
    from True obtain stop t where slot: "client_scan_slot e i s = Some (stop, t)"
      and rest: "(if stop then Some (UDTCP_POLL_ERROR, t) else scan e (Suc i) t) = Some y"
      using step(2) by (auto simp: bind_eq_Some_conv)
    show ?thesis
    proof (cases stop)
      case True
      with step(4) [OF step(3) nfds slot] rest show ?thesis by auto
    next
      case False
      with rest have "scan e (Suc i) t = Some y" by simp
      moreover from False step(4) [OF step(3) nfds slot] have "P t" by simp
      ultimately show ?thesis by (rule step(1)) (rule step(4))
    qed
  qed
qed

lemma client_scan_outcome:
  assumes "client_scan e i s = Some (r, s')"
  shows "r = UDTCP_POLL_SUCCESS \<and> client_quiet s s' \<or>
    r = UDTCP_POLL_ERROR \<and> (client_dropped s s' \<or> client_quiet s s' \<and>
      (\<exists>k < poll_nfds s. revents (poll_fds s ! k) \<noteq> 0 \<and> revents (poll_fds s ! k) AND POLLIN = 0))"
proof -
  let ?Q = "\<lambda>u. client_dropped s u \<or> client_quiet s u \<and>
    (\<exists>k < poll_nfds s. revents (poll_fds s ! k) \<noteq> 0 \<and> revents (poll_fds s ! k) AND POLLIN = 0)"
  have "if fst (r, s') = UDTCP_POLL_ERROR then ?Q (snd (r, s'))
    else fst (r, s') = UDTCP_POLL_SUCCESS \<and> client_quiet s (snd (r, s'))"
  proof (rule client_scan_rule [OF assms client_quiet_refl])
    fix k u stop u' assume u: "client_quiet s u" and k: "k < poll_nfds u"
      and slot: "client_scan_slot e k u = Some (stop, u')"
    have "poll_nfds u = poll_nfds s" "poll_fds u = poll_fds s"
      using u buffer_frame_fields [of s u] by (simp_all add: client_quiet_def)
    with client_slot_outcome [OF u slot] k show "if stop then ?Q u' else client_quiet s u'"
      by (cases stop) auto
  qed
  then show ?thesis by (auto split: if_splits)
qed

section \<open>What a call keeps\<close>

text \<open>The contract of a state predicate with the scan: every operation it is made of keeps it.\<close>

locale client_keeps =
  fixes e :: env and P :: "client \<Rightarrow> bool"
  assumes keeps_tcp: "keeps P (client_receive_tcp e)"
    and keeps_udp: "keeps P (client_receive_udp e)"
    and keeps_disconnect: "keeps P (client_disconnect e)"
    and keeps_log: "keeps P (udtcp_log e l)"
begin

sublocale tcp: drained "client_receive_tcp e" P
  by unfold_locales (rule keepsD [OF keeps_tcp])

sublocale udp: drained "client_receive_udp e" P
  by unfold_locales (rule keepsD [OF keeps_udp])

lemma after_keeps: "keeps P (client_after_tcp e r)" "keeps P (client_after_udp e r)"
  unfolding client_after_tcp_def client_after_udp_def
  by (intro inv_intros keeps_disconnect keeps_log)+

lemma log_keeps: "P s \<Longrightarrow> P (after_log e l s)"
  using keepsD [OF keeps_log] by (simp add: wp_simps)

lemma slot_keeps:
  assumes "P s" "client_scan_slot e i s = Some (stop, s')"
  shows "P s'"
  using assms(2)
proof (cases rule: client_slot_cases)
  case (message r t)
  show ?thesis by (rule keeps_run [OF after_keeps(1) tcp.drain_inv [OF assms(1) message(1)] message(2)])
next
  case (datagram r t)
  show ?thesis by (rule keeps_run [OF after_keeps(2) udp.drain_inv [OF assms(1) datagram(1)] datagram(2)])
qed (use assms(1) in \<open>simp_all add: log_keeps\<close>)

lemma poll_keeps:
  assumes "udtcp_client_poll e t s = Some (r, s')" "P s1" "run_state (poll_table e t) s = (p, s1)"
  shows "P s'"
proof -
  have "P u" if "client_scan e 0 s1 = Some (r, u)" for u
  proof -
    have "if fst (r, u) = UDTCP_POLL_ERROR then P (snd (r, u)) else fst (r, u) = UDTCP_POLL_SUCCESS \<and> P (snd (r, u))"
      by (rule client_scan_rule [OF that, where P = P and Q = P]) (auto intro: assms(2) slot_keeps)
    then show ?thesis by (simp split: if_splits)
  qed
  with assms show ?thesis by (auto simp: udtcp_client_poll_def log_keeps split: if_splits)
qed

end

text \<open>A predicate that the calls and the buffer operations keep is kept by the operations.\<close>

lemma client_ops_keep:
  fixes P :: "client \<Rightarrow> bool"
  assumes calls: "\<And>fds t. keeps P (syscall e (C_poll fds t))" "\<And>fd n. keeps P (syscall e (C_recv fd n))"
      "\<And>fd n pk. keeps P (syscall e (C_recvfrom fd n pk))" "\<And>fd. keeps P (syscall e (C_shutdown fd))"
      "\<And>fd. keeps P (syscall e (C_close fd))"
    and events: "\<And>l. keeps P (udtcp_log e l)" "\<And>f cb i d. keeps P (call_back f cb i d)"
      "\<And>i g. keeps P (set_infos i g)"
    and buffer: "\<And>off d. keeps P (store_buffer off d)" "\<And>n. keeps P (ensure_buffer e n)"
  shows "keeps P (client_receive_tcp e)" "keeps P (client_receive_udp e)" "keeps P (client_disconnect e)"
proof -
  note [inv_intros] = calls events buffer
  have into: "keeps P (recv_into e fd off n)" "keeps P (recvfrom_into e fd n)" for fd off n
    unfolding recv_into_def recvfrom_into_def sys_recv_def sys_recvfrom_def by (intro inv_intros)+
  have rest: "keeps P (State (recv_rest q e fd dsize got))" for q fd dsize got
    by (rule rest_keeps) (rule inv_intros)+
  show "keeps P (client_receive_tcp e)" "keeps P (client_receive_udp e)" "keeps P (client_disconnect e)"
    unfolding client_receive_tcp_def client_receive_udp_def receive_tcp_def receive_payload_def
      receive_udp_def receive_datagram_def sys_recv_def sys_recvfrom_def client_disconnect_def sys_int_def
    by (intro inv_intros into rest)+
qed

section \<open>The whole call\<close>

lemma poll_table_run:
  fixes s :: client
  assumes "run_state (poll_table e t) s = (r, s')"
  shows "connection_kept s s'" "client_same s s'" "disconnect_callback s' = disconnect_callback s"
    "mem_ok F K s \<Longrightarrow> mem_ok F K s'"
proof -
  have m: "map pfd (set_revents n vs ps) = map pfd ps" for n vs ps
    by (rule nth_equalityI) simp_all
  show "connection_kept s s'" "client_same s s'" "disconnect_callback s' = disconnect_callback s"
    using assms
    by (auto simp: poll_table_def run_syscall connection_kept_def client_same_def received_def m
        split: if_splits)
  show "mem_ok F K s'" if "mem_ok F K s"
    using assms that mem_ok_event [OF _ that]
    by (auto simp: poll_table_def run_syscall split: if_splits)
qed

lemma after_poll_table:
  fixes s :: client
  assumes p: "run_state (poll_table e t) s = (p, s1)"
  shows "client_quiet s1 u \<Longrightarrow> client_same s u \<and> connection_kept s u"
    "client_dropped s1 u \<Longrightarrow> client_same s u \<and> connection_closed s u"
proof -
  note one = poll_table_run(1-3) [OF p]
  show "client_same s u \<and> connection_kept s u" if "client_quiet s1 u"
    using one that buffer_frame_fields [of s1 u] client_more [of u s1]
    by (auto simp: client_quiet_def client_same_def connection_kept_def elim: received_trans)
  show "client_same s u \<and> connection_closed s u" if "client_dropped s1 u"
    using one that
    by (auto simp: client_dropped_def client_same_def connection_closed_def connection_kept_def
        received_def)
qed

lemma client_poll_outcome:
  assumes "udtcp_client_poll e t s = Some (r, s')"
  shows "client_same s s' \<and> (connection_kept s s' \<or> r = UDTCP_POLL_ERROR \<and> connection_closed s s')"
proof -
  obtain p s1 where p: "run_state (poll_table e t) s = (p, s1)" by fastforce
  from after_poll_table [OF p] show ?thesis
    using assms client_scan_outcome [of e 0 s1 r s'] client_quiet_log [OF client_quiet_refl]
    by (auto simp: udtcp_client_poll_def p split: if_splits)
qed

section \<open>Memory\<close>

lemma client_mem_ok:
  "keeps (mem_ok F K) (client_receive_tcp e)"
  "udp_sizes_fit e \<Longrightarrow> keeps (mem_ok F K) (client_receive_udp e)"
  "keeps (mem_ok F K) (client_disconnect e)"
  unfolding client_receive_tcp_def client_receive_udp_def client_disconnect_def sys_int_def
  by (rule receive_mem_ok receive_mem_ok(2), assumption?)+ (intro inv_intros; simp)

interpretation client_mem: client_keeps e "\<lambda>s. udp_sizes_fit e \<and> mem_ok F K s" for e F K
  by unfold_locales
    (auto simp: keeps_def wp_conj wp_run dest: keeps_run [OF client_mem_ok(1)] keeps_run [OF client_mem_ok(2)]
      keeps_run [OF client_mem_ok(3)] keeps_run [OF keeps_mem_ok(2)])

lemma client_poll_safe:
  assumes "udp_sizes_fit e" "mem_ok F K s" "udtcp_client_poll e t s = Some (r, s')"
  shows "mem_ok F K s'"
proof -
  obtain p s1 where p: "run_state (poll_table e t) s = (p, s1)" by fastforce
  from client_mem.poll_keeps [OF assms(3) _ p] poll_table_run(4) [OF p assms(2)] assms(1)
  show ?thesis by blast
qed

section \<open>Termination\<close>

interpretation client_tcp_finite: drained_finite "client_receive_tcp e"
    "\<lambda>_. runs_dry e N" "\<lambda>r. 0 < r" "\<lambda>s. N - reads (hist s)" for e N
proof unfold_locales
  fix s s' :: "'b peer_scheme" and r
  assume dry: "runs_dry e N"
  then show "wp (client_receive_tcp e) (\<lambda>_ _. runs_dry e N) s" by (simp add: wp_run)
  assume run: "run_state (client_receive_tcp e) s = (r, s')" and pos: "0 < r"
  from wp_runI [OF receive_progress(1) [OF dry] run [unfolded client_receive_tcp_def]] pos
  have "reads (hist s) < N" "has_read (Suc (reads (hist s))) s'" by simp_all
  then show "N - reads (hist s') < N - reads (hist s)" by (simp add: has_read_def)
qed

interpretation client_udp_finite: drained_finite "client_receive_udp e"
    "\<lambda>_. runs_dry e N" "\<lambda>r. 0 < r" "\<lambda>s. N - reads (hist s)" for e N
proof unfold_locales
  fix s s' :: "'b peer_scheme" and r
  assume dry: "runs_dry e N"
  then show "wp (client_receive_udp e) (\<lambda>_ _. runs_dry e N) s" by (simp add: wp_run)
  assume run: "run_state (client_receive_udp e) s = (r, s')" and pos: "0 < r"
  from wp_runI [OF receive_progress(2) [OF dry] run [unfolded client_receive_udp_def]] pos
  have "reads (hist s) < N" "has_read (Suc (reads (hist s))) s'" by simp_all
  then show "N - reads (hist s') < N - reads (hist s)" by (simp add: has_read_def)
qed

lemma client_slot_ends:
  assumes "runs_dry e N"
  shows "\<exists>stop s'. client_scan_slot e i s = Some (stop, s')"
proof -
  have "\<exists>r t. drain e (\<lambda>r. 0 < r) (client_receive_tcp e) s = Some (r, t)"
    "\<exists>r t. drain e (\<lambda>r. 0 < r) (client_receive_udp e) s = Some (r, t)"
    by (rule client_tcp_finite.drain_terminates client_udp_finite.drain_terminates, rule assms)+
  then show ?thesis by (auto simp: client_scan_slot_def simp del: split_paired_Ex)
qed

lemma client_slot_nfds:
  assumes "client_scan_slot e i s = Some (stop, s')"
  shows "poll_nfds s' = poll_nfds s"
  using client_slot_outcome [OF client_quiet_refl assms] buffer_frame_fields(3) [of s s']
  by (auto simp: client_dropped_def client_same_def client_quiet_def split: if_splits)

lemma client_scan_ends:
  assumes "runs_dry e N"
  shows "\<exists>y. client_scan e i s = Some y"
proof (induction "poll_nfds s - i" arbitrary: i s)
  case 0
  then show ?case by (subst client_scan.simps) simp
next
  case (Suc n)
  obtain stop t where slot: "client_scan_slot e i s = Some (stop, t)"
    using client_slot_ends [OF assms] by blast
  have "\<exists>y. client_scan e (Suc i) t = Some y"
    using Suc.hyps client_slot_nfds [OF slot] by simp
  with slot show ?case by (subst client_scan.simps) auto
qed

lemma client_poll_ends:
  assumes "runs_dry e N"
  shows "\<exists>r s'. udtcp_client_poll e t s = Some (r, s')"
proof -
  obtain p s1 where p: "run_state (poll_table e t) s = (p, s1)" by fastforce
  from client_scan_ends [OF assms, of 0 s1] show ?thesis by (auto simp: udtcp_client_poll_def p)
qed

end
