(* ===== verification/Udtcp_Connect_Outcome.thy ===== *)
theory Udtcp_Connect_Outcome
  imports Udtcp_Client_Lifecycle
begin

text \<open>
  What \<open>udtcp_connect_client\<close> leaves: which members it changes, what the structure of the server
  holds after a success, and whether its new socket is still open.
\<close>

section \<open>What stays\<close>

text \<open>Of the client's own structure only the TCP socket changes, and neither the poll table nor the
  send structure does.\<close>

definition linked :: "client \<Rightarrow> int \<Rightarrow> client \<Rightarrow> bool" where
  "linked s0 fd s \<longleftrightarrow> length (infos s) = 2 \<and> infos s ! 0 = (infos s0 ! 0)\<lparr>tcp_socket := fd\<rparr> \<and>
     poll_fds s = poll_fds s0 \<and> poll_nfds s = poll_nfds s0 \<and> csend s = csend s0 \<and>
     send_addr s = send_addr s0"

text \<open>A predicate that the calls outside the heap and the two parts that write strings and structures
  keep is kept by the whole function.\<close>

lemma connect_keep:
  fixes P :: "client \<Rightarrow> bool"
  assumes calls: "\<And>c. \<not> heap_call c \<Longrightarrow> keeps P (syscall e c)"
    and events: "\<And>l. keeps P (udtcp_log e l)" "\<And>f cb i d. keeps P (call_back f cb i d)"
      "\<And>i g. keeps P (set_infos i g)" "\<And>x. keeps P (set_errno x)"
    and parts: "\<And>x a. keeps P (udtcp_set_string_infos e x a)" "\<And>fd i. keeps P (recv_infos e fd i)"
  shows "keeps P (udtcp_connect_client e host port t)"
proof -
  note [inv_intros] = calls events parts
  have option: "keeps P (udtcp_socket_add_option e fd opt)" for fd opt
    unfolding udtcp_socket_add_option_def sys_int_def by (intro inv_intros; simp)
  show ?thesis
    unfolding udtcp_connect_client_def create_tcp_socket_def connect_to_def wait_connected_def
      client_initialize_connection_def complete_server_infos_def close_tcp_socket_def
      sys_send_def sys_poll1_def sys_int_def sys_do_def Let_def
    by (intro inv_intros option; simp)
qed

text \<open>The same, and since \<open>h\<close> the socket \<open>fd\<close> is all that has been opened and not closed
  (\<open>open_now\<close>), or nothing is, provided that \<open>socket\<close> has not failed.\<close>

definition connecting :: "client \<Rightarrow> bool \<Rightarrow> int \<Rightarrow> client \<Rightarrow> bool" where
  "connecting s0 open_now fd s \<longleftrightarrow> linked s0 fd s \<and>
     (0 \<le> fd \<longrightarrow> holds (if open_now then {#fd#} else {#}) {#} (hist s0) s)"

lemma connectingD: "connecting s0 b fd s \<Longrightarrow> tcp_socket (infos s ! 0) = fd"
  by (simp add: connecting_def linked_def)

lemma keeps_linked:
  "keeps (linked s0 fd) (syscall e c)" "keeps (linked s0 fd) (emit ev)"
  "keeps (linked s0 fd) (udtcp_log e l)" "keeps (linked s0 fd) (call_back f cb i d)"
  "keeps (linked s0 fd) (set_errno x)" "keeps (linked s0 fd) (set_infos 1 g)"
  by (auto simp: keeps_def wp_simps linked_def after_log_def after_cb_def intro: wp_syscallI)

lemma keeps_connecting [inv_intros]:
  "neutral c \<Longrightarrow> keeps (connecting s0 b fd) (syscall e c)"
  "keeps (connecting s0 b fd) (emit (Fault f'))"
  "keeps (connecting s0 b fd) (udtcp_log e l)" "keeps (connecting s0 b fd) (call_back f cb i d)"
  "keeps (connecting s0 b fd) (set_errno x)" "keeps (connecting s0 b fd) (set_infos 1 g)"
proof -
  have *: "keeps (connecting s0 b fd) m"
    if "keeps (linked s0 fd) m" "\<And>D M. keeps (holds D M (hist s0)) m" for m :: "(client, 'x) state"
    using that unfolding connecting_def keeps_def wp_run by blast
  show "neutral c \<Longrightarrow> keeps (connecting s0 b fd) (syscall e c)"
    "keeps (connecting s0 b fd) (emit (Fault f'))"
    "keeps (connecting s0 b fd) (udtcp_log e l)" "keeps (connecting s0 b fd) (call_back f cb i d)"
    "keeps (connecting s0 b fd) (set_errno x)" "keeps (connecting s0 b fd) (set_infos 1 g)"
    by (intro * keeps_linked keeps_holds; simp)+
qed

text \<open>The structure of the server after a success.\<close>

definition completed :: "u32 \<Rightarrow> udtcp_infos \<Rightarrow> client \<Rightarrow> bool" where
  "completed host_addr received s \<longleftrightarrow> (let me = infos s ! 0 in \<exists>hn i. infos s ! 1 =
     received\<lparr>tcp_addr := (tcp_addr received)\<lparr>sin_addr := host_addr\<rparr>,
       udp_server_addr := (udp_server_addr received)\<lparr>sin_addr := host_addr\<rparr>,
       udp_client_addr := (udp_client_addr received)\<lparr>sin_addr := host_addr\<rparr>,
       tcp_socket := tcp_socket me,
       udp_server_socket := udp_client_socket me,
       udp_client_socket := udp_server_socket me,
       send_ptr := send_addr s, info_id := 0, hostname := hn, ip := i\<rparr>)"

section \<open>The parts\<close>

lemma complete_server_infos_run:
  assumes "length (infos s) = 2"
  shows "wp (complete_server_infos e a) (\<lambda>_ s'. completed a (infos s ! 1) s' \<and>
    callbacks (hist s') = callbacks (hist s) @ (if connect_callback s then [Cb ConnectCb 1 []] else [])) s"
proof -
  have strings: "wp (udtcp_set_string_infos e x b) (\<lambda>x' t. (\<exists>hn i. x' = x\<lparr>hostname := hn, ip := i\<rparr>) \<and>
      infos t = infos u \<and> send_addr t = send_addr u \<and> connect_callback t = connect_callback u \<and>
      callbacks (hist t) = callbacks (hist u)) u" for x b u
  proof -
    have y: "\<exists>hn i. y = x\<lparr>hostname := hn, ip := i\<rparr>" if "y\<lparr>hostname := [], ip := []\<rparr> = x\<lparr>hostname := [], ip := []\<rparr>" for y
      using that by (cases x; cases y) simp
    show ?thesis
      by (auto simp: udtcp_set_string_infos_def copy_string_def wp_simps wp_syscall intro!: y)
  qed
  have addr: "send_addr (after_cb b c i d u) = send_addr u" for b c i d and u :: client
    by (simp add: after_cb_def)
  show ?thesis
    unfolding complete_server_infos_def Let_def
    by (rule wp_bind_gets, rule wp_bind_set_infos, rule wp_bind_gets, rule wp_bindI [OF strings])
      (use assms in \<open>auto simp: wp_simps completed_def Let_def addr\<close>)
qed

lemma complete_server_infos_keeps:
  "keeps (connecting s0 b fd) (complete_server_infos e a)"
  unfolding complete_server_infos_def udtcp_set_string_infos_def copy_string_def
  by (intro inv_intros; simp)

lemma close_tcp_socket_closes:
  assumes "connecting s0 True fd s"
  shows "wp (close_tcp_socket e) (\<lambda>_. connecting s0 False fd) s"
  using assms
  by (auto simp: close_tcp_socket_def wp_simps wp_calls wp_syscall connecting_def linked_def holds_def)

lemma create_tcp_socket_opens:
  assumes "client_wf s"
  shows "wp (create_tcp_socket e) (\<lambda>r s'. (r = 0 \<or> r = -1) \<and> (\<exists>fd. connecting s True fd s')) s"
proof -
  have k: "keeps (connecting s True fd) (sys_int e (C_setsockopt x o'))"
    "keeps (connecting s True fd) (sys_int e (C_bind x addr))"
    "keeps (connecting s True fd) (udtcp_socket_add_option e x opt)"
    "keeps (connecting s True fd) (log_error e)" for fd x o' addr opt
    unfolding udtcp_socket_add_option_def sys_int_def by (intro inv_intros; simp)+
  have open_sock: "wp (sys_int e (C_socket SOCK_STREAM)) (\<lambda>fd t. connecting s True fd
      (t\<lparr>infos := (infos t)[0 := (infos t ! 0)\<lparr>tcp_socket := fd\<rparr>]\<rparr>)) s"
    using assms by (auto simp: wp_sys_int client_wf_def connecting_def linked_def holds_def intro!: wp_syscallI)
  let ?Q = "\<lambda>r s'. (r = (0 :: int) \<or> r = -1) \<and> (\<exists>fd. connecting s True fd s')"
  have fail: "wp (do { log_error e; ret (-1) }) ?Q t" if "connecting s True fd t" for fd t
    by (rule wp_bindI [OF keepsD [OF k(4) that]]) (auto simp: wp_return)
  have step: "wp (do { r \<leftarrow> op; if P r then do { log_error e; ret (-1) } else rest }) ?Q t"
    if "keeps (connecting s True fd) op" "connecting s True fd t"
      "\<And>u. connecting s True fd u \<Longrightarrow> wp rest ?Q u"
    for op :: "(client, 'x) state" and P rest fd t
    by (rule wp_bindI [OF keepsD [OF that(1,2)]], rule wp_ifI) (rule fail that(3), assumption)+
  show ?thesis
    unfolding create_tcp_socket_def
  proof (rule wp_bindI [OF open_sock], rule wp_bind_set_infos, rule wp_ifI, erule fail)
    fix fd t assume c: "connecting s True fd (t\<lparr>infos := (infos t)[0 := (infos t ! 0)\<lparr>tcp_socket := fd\<rparr>]\<rparr>)"
    show "wp (do { r \<leftarrow> sys_int e (C_setsockopt fd SO_REUSEADDR);
     if r = -1 then do { log_error e; ret (-1) } else do {
     r \<leftarrow> sys_int e (C_setsockopt fd SO_REUSEPORT);
     if r = -1 then do { log_error e; ret (-1) } else do {
     r \<leftarrow> udtcp_socket_add_option e fd O_NONBLOCK;
     if r = -1 then do { log_error e; ret (-1) } else do {
     addr \<leftarrow> gets (\<lambda>s. tcp_addr (infos s ! 0));
     r \<leftarrow> sys_int e (C_bind fd addr);
     if r \<noteq> 0 then do { log_error e; ret (-1) } else ret 0 } } } }) ?Q
      (t\<lparr>infos := (infos t)[0 := (infos t ! 0)\<lparr>tcp_socket := fd\<rparr>]\<rparr>)"
      by (rule step [OF k(1) c], rule step [OF k(1)], assumption, rule step [OF k(3)], assumption,
          rule wp_bind_gets, rule step [OF k(2)], assumption) (auto simp: wp_return)
  qed
qed

lemma keeps_recv_infos_connecting: "keeps (connecting s0 b fd) (recv_infos e x 1)"
  unfolding recv_infos_def sys_recv_def by (intro inv_intros; simp)

lemma client_initialize_keeps:
  "keeps (connecting s0 b fd) (client_initialize_connection e)"
  unfolding client_initialize_connection_def sys_poll1_def sys_send_def
  by (intro inv_intros keeps_recv_infos_connecting; simp)

lemma wait_connected_outcome:
  assumes "connecting s0 True fd s"
  shows "wp (wait_connected e t) (\<lambda>r s'. case r of None \<Rightarrow> connecting s0 True fd s'
    | Some c \<Rightarrow> c \<noteq> UDTCP_CONNECT_SUCCESS \<and> connecting s0 False fd s') s"
proof -
  let ?Q = "\<lambda>r s'. case r of None \<Rightarrow> connecting s0 True fd s'
    | Some c \<Rightarrow> c \<noteq> UDTCP_CONNECT_SUCCESS \<and> connecting s0 False fd s'"
  have k: "neutral c \<Longrightarrow> keeps (connecting s0 True fd) (sys_int e c)"
    "keeps (connecting s0 True fd) (sys_poll1 e x ev tm)" for c x ev tm
    unfolding sys_int_def sys_poll1_def by (intro inv_intros; simp)+
  have failed: "wp (do { close_tcp_socket e; rest }) ?Q u"
    if "connecting s0 True fd u" "keeps (connecting s0 False fd) rest"
      "\<And>v. wp rest (\<lambda>r _. \<exists>c. r = Some c \<and> c \<noteq> UDTCP_CONNECT_SUCCESS) v" for u rest
  proof (rule wp_bindI [OF close_tcp_socket_closes [OF that(1)]])
    fix v assume "connecting s0 False fd v"
    with that(2,3) show "wp rest ?Q v" unfolding keeps_def wp_run by fastforce
  qed
  have l: "keeps (connecting s0 False fd) (do { udtcp_log e l; ret (Some c) })"
    "wp (do { udtcp_log e l; ret (Some c) }) (\<lambda>r _. \<exists>c. r = Some c \<and> c \<noteq> UDTCP_CONNECT_SUCCESS) v"
    if "c \<noteq> UDTCP_CONNECT_SUCCESS" for l c v
    using that by (auto simp: wp_simps intro!: inv_intros)
  have le: "keeps (connecting s0 False fd) (do { set_errno x; m })"
    "wp (do { set_errno x; m }) (\<lambda>r _. \<exists>c. r = Some c \<and> c \<noteq> UDTCP_CONNECT_SUCCESS) v"
    if "keeps (connecting s0 False fd) m"
      "\<And>v. wp m (\<lambda>r _. \<exists>c. r = Some c \<and> c \<noteq> UDTCP_CONNECT_SUCCESS) v" for m v x
    using that by (auto simp: wp_simps intro!: inv_intros)
  have pair: "wp (case x of (a, b) \<Rightarrow> f a b) ?Q u" if "\<And>a b. wp (f a b) ?Q u" for x f u
    using that by (cases x) simp
  have ok: "wp (ret None) ?Q u" if "connecting s0 True fd u" for u
    using that by (simp add: wp_return)
  show ?thesis
    unfolding wait_connected_def
    by (intro wp_bind_gets wp_ifI wp_bindI [OF keepsD [OF k(1)]] wp_bindI [OF keepsD [OF k(2)]] assms
        failed l le ok pair; (assumption | simp)?)
qed

section \<open>The callback\<close>

definition no_callback :: "client \<Rightarrow> client \<Rightarrow> bool" where
  "no_callback s0 s \<longleftrightarrow> callbacks (hist s) = callbacks (hist s0) \<and> connect_callback s = connect_callback s0"

lemma keeps_no_callback [inv_intros]:
  "keeps (no_callback s0) (syscall e c)" "keeps (no_callback s0) (emit (Fault f'))"
  "keeps (no_callback s0) (udtcp_log e l)" "keeps (no_callback s0) (set_errno x)"
  "keeps (no_callback s0) (set_infos i g)"
  by (auto simp: keeps_def wp_simps no_callback_def after_log_def intro: wp_syscallI)

lemma parts_no_callback:
  "keeps (no_callback s0) (close_tcp_socket e)" "keeps (no_callback s0) (create_tcp_socket e)"
  "keeps (no_callback s0) (wait_connected e t)" "keeps (no_callback s0) (client_initialize_connection e)"
proof -
  show close: "keeps (no_callback s0) (close_tcp_socket e)"
    unfolding close_tcp_socket_def sys_do_def by (intro inv_intros)
  show "keeps (no_callback s0) (create_tcp_socket e)"
    unfolding create_tcp_socket_def udtcp_socket_add_option_def sys_int_def by (intro inv_intros)
  show "keeps (no_callback s0) (wait_connected e t)"
    unfolding wait_connected_def sys_int_def sys_poll1_def by (intro inv_intros close)
  show "keeps (no_callback s0) (client_initialize_connection e)"
    unfolding client_initialize_connection_def recv_infos_def sys_recv_def sys_send_def sys_poll1_def
    by (intro inv_intros)
qed

section \<open>The whole function\<close>

text \<open>A success: the socket is open, the structure of the server complete, the callback has run.
  A failure: the socket is closed, no callback; but it stays open when the resolver knows no
  such host.\<close>

definition connect_outcome :: "env \<Rightarrow> byte list \<Rightarrow> client \<Rightarrow> udtcp_connect_e \<Rightarrow> client \<Rightarrow> bool" where
  "connect_outcome e host s0 r s \<longleftrightarrow> (\<exists>fd. if r = UDTCP_CONNECT_SUCCESS
     then connecting s0 True fd s \<and> (\<exists>a x. completed a x s) \<and> callbacks (hist s) =
       callbacks (hist s0) @ (if connect_callback s0 then [Cb ConnectCb 1 []] else [])
     else no_callback s0 s \<and> (connecting s0 False fd s \<or> connecting s0 True fd s \<and>
       r = UDTCP_CONNECT_ERROR \<and> (\<exists>h. rv (os e h (C_gethostbyname host)) = 0)))"

lemma wp_both: "wp m P s \<Longrightarrow> keeps I m \<Longrightarrow> I s \<Longrightarrow> wp m (\<lambda>r s'. P r s' \<and> I s') s"
  unfolding keeps_def wp_run by blast

lemma connect_client_outcome:
  assumes "client_wf s"
  shows "wp (udtcp_connect_client e host port t) (connect_outcome e host s) s"
proof -
  let ?Q = "connect_outcome e host s"
  note nc = parts_no_callback [of s]
  have closed: "wp (do { close_tcp_socket e; ret c }) ?Q u"
    if "connecting s True fd u" "no_callback s u" "c \<noteq> UDTCP_CONNECT_SUCCESS" for u fd c
    by (rule wp_bindI [OF wp_both [OF close_tcp_socket_closes [OF that(1)] nc(1) that(2)]])
      (use that(3) in \<open>auto simp: wp_return connect_outcome_def\<close>)
  have finish: "wp (do { complete_server_infos e a; ret UDTCP_CONNECT_SUCCESS }) ?Q u"
    if "connecting s True fd u" "no_callback s u" for a u fd
  proof -
    have "length (infos u) = 2" using that(1) by (simp add: connecting_def linked_def)
    from wp_both [OF complete_server_infos_run [OF this] complete_server_infos_keeps that(1)]
    show ?thesis
      by (rule wp_bindI) (use that(2) in \<open>auto simp: wp_return connect_outcome_def no_callback_def\<close>)
  qed
  have shake: "wp (do { c \<leftarrow> client_initialize_connection e;
      if c \<noteq> UDTCP_CONNECT_SUCCESS then do { close_tcp_socket e; ret c }
      else do { complete_server_infos e a; ret UDTCP_CONNECT_SUCCESS } }) ?Q u"
    if "connecting s True fd u" "no_callback s u" for a u fd
  proof -
    have "keeps (\<lambda>s'. connecting s True fd s' \<and> no_callback s s') (client_initialize_connection e)"
      by (intro keeps_conj client_initialize_keeps nc)
    from keepsD [OF this, of u] that show ?thesis
      by (intro wp_bindI [of _ "\<lambda>_ s'. connecting s True fd s' \<and> no_callback s s'"])
        (auto intro: closed finish)
  qed
  have to: "wp (connect_to e a port t) ?Q u" if "connecting s True fd u" "no_callback s u" for a u fd
  proof -
    define g :: "udtcp_infos \<Rightarrow> udtcp_infos" where "g = (\<lambda>x. x\<lparr>tcp_addr := zero_sockaddr\<lparr>sin_family := AF_INET, sin_addr := a,
      sin_port := htons port\<rparr>\<rparr>)"
    have "keeps (\<lambda>s'. connecting s True fd s' \<and> no_callback s s') (set_infos 1 g)"
      by (intro keeps_conj inv_intros)
    from keepsD [OF this, of u] that
    have u: "connecting s True fd (u\<lparr>infos := (infos u)[1 := g (infos u ! 1)]\<rparr>)"
      "no_callback s (u\<lparr>infos := (infos u)[1 := g (infos u ! 1)]\<rparr>)" by (simp_all add: wp_simps)
    show ?thesis
      unfolding connect_to_def g_def [symmetric]
    proof (rule wp_bind_set_infos, rule wp_bindI [OF wp_both [OF wait_connected_outcome [OF u(1)] nc(3) u(2)]])
      fix failed v
      assume v: "(case failed of None \<Rightarrow> connecting s True fd v
        | Some c \<Rightarrow> c \<noteq> UDTCP_CONNECT_SUCCESS \<and> connecting s False fd v) \<and> no_callback s v"
      show "wp (case failed of None \<Rightarrow> do { c \<leftarrow> client_initialize_connection e;
          if c \<noteq> UDTCP_CONNECT_SUCCESS then do { close_tcp_socket e; ret c }
          else do { complete_server_infos e a; ret UDTCP_CONNECT_SUCCESS } }
        | Some c \<Rightarrow> ret c) ?Q v"
        using v shake by (cases failed) (auto simp: wp_return connect_outcome_def)
    qed
  qed
  have lookup: "wp (do { host_entity \<leftarrow> syscall e (C_gethostbyname host);
       if rv host_entity = 0 then do { log_error e; ret UDTCP_CONNECT_ERROR }
       else connect_to e (host_addr_of host_entity) port t }) ?Q u"
    if "connecting s True fd u" "no_callback s u" for u fd
  proof -
    have k: "keeps (\<lambda>s'. connecting s True fd s' \<and> no_callback s s') (syscall e (C_gethostbyname host))"
      "keeps (\<lambda>s'. connecting s True fd s' \<and> no_callback s s') (log_error e)"
      by (intro keeps_conj inv_intros; simp)+
    have sys: "wp (syscall e (C_gethostbyname host)) (\<lambda>r s'. (connecting s True fd s' \<and> no_callback s s') \<and>
        r = os e (hist u) (C_gethostbyname host)) u"
      using keepsD [OF k(1), of u] that by (auto simp: wp_run run_syscall)
    have err: "wp (do { log_error e; ret UDTCP_CONNECT_ERROR }) ?Q v"
      if "connecting s True fd v" "no_callback s v" "rv (os e h (C_gethostbyname host)) = 0" for v h
      by (rule wp_bindI [OF keepsD [OF k(2)]])
        (use that in \<open>auto simp: wp_return connect_outcome_def\<close>)
    show ?thesis by (rule wp_bindI [OF sys], rule wp_ifI) (auto intro: err to)
  qed
  have "no_callback s s" by (simp add: no_callback_def)
  from wp_both [OF create_tcp_socket_opens [OF assms] nc(2) this]
  show ?thesis
    unfolding udtcp_connect_client_def
    by (rule wp_bindI, intro wp_ifI) (auto intro: closed lookup)
qed

end
