(* ===== verification/Udtcp_Claims_Client.thy ===== *)
theory Udtcp_Claims_Client
  imports Udtcp_Example Udtcp_Client_Safety Udtcp_Connect_Outcome
begin

text \<open>
  The properties of the client: what a call of \<open>udtcp_client_poll\<close> does to the connection, its
  memory safety and its end; what connecting leaves behind.
\<close>

section \<open>Polling\<close>

text \<open>C12. A call of \<open>udtcp_client_poll\<close> either keeps the connection, receiving messages only, or
  closes its socket exactly once, forgets it, tells the callback after all messages, and returns
  \<open>UDTCP_POLL_ERROR\<close>; nothing else in the structure changes.\<close>

theorem client_poll_keeps_or_closes:
  assumes "udtcp_client_poll e t s = Some (r, s')"
  shows "client_same s s' \<and> (connection_kept s s' \<or> r = UDTCP_POLL_ERROR \<and> connection_closed s s')"
  by (rule client_poll_outcome [OF assms])

text \<open>A server that has closed its side: the socket is readable and every \<open>recv\<close> returns 0.\<close>

definition closed_env :: env where
  "closed_env = mk_env (\<lambda>_ c. case c of
      C_poll fds _ \<Rightarrow> ok_reply\<lparr>rv := int (length fds), revs := map (\<lambda>_. POLLIN) fds\<rparr>
    | _ \<Rightarrow> ok_reply)"

lemma client_poll_keeps_or_closes_witness:
  "\<exists>s'. udtcp_client_poll closed_env 0 blank_client = Some (UDTCP_POLL_ERROR, s') \<and>
     connection_closed blank_client s'"
proof -
  let ?p = "\<lambda>fds. ok_reply\<lparr>rv := int (length fds), revs := map (\<lambda>_. POLLIN) fds\<rparr>"
  have os: "os closed_env h (C_poll fds t) = ?p fds" "os closed_env h (C_recv fd n) = ok_reply"
    "os closed_env h (C_shutdown fd) = ok_reply" "os closed_env h (C_close fd) = ok_reply"
    "stop_seen closed_env h = False" for h fds t fd n
    by (simp_all add: closed_env_def)
  obtain s1 where poll: "run_state (poll_table closed_env 0) blank_client = (2, s1)"
    and s1: "poll_fds s1 = [zero_pollfd\<lparr>revents := POLLIN\<rparr>, zero_pollfd\<lparr>revents := POLLIN\<rparr>]"
      "infos s1 = infos blank_client" "poll_nfds s1 = 2" "poll_loop s1 = 1"
    by (simp add: poll_table_def run_syscall os set_revents_def)
  obtain s2 where recv: "run_state (client_receive_tcp closed_env) s1 = (0, s2)"
    and s2: "infos s2 = [zero_infos, zero_infos]"
    using s1(2) by (simp add: client_receive_tcp_def receive_tcp_def sys_recv_def run_syscall os
        recv_result_def ok_reply_def)
  define s3 where "s3 = snd (run_state (client_disconnect closed_env) s2)"
  have s3: "tcp_socket (infos s3 ! 0) = -1"
    using s2 by (simp add: s3_def client_disconnect_def sys_defs run_syscall os ok_reply_def)
  have "client_scan_slot closed_env 0 s1 = Some (True, s3)"
    using s1 recv by (simp add: client_scan_slot_def drain_def while_option_unfold s3_def
        client_after_tcp_def poll_flag_defs split: prod.splits)
  then have "client_scan closed_env 0 s1 = Some (UDTCP_POLL_ERROR, s3)"
    using s1 by (subst client_scan.simps) (auto simp: looping_def os)
  then have run: "udtcp_client_poll closed_env 0 blank_client = Some (UDTCP_POLL_ERROR, s3)"
    by (simp add: udtcp_client_poll_def poll)
  from client_poll_keeps_or_closes [OF run] s3 have "connection_closed blank_client s3"
    by (auto simp: connection_kept_def)
  with run show ?thesis by blast
qed

text \<open>A call of \<open>udtcp_client_poll\<close> is memory safe and loses no memory, provided that no
  datagram announces a size whose frame does not fit a \<open>uint32_t\<close>.\<close>

theorem client_poll_memory_safe:
  assumes "udp_sizes_fit e" "buffer_ok s" "heap_balanced K s" "udtcp_client_poll e t s = Some (r, s')"
  shows "buffer_ok s' \<and> heap_balanced K s' \<and> faults (hist s') = faults (hist s)"
  using client_poll_safe [OF assms(1) _ assms(4), of "faults (hist s)" K] assms(2,3)
  by (simp add: mem_ok_def)

lemma client_poll_memory_safe_witness:
  "\<exists>r s'. udtcp_client_poll idle_env 0 blank_client = Some (r, s') \<and> buffer_ok s' \<and>
     heap_balanced {#} s' \<and> faults (hist s') = []"
proof -
  have fit: "udp_sizes_fit idle_env" using idle_env_ok(1) by (simp add: polite_def)
  obtain r s' where run: "udtcp_client_poll idle_env 0 blank_client = Some (r, s')"
    using client_poll_ends [OF idle_env_ok(2)] by blast
  from client_poll_memory_safe [OF fit blank_client_ok(2,3) run] run show ?thesis by simp
qed

text \<open>A call of \<open>udtcp_client_poll\<close> ends when the kernel runs dry.\<close>

theorem client_poll_terminates:
  assumes "runs_dry e N"
  shows "\<exists>r s'. udtcp_client_poll e t s = Some (r, s')"
  by (rule client_poll_ends [OF assms])

lemma client_poll_terminates_witness: "\<exists>r s'. udtcp_client_poll idle_env 5 blank_client = Some (r, s')"
  by (rule client_poll_terminates [OF idle_env_ok(2)])

section \<open>Connecting\<close>



text \<open>A host that the resolver does not know costs a descriptor: the socket made for the
  connection is neither used nor closed.\<close>

theorem connect_leaks_socket:
  assumes "client_wf s" "run_state (create_tcp_socket e) s = (0, s1)"
    and "rv (os e (hist s1) (C_gethostbyname host)) = 0"
  shows "\<exists>s' fd. run_state (udtcp_connect_client e host port t) s = (UDTCP_CONNECT_ERROR, s') \<and>
    tcp_socket (infos s' ! 0) = fd \<and> (0 \<le> fd \<longrightarrow> holds {#fd#} {#} (hist s) s')"
proof -
  let ?r = "os e (hist s1) (C_gethostbyname host)"
  obtain fd where c: "connecting s True fd s1"
    using wp_runI [OF create_tcp_socket_opens [OF assms(1)] assms(2)] by blast
  have "keeps (connecting s True fd) (do { syscall e (C_gethostbyname host); log_error e })"
    by (intro inv_intros) simp
  from keeps_run_state [OF this c] connectingD show ?thesis
    by (auto simp: udtcp_connect_client_def assms(2,3) run_syscall connecting_def linked_def)
qed

definition no_host_env :: env where
  "no_host_env = mk_env (\<lambda>_ c. case c of C_socket _ \<Rightarrow> ok_reply\<lparr>rv := 7\<rparr> | _ \<Rightarrow> ok_reply)"

lemma connect_leaks_socket_witness:
  "\<exists>s'. run_state (udtcp_connect_client no_host_env [] 4242 0) blank_client = (UDTCP_CONNECT_ERROR, s') \<and>
     holds {#7#} {#} [] s'"
proof -
  have os: "os no_host_env h (C_socket k) = ok_reply\<lparr>rv := 7\<rparr>" "os no_host_env h (C_setsockopt fd o') = ok_reply"
    "os no_host_env h (C_getfl fd) = ok_reply" "os no_host_env h (C_setfl fd v) = ok_reply"
    "os no_host_env h (C_bind fd a) = ok_reply" "os no_host_env h (C_gethostbyname n) = ok_reply"
    for h k fd o' v a n
    by (simp_all add: no_host_env_def)
  have rv: "rv ok_reply = 0" by (simp add: ok_reply_def)
  obtain s1 where run: "run_state (create_tcp_socket no_host_env) blank_client = (0, s1)"
    and fd: "tcp_socket (infos s1 ! 0) = 7"
    by (simp add: create_tcp_socket_def udtcp_socket_add_option_def sys_defs run_syscall os rv)
  from connect_leaks_socket [OF blank_client_ok(1) run, of "[]" 4242 0] obtain s' where
    s': "run_state (udtcp_connect_client no_host_env [] 4242 0) blank_client = (UDTCP_CONNECT_ERROR, s')"
    "0 \<le> tcp_socket (infos s' ! 0) \<longrightarrow> holds {#tcp_socket (infos s' ! 0)#} {#} [] s'"
    by (auto simp: os rv)
  moreover have "tcp_socket (infos s' ! 0) = 7"
    using s'(1) fd by (simp add: udtcp_connect_client_def run run_syscall os rv) (auto simp: fd)
  ultimately show ?thesis by auto
qed


text \<open>A server at 10.0.0.1 whose structure is all zeros.\<close>

definition connect_env :: env where
  "connect_env = mk_env (\<lambda>_ c. case c of
      C_socket _ \<Rightarrow> ok_reply\<lparr>rv := 7\<rparr>
    | C_gethostbyname _ \<Rightarrow> ok_reply\<lparr>rv := 1, payload := [10, 0, 0, 1]\<rparr>
    | C_poll _ _ \<Rightarrow> ok_reply\<lparr>rv := 1, revs := [POLLIN]\<rparr>
    | C_recv _ _ \<Rightarrow> ok_reply\<lparr>payload := infos_bytes zero_infos\<rparr>
    | C_send _ d \<Rightarrow> ok_reply\<lparr>rv := int (length d)\<rparr>
    | _ \<Rightarrow> ok_reply)"

lemma connect_env_succeeds:
  assumes "client_wf s"
  shows "\<exists>s'. run_state (udtcp_connect_client connect_env [] 4242 0) s = (UDTCP_CONNECT_SUCCESS, s') \<and>
    tcp_socket (infos s' ! 0) = 7 \<and> udp_server_socket (infos s' ! 0) = udp_server_socket (infos s ! 0)"
proof -
  have os: "rv (os connect_env h (C_socket k)) = 7" "rv (os connect_env h (C_setsockopt fd o')) = 0"
    "rv (os connect_env h (C_getfl fd)) = 0" "rv (os connect_env h (C_setfl fd v)) = 0"
    "rv (os connect_env h (C_bind fd a)) = 0" "rv (os connect_env h (C_gethostbyname n)) = 1"
    "rv (os connect_env h (C_connect fd a)) = 0" "rv (os connect_env h (C_poll fds tm)) = 1"
    "rv (os connect_env h (C_send fd d)) = int (length d)"
    "recv_result (sizeof_udtcp_infos + 1) (os connect_env h (C_recv fd (sizeof_udtcp_infos + 1))) =
      (int sizeof_udtcp_infos, infos_bytes zero_infos)"
    for h k fd o' v a n fds tm d
    by (simp_all add: connect_env_def ok_reply_def recv_result_def)
  have ne: "infos_bytes zero_infos \<noteq> []" "sizeof_udtcp_infos \<noteq> 0"
    by (simp_all add: sizeof_udtcp_infos_def flip: length_0_conv)
  have len: "0 < length (infos s)" using assms by (simp add: client_wf_def)
  obtain s1 where create: "run_state (create_tcp_socket connect_env) s = (0, s1)"
    "tcp_socket (infos s1 ! 0) = 7"
    using len by (simp add: create_tcp_socket_def udtcp_socket_add_option_def sys_defs run_syscall os)
  with wp_runI [OF create_tcp_socket_opens [OF assms] create(1)] have c1: "connecting s True 7 s1"
    by (metis connectingD)
  have c2: "wp (syscall connect_env (C_gethostbyname [])) (\<lambda>r t. connecting s True 7 t \<and> rv r \<noteq> 0) s1"
    using keepsD [OF keeps_connecting(1) c1, of "C_gethostbyname []" connect_env]
    by (auto simp: wp_run run_syscall os)
  have wait: "wp (wait_connected connect_env 0) (\<lambda>r t'. r = None \<and> connecting s True 7 t') t"
    if "connecting s True 7 t" for t
  proof -
    have "wp (wait_connected connect_env 0) (\<lambda>r _. r = None) t"
      by (simp add: wait_connected_def wp_simps wp_calls wp_syscall os)
    with wait_connected_outcome [OF that, of connect_env 0] show ?thesis by (auto simp: wp_run)
  qed
  have shake: "wp (client_initialize_connection connect_env) (\<lambda>r t'. r = UDTCP_CONNECT_SUCCESS \<and>
      connecting s True 7 t') t" if "connecting s True 7 t" for t
  proof -
    have "wp (client_initialize_connection connect_env) (\<lambda>r _. r = UDTCP_CONNECT_SUCCESS) t"
      using ne by (simp add: client_initialize_connection_def wp_simps wp_calls wp_syscall wp_recv_infos os
          os(10) [unfolded Suc_eq_plus1 [symmetric]] Let_def)
    with keepsD [OF client_initialize_keeps that, of connect_env] show ?thesis by (auto simp: wp_run)
  qed
  have info: "connecting s True 7 (t\<lparr>infos := (infos t)[1 := z]\<rparr>)" if "connecting s True 7 t" for t z
    using keepsD [OF keeps_connecting(6) that, of "\<lambda>_. z"] by (simp add: wp_simps)
  have "wp (connect_to connect_env a 4242 0) (\<lambda>r t'. r = UDTCP_CONNECT_SUCCESS \<and> connecting s True 7 t') t"
    if "connecting s True 7 t" for a t
    unfolding connect_to_def
    by (rule wp_bind_set_infos, rule wp_bindI [OF wait [OF info [OF that]]], clarsimp simp del: One_nat_def,
        rule wp_bindI [OF shake], assumption, clarsimp,
        rule wp_bindI [OF keepsD [OF complete_server_infos_keeps]], assumption, simp add: wp_return)
  then have "wp (do { host_entity \<leftarrow> syscall connect_env (C_gethostbyname []);
       if rv host_entity = 0 then do { log_error connect_env; ret UDTCP_CONNECT_ERROR }
       else connect_to connect_env (host_addr_of host_entity) 4242 0 })
     (\<lambda>r t'. r = UDTCP_CONNECT_SUCCESS \<and> connecting s True 7 t') s1"
    by (intro wp_bindI [OF c2]) simp
  then show ?thesis
    by (auto simp: udtcp_connect_client_def create(1) wp_def connecting_def linked_def split: prod.splits)
qed


end
