(* ===== verification/Udtcp_Server_Construction.thy ===== *)
theory Udtcp_Server_Construction
  imports Udtcp_Server_Lifecycle
begin

text \<open>
  What deleting a server releases, and what creating one holds: on success its three sockets and
  42 mutexes, on failure nothing, except for the mutex that the clean-up loop of
  \<open>create_server.c\<close> forgets.
\<close>

section \<open>Deleting\<close>

lemma delete_clients_destructs:
  "wp (delete_clients e ks)
     (\<lambda>_. destructs (\<Sum>\<^sub># (mset (map (\<lambda>k. valid_fd (pfd (poll_fds s ! k))) ks))) {#} {#} s) s"
proof (induction ks arbitrary: s)
  case (Cons k ks)
  have rest: "wp (delete_clients e ks)
      (\<lambda>_. destructs (\<Sum>\<^sub># (mset (map (\<lambda>k. valid_fd (pfd (poll_fds s ! k))) ks))) {#} {#} t) t"
    if "sys_frame s t" for t
    using Cons.IH [of t] frame_server(3) [OF that] by simp
  have cb: "wp (if fd \<noteq> -1 then call_back disconnect_callback DisconnectCb k [] else skip)
      (\<lambda>_. destructs {#} {#} {#} t) t" for fd and t :: server by simp
  show ?case
    by (simp only: delete_clients.simps, rule wp_bind_gets,
        rule wp_destructs_bind [OF shutdown_logged_destructs],
        rule wp_destructs_bind [OF close_logged_destructs], rule wp_destructs_bind [OF cb], rule rest)
      (simp_all, meson sys_frame_trans)
qed simp

text \<open>The descriptors and the blocks a server owns.\<close>

definition server_fds :: "server \<Rightarrow> int multiset" where
  "server_fds s = valid_fd (tcp_socket (infos s ! 0)) + valid_fd (udp_server_socket (infos s ! 0)) +
     valid_fd (udp_client_socket (infos s ! 0)) +
     \<Sum>\<^sub># (mset (map (\<lambda>k. valid_fd (pfd (poll_fds s ! k))) [2..<poll_nfds s]))"

definition server_mutexes :: "server \<Rightarrow> u64 multiset" where
  "server_mutexes s = mset (map (sends_addr s) [2..<UDTCP_POLL_TABLE_SIZE])"

definition server_blocks :: "server \<Rightarrow> int multiset" where
  "server_blocks s = \<Sum>\<^sub># (mset (map (\<lambda>k. send_block (sends s ! k)) [2..<UDTCP_POLL_TABLE_SIZE])) +
     buffer_block s + {#uint (server_addr s)#}"

lemma delete_server_destructs:
  assumes "buffer_sized s" "\<forall>k \<in> {2..<UDTCP_POLL_TABLE_SIZE}. sized (sends s ! k)"
  shows "wp (udtcp_delete_server e)
    (\<lambda>_. destructs (server_fds s) (server_mutexes s) (server_blocks s) s) s"
proof -
  let ?ks = "[2..<UDTCP_POLL_TABLE_SIZE]"
  let ?D = "\<Sum>\<^sub># (mset (map (\<lambda>k. valid_fd (pfd (poll_fds s ! k))) [2..<poll_nfds s]))"
  have buffer: "wp (do { u \<leftarrow> gets id;
      (if buffer_size u > 0 then udtcp_free_buffer e (buffer_data u) else skip);
      udtcp_free_server e }) (\<lambda>_. destructs {#} {#} (buffer_block s + {#uint (server_addr s)#}) t) t" if "sys_frame s t" for t
    by (rule wp_bind_gets, unfold id_apply frame_server [OF that],
        rule wp_destructs_bind [OF free_receive_buffer [OF assms(1)] free_server_frame])
      (simp_all add: sys_frame_trans [OF that])
  have tables: "wp (do { n \<leftarrow> gets poll_nfds; delete_clients e [2..<n]; u \<leftarrow> gets id;
      (if buffer_size u > 0 then udtcp_free_buffer e (buffer_data u) else skip);
      udtcp_free_server e }) (\<lambda>_. destructs ?D {#} (buffer_block s + {#uint (server_addr s)#}) t) t" if "sys_frame s t" for t
  proof -
    have del: "wp (delete_clients e [2..<poll_nfds s]) (\<lambda>_. destructs ?D {#} {#} t) t"
      using delete_clients_destructs [of e "[2..<poll_nfds s]" t] by (simp only: frame_server [OF that])
    show ?thesis
      by (rule wp_bind_gets, unfold frame_server [OF that], rule wp_destructs_bind [OF del], rule buffer)
        (simp_all add: sys_frame_trans [OF that])
  qed
  have sends: "wp (delete_sends e ?ks) (\<lambda>_. destructs {#} (server_mutexes s)
      (\<Sum>\<^sub># (mset (map (\<lambda>k. send_block (sends s ! k)) ?ks))) t) t" if "sys_frame s t" for t
  proof -
    have "sends_addr t = sends_addr s" using frame_server(2) [OF that] by (rule ext)
    with delete_sends_destructs [of ?ks t e] assms(2) frame_server(1) [OF that]
    show ?thesis by (simp add: server_mutexes_def)
  qed
  show ?thesis
    unfolding udtcp_delete_server_def
    by (rule wp_bind_gets, rule wp_destructs_bind [OF close_logged_destructs],
        rule wp_destructs_bind [OF close_logged_destructs],
        rule wp_destructs_bind [OF close_logged_destructs],
        rule wp_destructs_bind [OF sends], (meson sys_frame_trans)+, rule tables)
      ((meson sys_frame_trans)+, simp_all add: server_fds_def server_blocks_def add_ac)
qed

section \<open>The mutexes\<close>

text \<open>After a failure at slot \<open>j\<close> the clean-up loop stops before slot 2, whose mutex stays.\<close>

definition forgotten :: "server \<Rightarrow> nat \<Rightarrow> u64 multiset" where
  "forgotten s j = (if j = 2 then {#} else {#sends_addr s 2#})"

lemma cleanup_mutexes:
  assumes "holds {#} (mset (map (sends_addr s) [2..<j])) h s" "2 \<le> j"
  shows "wp (do { destroy_mutexes e (cleanup_slots j); udtcp_free_server e; ret False })
    (\<lambda>ok s'. \<not> ok \<and> sys_frame s s' \<and> holds {#} (forgotten s j) h s') s"
proof -
  have "mset (map (sends_addr s) [2..<j]) = forgotten s j + mset (map (sends_addr s) (cleanup_slots j))"
    using assms(2) by (cases "j = 2") (simp_all add: forgotten_def cleanup_slots_def upt_rec [of 2 j])
  then have h: "holds ({#} + {#}) (forgotten s j + mset (map (sends_addr s) (cleanup_slots j))) h s"
    using assms(1) by simp
  have "wp (do { destroy_mutexes e (cleanup_slots j); udtcp_free_server e })
      (\<lambda>_. destructs {#} (mset (map (sends_addr s) (cleanup_slots j))) {#uint (server_addr s)#} s) s"
    by (rule wp_destructs_bind [OF destroy_mutexes_destructs free_server_frame]) simp_all
  then have "wp (do { destroy_mutexes e (cleanup_slots j); udtcp_free_server e })
      (\<lambda>_ s'. sys_frame s s' \<and> holds {#} (forgotten s j) h s') s"
    by (rule wp_mono) (simp add: holds_destructs [OF h] destructs_def)
  then show ?thesis by (simp add: wp_bind wp_return)
qed

text \<open>The mutexes from 2 to \<open>k - 1\<close> exist, or the initialisation has failed at some \<open>j\<close> from \<open>i\<close> on.\<close>

definition mutexes_outcome :: "env \<Rightarrow> event list \<Rightarrow> server \<Rightarrow> nat \<Rightarrow> nat \<Rightarrow> bool \<Rightarrow> server \<Rightarrow> bool" where
  "mutexes_outcome e h s i k ok s' \<longleftrightarrow> sys_frame s s' \<and>
    (if ok then holds {#} (mset (map (sends_addr s) [2..<k])) h s' \<and>
       (\<forall>j. i \<le> j \<and> j < k \<longrightarrow> (\<exists>h'. rv (os e h' (C_mutex_init (sends_addr s j))) = 0))
     else \<exists>j. i \<le> j \<and> j < k \<and> (\<exists>h'. rv (os e h' (C_mutex_init (sends_addr s j))) \<noteq> 0) \<and>
       holds {#} (forgotten s j) h s')"

lemma mutexes_outcome_later:
  assumes "sys_frame s t" "mutexes_outcome e h t (Suc i) k ok s'"
    and "rv (os e h' (C_mutex_init (sends_addr s i))) = 0"
  shows "mutexes_outcome e h s i k ok s'"
proof -
  have addr: "sends_addr t = sends_addr s" using frame_server(2) [OF assms(1)] by (rule ext)
  then have "forgotten t = forgotten s" by (simp add: forgotten_def fun_eq_iff)
  with assms addr sys_frame_trans [OF assms(1)] show ?thesis
    by (cases ok) (auto simp: mutexes_outcome_def dest: Suc_leD le_neq_implies_less)
qed

lemma init_mutexes_outcome:
  assumes "holds {#} (mset (map (sends_addr s) [2..<i])) h s" "2 \<le> i"
  shows "wp (init_mutexes e i n) (mutexes_outcome e h s i (i + n)) s"
  using assms
proof (induction n arbitrary: i s)
  case 0
  then show ?case by (simp add: wp_return mutexes_outcome_def)
next
  case (Suc n)
  let ?r = "os e (hist s) (C_mutex_init (sends_addr s i))"
  define t where "t = s\<lparr>hist := hist s @ [Ev (C_mutex_init (sends_addr s i)) ?r]\<rparr>"
  have addr: "sends_addr t = sends_addr s" by (simp add: t_def sends_addr_def fun_eq_iff)
  have frame: "sys_frame s t" by (simp add: t_def)
  have start: "wp (init_mutexes e i (Suc n)) Q s = wp (if rv ?r \<noteq> 0
      then do { destroy_mutexes e (cleanup_slots i); udtcp_free_server e; ret False }
      else init_mutexes e (Suc i) n) Q t" for Q
    by (simp add: wp_bind wp_gets wp_sys_int wp_syscall t_def)
  show ?case
    unfolding start
  proof (rule wp_ifI)
    assume bad: "rv ?r \<noteq> 0"
    then have "holds {#} (mset (map (sends_addr t) [2..<i])) h t"
      using Suc.prems(1) unfolding addr by (simp add: t_def holds_def)
    from cleanup_mutexes [OF this Suc.prems(2), of e]
    show "wp (do { destroy_mutexes e (cleanup_slots i); udtcp_free_server e; ret False })
        (mutexes_outcome e h s i (i + Suc n)) t"
    proof (rule wp_mono)
      fix ok s' assume "\<not> ok \<and> sys_frame t s' \<and> holds {#} (forgotten t i) h s'"
      moreover have "forgotten t i = forgotten s i" by (simp add: forgotten_def addr)
      ultimately show "mutexes_outcome e h s i (i + Suc n) ok s'"
        using bad sys_frame_trans [OF frame] by (auto simp: mutexes_outcome_def intro!: exI [of _ i])
    qed
  next
    assume good: "\<not> rv ?r \<noteq> 0"
    have "[2..<Suc i] = [2..<i] @ [i]" using Suc.prems(2) by simp
    with good have "holds {#} (mset (map (sends_addr t) [2..<Suc i])) h t"
      using Suc.prems(1) unfolding addr by (simp add: t_def holds_def)
    from Suc.IH [OF this] Suc.prems(2)
    have "wp (init_mutexes e (Suc i) n) (mutexes_outcome e h t (Suc i) (i + Suc n)) t" by simp
    then show "wp (init_mutexes e (Suc i) n) (mutexes_outcome e h s i (i + Suc n)) t"
      by (rule wp_mono) (rule mutexes_outcome_later [OF frame], use good in auto)
  qed
qed

section \<open>Under construction\<close>

definition new_server :: "int \<Rightarrow> int \<Rightarrow> int \<Rightarrow> u64 \<Rightarrow> server \<Rightarrow> bool" where
  "new_server tcp us uc b s \<longleftrightarrow> server_wf s \<and> poll_nfds s = 2 \<and>
     tcp_socket (infos s ! 0) = tcp \<and> udp_server_socket (infos s ! 0) = us \<and>
     udp_client_socket (infos s ! 0) = uc \<and> pfd (poll_fds s ! 0) = tcp \<and> pfd (poll_fds s ! 1) = us \<and>
     events (poll_fds s ! 0) = POLLIN \<and> events (poll_fds s ! 1) = POLLIN \<and>
     buffer_data s = None \<and> buffer_size s = 0 \<and> sends_base s = b \<and>
     sends s = replicate UDTCP_POLL_TABLE_SIZE zero_send \<and> poll_loop s = 0"

definition mutex_set :: "u64 \<Rightarrow> u64 multiset" where
  "mutex_set b = mset (map (\<lambda>k. b + of_nat (sizeof_udtcp_send * k)) [2..<UDTCP_POLL_TABLE_SIZE])"

definition server_building :: "event list \<Rightarrow> int \<Rightarrow> int \<Rightarrow> int \<Rightarrow> u64 \<Rightarrow> server \<Rightarrow> bool" where
  "server_building h tcp us uc b s \<longleftrightarrow> 0 \<le> tcp \<and> 0 \<le> us \<and> 0 \<le> uc \<and> new_server tcp us uc b s \<and>
     holds {#tcp, us, uc#} (mutex_set b) h s"

lemma server_mutexes_base: "server_mutexes s = mutex_set (sends_base s)"
  by (simp add: server_mutexes_def mutex_set_def sends_addr_def [abs_def])

lemma delete_new_server:
  assumes "server_building h tcp us uc b s"
  shows "wp (udtcp_delete_server e) (\<lambda>_. holds {#} {#} h) s"
proof -
  have n: "new_server tcp us uc b s" and fd: "0 \<le> tcp" "0 \<le> us" "0 \<le> uc"
    and h: "holds {#tcp, us, uc#} (mutex_set b) h s"
    using assms by (simp_all add: server_building_def)
  from n have "buffer_sized s" "\<forall>k \<in> {2..<UDTCP_POLL_TABLE_SIZE}. sized (sends s ! k)"
    by (simp_all add: new_server_def buffer_sized_def sized_def zero_send_def)
  from delete_server_destructs [OF this, of e]
  have "wp (udtcp_delete_server e)
    (\<lambda>_. destructs {#tcp, us, uc#} (mutex_set b) (server_blocks s) s) s"
    using n fd by (simp add: server_fds_def server_mutexes_base new_server_def valid_fd_def
        add_mset_commute)
  then show ?thesis by (rule wp_mono) (rule holds_release [OF h])
qed

interpretation server_stage: staged "udtcp_delete_server e" "server_building h tcp us uc b" "holds {#} {#} h"
    for e h tcp us uc b
  by unfold_locales (rule delete_new_server)

text \<open>What keeps the construction going.\<close>

lemma keeps_new_server:
  "keeps (new_server tcp us uc b) (syscall e c)"
  "keeps (new_server tcp us uc b) (emit ev)"
  "(\<And>x. tcp_socket (f x) = tcp_socket x \<and> udp_server_socket (f x) = udp_server_socket x \<and>
     udp_client_socket (f x) = udp_client_socket x) \<Longrightarrow> keeps (new_server tcp us uc b) (set_infos 0 f)"
  by (auto simp: keeps_def wp_simps new_server_def server_wf_def UDTCP_POLL_TABLE_SIZE_def
      intro: wp_syscallI)

lemma keeps_server_building [inv_intros]:
  "neutral c \<Longrightarrow> keeps (server_building h tcp us uc b) (syscall e c)"
  "(\<And>x. tcp_socket (f x) = tcp_socket x \<and> udp_server_socket (f x) = udp_server_socket x \<and>
     udp_client_socket (f x) = udp_client_socket x) \<Longrightarrow> keeps (server_building h tcp us uc b) (set_infos 0 f)"
  "keeps (server_building h tcp us uc b) (emit (Fault f'))"
proof -
  have *: "keeps (server_building h tcp us uc b) m"
    if "keeps (new_server tcp us uc b) m" "keeps (holds {#tcp, us, uc#} (mutex_set b) h) m"
    for m :: "(server, 'x) state"
    using that unfolding server_building_def keeps_def wp_run by blast
  show "neutral c \<Longrightarrow> keeps (server_building h tcp us uc b) (syscall e c)"
    "(\<And>x. tcp_socket (f x) = tcp_socket x \<and> udp_server_socket (f x) = udp_server_socket x \<and>
       udp_client_socket (f x) = udp_client_socket x) \<Longrightarrow> keeps (server_building h tcp us uc b) (set_infos 0 f)"
    "keeps (server_building h tcp us uc b) (emit (Fault f'))"
    by (intro * keeps_new_server keeps_holds; simp)+
qed

lemma server_stages:
  assumes "server_building h tcp us uc b s"
  shows "wp (server_bind e a p1 p2 p3) (stage (server_building h tcp us uc b) (holds {#} {#} h)) s"
    "wp (server_listen e) (stage (server_building h tcp us uc b) (holds {#} {#} h)) s"
proof -
  have named: "keeps (server_building h tcp us uc b) (bind_named e fd a port upd)"
    if "\<And>a x. tcp_socket (upd a x) = tcp_socket x \<and> udp_server_socket (upd a x) = udp_server_socket x \<and>
      udp_client_socket (upd a x) = udp_client_socket x" for fd port upd
    unfolding bind_named_def sys_int_def by (intro inv_intros) (simp_all add: that)
  have calls: "neutral c \<Longrightarrow> keeps (server_building h tcp us uc b) (sys_int e c)"
    "keeps (server_building h tcp us uc b) (udtcp_socket_add_option e fd opt)" for c fd opt
    unfolding udtcp_socket_add_option_def sys_int_def by (intro inv_intros; simp)+
  note step = server_stage.stage_step [where P = "\<lambda>x. \<not> x"] server_stage.stage_step [where P = "\<lambda>x. x \<noteq> 0"]
    server_stage.stage_step [where P = "\<lambda>x. x = - 1"]
  show "wp (server_bind e a p1 p2 p3) (stage (server_building h tcp us uc b) (holds {#} {#} h)) s"
    unfolding server_bind_def
    by (rule wp_bind_gets) (intro step server_stage.stage_last assms named inv_intros; simp)
  show "wp (server_listen e) (stage (server_building h tcp us uc b) (holds {#} {#} h)) s"
    unfolding server_listen_def
    by (rule wp_bind_gets) (intro step server_stage.stage_done assms calls; simp)
qed

text \<open>The sockets; what has been opened is closed again when one of them fails.\<close>

lemma destroy_all:
  assumes "holds D (mutex_set b) h s" "sends_base s = b" "D = mset fds"
  shows "wp (destroy_mutexes e [2..<UDTCP_POLL_TABLE_SIZE]) (\<lambda>_. holds D {#} h) s"
proof -
  have "mset (map (sends_addr s) [2..<UDTCP_POLL_TABLE_SIZE]) = mutex_set b"
    using server_mutexes_base [of s] assms(2) by (simp add: server_mutexes_def)
  then have d: "wp (destroy_mutexes e [2..<UDTCP_POLL_TABLE_SIZE])
      (\<lambda>_. destructs {#} (mutex_set b) {#} s) s"
    using destroy_mutexes_destructs [of e "[2..<UDTCP_POLL_TABLE_SIZE]" s] by simp
  have "holds (D + {#}) ({#} + mutex_set b) h s" using assms(1) by simp
  then show ?thesis by (intro wp_mono [OF d]) (rule holds_destructs)
qed

text \<open>Before the sockets: mutexes, a cleared structure, the descriptors \<open>D\<close> opened so far.\<close>

definition server_opening :: "event list \<Rightarrow> u64 \<Rightarrow> int multiset \<Rightarrow> server \<Rightarrow> bool" where
  "server_opening h b D s \<longleftrightarrow> holds D (mutex_set b) h s \<and> length (infos s) = UDTCP_POLL_TABLE_SIZE \<and>
     length (poll_fds s) = UDTCP_POLL_TABLE_SIZE \<and> buffer_data s = None \<and> buffer_size s = 0 \<and>
     sends_base s = b \<and> sends s = replicate UDTCP_POLL_TABLE_SIZE zero_send \<and> poll_loop s = 0"

lemma open_socket:
  assumes "server_opening h b D s"
  shows "wp (sys_int e (C_socket k)) (\<lambda>r t. sys_frame s t \<and>
    server_opening h b (if r < 0 then D else add_mset r D) t) s"
  unfolding wp_sys_int
  by (rule wp_syscallI) (use assms in \<open>auto simp: server_opening_def holds_def\<close>)

lemma server_opening_update:
  "server_opening h b D s \<Longrightarrow> server_opening h b D (s\<lparr>infos := (infos s)[i := x]\<rparr>)"
  "server_opening h b D s \<Longrightarrow> server_opening h b D (s\<lparr>poll_fds := (poll_fds s)[i := y], poll_nfds := n\<rparr>)"
  by (simp_all add: server_opening_def holds_def)

lemma wp_bind_set_poll_fd:
  "t = s\<lparr>poll_fds := (poll_fds s)[i := (poll_fds s ! i)\<lparr>pfd := fd, events := POLLIN\<rparr>],
     poll_nfds := Suc i\<rparr> \<Longrightarrow> wp (f ()) Q t \<Longrightarrow> wp (State_Monad.bind (set_poll_fd i fd) f) Q s"
  by (simp add: wp_bind set_poll_fd_def wp_modify)

lemma opening_fails:
  assumes "server_opening h b D s" "D = mset fds"
    and "\<And>u :: server. holds D {#} h u \<Longrightarrow> wp rest (\<lambda>ok s'. \<not> ok \<and> holds {#} {#} h s') u"
  shows "wp (do { destroy_mutexes e [2..<UDTCP_POLL_TABLE_SIZE]; rest })
    (\<lambda>ok s'. if ok then Q s' else holds {#} {#} h s') s"
proof (rule wp_bindI [OF destroy_all [OF _ _ assms(2)]])
  show "holds D (mutex_set b) h s" "sends_base s = b" using assms(1) by (simp_all add: server_opening_def)
  fix u :: server assume "holds D {#} h u"
  from assms(3) [OF this] show "wp rest (\<lambda>ok s'. if ok then Q s' else holds {#} {#} h s') u"
    by (rule wp_mono) simp
qed

lemma server_open_sockets_stage:
  assumes "server_opening h b {#} s"
  shows "wp (server_open_sockets e) (\<lambda>ok s'. if ok then \<exists>tcp us uc. server_building h tcp us uc b s'
    else holds {#} {#} h s') s"
proof -
  have close: "wp (do { udtcp_free_server e; ret False }) (\<lambda>ok s'. \<not> ok \<and> holds {#} {#} h s') u"
    if "holds {#} {#} h u" for u :: server
    using that by (simp add: udtcp_free_server_def wp_simps wp_calls wp_syscall holds_def)
  have close1: "wp (do { sys_do e (C_close x); udtcp_free_server e; ret False })
      (\<lambda>ok s'. \<not> ok \<and> holds {#} {#} h s') u" if "holds {#x#} {#} h u" for u :: server and x
    using that by (simp add: udtcp_free_server_def wp_simps wp_calls wp_syscall holds_def)
  have close2: "wp (do { sys_do e (C_close x); sys_do e (C_close y); udtcp_free_server e; ret False })
      (\<lambda>ok s'. \<not> ok \<and> holds {#} {#} h s') u" if "holds {#y, x#} {#} h u" for u :: server and x y
    using that by (simp add: udtcp_free_server_def wp_simps wp_calls wp_syscall holds_def add_mset_commute)
  have T: "0 < UDTCP_POLL_TABLE_SIZE" "Suc 0 < UDTCP_POLL_TABLE_SIZE" "2 \<le> UDTCP_POLL_TABLE_SIZE"
    using table_size_gt_2 by simp_all
  show ?thesis
    unfolding server_open_sockets_def
  proof (rule wp_bindI [OF open_socket [OF assms]], rule wp_bind_set_infos, rule wp_ifI, goal_cases)
    case (1 tcp t)
    then show ?case by (intro opening_fails [where fds = "[]" and b = b] close server_opening_update) simp_all
  next
    case (2 tcp t)
    then have "\<not> tcp < 0" by simp
    define t2 where "t2 = (t\<lparr>infos := (infos t)[0 := (infos t ! 0)\<lparr>tcp_socket := tcp\<rparr>],
      poll_fds := (poll_fds t)[0 := (poll_fds t ! 0)\<lparr>pfd := tcp, events := POLLIN\<rparr>], poll_nfds := 1\<rparr>)"
    from 2 have o: "server_opening h b {#tcp#} t2"
      by (auto simp: t2_def server_opening_def holds_def)
    have f2: "tcp_socket (infos t2 ! 0) = tcp" "pfd (poll_fds t2 ! 0) = tcp" "events (poll_fds t2 ! 0) = POLLIN"
      using 2 T by (auto simp: t2_def server_opening_def)
    show ?case
    proof (rule wp_bind_set_poll_fd [of t2], simp add: t2_def,
        rule wp_bindI [OF open_socket [OF o]], rule wp_bind_set_infos, rule wp_ifI, goal_cases)
      case (1 us u)
      then show ?case
        by (intro opening_fails [where fds = "[tcp]" and b = b] close1 server_opening_update) simp_all
    next
      case (2 us u)
      then have frame: "infos u = infos t2" "poll_fds u = poll_fds t2"
        using frame_server(3,5) [of t2 u] by simp_all
      define u2 where "u2 = (u\<lparr>infos := (infos u)[0 := (infos u ! 0)\<lparr>udp_server_socket := us\<rparr>],
        poll_fds := (poll_fds u)[1 := (poll_fds u ! 1)\<lparr>pfd := us, events := POLLIN\<rparr>], poll_nfds := 2\<rparr>)"
      from 2 have o2: "server_opening h b {#us, tcp#} u2"
        by (auto simp: u2_def server_opening_def holds_def)
      have g2: "tcp_socket (infos u2 ! 0) = tcp" "udp_server_socket (infos u2 ! 0) = us"
        "pfd (poll_fds u2 ! 0) = tcp" "events (poll_fds u2 ! 0) = POLLIN"
        "pfd (poll_fds u2 ! 1) = us" "events (poll_fds u2 ! 1) = POLLIN" "poll_nfds u2 = 2"
        using 2 T o f2 frame by (auto simp: u2_def server_opening_def)
      have tcp: "0 \<le> tcp" and us: "0 \<le> us" using 2 \<open>\<not> tcp < 0\<close> by simp_all
      show ?case
      proof (rule wp_bind_set_poll_fd [of u2], simp add: u2_def,
          rule wp_bindI [OF open_socket [OF o2]], rule wp_bind_set_infos, rule wp_ifI, goal_cases)
        case (1 uc v)
        then show ?case
          by (intro opening_fails [where fds = "[tcp, us]" and b = b] close2 server_opening_update)
            (simp_all add: add_mset_commute)
      next
        case (2 uc v)
        then have "infos v = infos u2" "poll_fds v = poll_fds u2" "poll_nfds v = poll_nfds u2"
          using frame_server(3-5) [of u2 v] by simp_all
        then show ?case
          using 2 g2 tcp us T
          by (auto simp: wp_return server_building_def new_server_def server_wf_def server_opening_def
              holds_def add_mset_commute)
      qed
    qed
  qed
qed

section \<open>The whole constructor\<close>

lemma server_finish_created:
  assumes "server_building h tcp us uc b s"
  shows "wp (server_finish e) (\<lambda>_ s'. server_building h tcp us uc b s' \<and> count_id s' = 1) s"
proof -
  have strings: "wp (udtcp_set_string_infos e x a) (\<lambda>x' u. (\<exists>hn i. x' = x\<lparr>hostname := hn, ip := i\<rparr>) \<and>
      server_building h tcp us uc b u \<and> infos u = infos t) t" if "server_building h tcp us uc b t" for x a t
  proof -
    have "wp (udtcp_set_string_infos e x a) (\<lambda>x' u. (\<exists>hn i. x' = x\<lparr>hostname := hn, ip := i\<rparr>) \<and> infos u = infos t) t"
      by (rule wp_set_string_infos) (auto dest: frame_server(5))
    moreover have "keeps (server_building h tcp us uc b) (udtcp_set_string_infos e x a)"
      unfolding udtcp_set_string_infos_def copy_string_def by (intro inv_intros; simp)
    ultimately show ?thesis using that unfolding keeps_def wp_run by blast
  qed
  have final: "server_building h tcp us uc b (t\<lparr>infos := xs[0 := (xs ! 0)\<lparr>hostname := hn, ip := i\<rparr>],
      count_id := 1\<rparr>)" if "server_building h tcp us uc b t" "infos t = xs" for t hn i xs
    using that by (auto simp: server_building_def new_server_def server_wf_def holds_def UDTCP_POLL_TABLE_SIZE_def)
  have one: "server_building h tcp us uc b (s\<lparr>infos := (infos s)[0 := (infos s ! 0)\<lparr>info_id := 0\<rparr>]\<rparr>)"
    using keepsD [OF keeps_server_building(2) assms, of "\<lambda>x. x\<lparr>info_id := 0\<rparr>"] by (simp add: wp_simps)
  show ?thesis
    unfolding server_finish_def
    by (rule wp_bind_set_infos, rule wp_bind_gets, rule wp_bindI [OF strings [OF one]])
      (auto simp: wp_simps simp del: list_update_overwrite intro!: final)
qed

text \<open>What is left over when the initialisation of a mutex fails.\<close>

definition mutex_left :: "env \<Rightarrow> event list \<Rightarrow> server \<Rightarrow> bool" where
  "mutex_left e h s \<longleftrightarrow> (\<exists>b j h'. 2 < j \<and> j < UDTCP_POLL_TABLE_SIZE \<and>
     rv (os e h' (C_mutex_init (b + of_nat (sizeof_udtcp_send * j)))) \<noteq> 0 \<and>
     holds {#} {#b + of_nat (sizeof_udtcp_send * 2)#} h s)"

definition create_outcome :: "env \<Rightarrow> event list \<Rightarrow> int \<Rightarrow> server \<Rightarrow> bool" where
  "create_outcome e h r s \<longleftrightarrow> (if r = 0
     then \<exists>tcp us uc b. server_building h tcp us uc b s \<and> count_id s = 1
     else r = -1 \<and> (holds {#} {#} h s \<or> mutex_left e h s))"

lemma cleared_server:
  assumes "holds {#} {#} h t"
  shows "holds {#} {#} h (clear_server p t)" "sends_addr (clear_server p t) k =
      word_of_int p + 15856 + of_nat (sizeof_udtcp_send * k)"
    "sys_frame (clear_server p t) u \<Longrightarrow> holds {#} (mset (map (sends_addr (clear_server p t)) [2..<UDTCP_POLL_TABLE_SIZE])) h u \<Longrightarrow>
     server_opening h (word_of_int p + 15856) {#} u"
proof -
  show "holds {#} {#} h (clear_server p t)" using assms by (simp add: holds_def clear_server_def)
  show addr: "sends_addr (clear_server p t) k = word_of_int p + 15856 + of_nat (sizeof_udtcp_send * k)" for k
    by (simp add: sends_addr_def clear_server_def)
  assume f: "sys_frame (clear_server p t) u"
    and h: "holds {#} (mset (map (sends_addr (clear_server p t)) [2..<UDTCP_POLL_TABLE_SIZE])) h u"
  from f have eq: "u\<lparr>hist := hist (clear_server p t), errno := errno (clear_server p t)\<rparr> = clear_server p t"
    by (simp add: sys_frame_def)
  from arg_cong [OF eq, of sends_base] arg_cong [OF eq, of poll_loop]
  have "sends_base u = word_of_int p + 15856" "poll_loop u = 0" by (simp_all add: clear_server_def)
  moreover have "holds {#} (mutex_set (word_of_int p + 15856)) h u"
    using h unfolding addr mutex_set_def by (simp add: comp_def)
  ultimately show "server_opening h (word_of_int p + 15856) {#} u"
    using frame_server [OF f] by (simp add: server_opening_def clear_server_def)
qed

lemma create_server_outcome:
  "wp (udtcp_create_server e host p1 p2 p3) (create_outcome e (hist s)) s"
proof -
  let ?h = "hist s"
  let ?Q = "create_outcome e ?h"
  have bad: "wp (ret (- 1)) ?Q t" if "holds {#} {#} ?h t \<or> mutex_left e ?h t" for t
    using that by (simp add: wp_return create_outcome_def)
  have minus: "?Q (-1) t" if "holds {#} {#} ?h t" for t
    using that by (simp add: create_outcome_def)
  have finish: "wp (do { server_finish e; ret 0 }) ?Q t" if "server_building ?h tcp us uc b t" for tcp us uc b t
    by (rule wp_bindI [OF server_finish_created [OF that]]) (auto simp: wp_return create_outcome_def)
  have opened: "wp (do {
     ok \<leftarrow> server_open_sockets e;
     if \<not> ok then ret (-1) else do {
     ok \<leftarrow> server_bind e a p1 p2 p3;
     if \<not> ok then ret (-1) else do {
     ok \<leftarrow> server_listen e;
     if \<not> ok then ret (-1) else do {
       server_finish e;
       ret 0 } } } }) ?Q t" if "server_opening ?h b {#} t" for b t a
    by (rule wp_bindI [OF server_open_sockets_stage [OF that]], rule wp_ifI)
      (auto intro!: bad minus wp_stage_bind server_stages finish)
  have cleared: "wp (do {
     modify (clear_server p);
     ok \<leftarrow> init_mutexes e 2 (UDTCP_POLL_TABLE_SIZE - 2);
     if \<not> ok then ret (-1) else rest }) ?Q t"
    if "holds {#} {#} ?h t" "\<And>b u. server_opening ?h b {#} u \<Longrightarrow> wp rest ?Q u" for t p rest
  proof -
    note c = cleared_server [OF that(1), of p] and rest = that(2)
    have T: "2 + (UDTCP_POLL_TABLE_SIZE - 2) = UDTCP_POLL_TABLE_SIZE" using table_size_gt_2 by simp
    have "wp (init_mutexes e 2 (UDTCP_POLL_TABLE_SIZE - 2))
        (mutexes_outcome e ?h (clear_server p t) 2 UDTCP_POLL_TABLE_SIZE) (clear_server p t)"
      using init_mutexes_outcome [of "clear_server p t" 2 ?h e "UDTCP_POLL_TABLE_SIZE - 2", unfolded T] c(1)
      by simp
    then have "wp (do { ok \<leftarrow> init_mutexes e 2 (UDTCP_POLL_TABLE_SIZE - 2);
        if \<not> ok then ret (-1) else rest }) ?Q (clear_server p t)"
    proof (rule wp_bindI, intro wp_ifI)
      fix ok u assume u: "mutexes_outcome e ?h (clear_server p t) 2 UDTCP_POLL_TABLE_SIZE ok u"
      show "wp (ret (- 1)) ?Q u" if "\<not> ok"
      proof (rule bad)
        from u that obtain j h' where j: "2 \<le> j" "j < UDTCP_POLL_TABLE_SIZE"
          "rv (os e h' (C_mutex_init (sends_addr (clear_server p t) j))) \<noteq> 0"
          "holds {#} (forgotten (clear_server p t) j) ?h u"
          by (auto simp: mutexes_outcome_def)
        then show "holds {#} {#} ?h u \<or> mutex_left e ?h u"
          unfolding c(2) forgotten_def mutex_left_def
          by (cases "j = 2") (auto intro!: exI [of _ "word_of_int p + 15856"] exI [of _ j])
      qed
      show "wp rest ?Q u" if "\<not> \<not> ok"
        using u that by (intro rest [OF c(3)]) (simp_all add: mutexes_outcome_def)
    qed
    then show ?thesis by (simp add: wp_bind wp_modify)
  qed
  have host: "wp (syscall e (C_gethostbyname host)) (\<lambda>_. holds {#} {#} ?h) s"
    by (rule keepsD [OF keeps_holds(1) holds_refl]) simp
  have alloc: "wp (udtcp_new_server e) (\<lambda>_. holds {#} {#} ?h) t" if "holds {#} {#} ?h t" for t
    unfolding udtcp_new_server_def wp_sys_int by (rule keepsD [OF keeps_holds(1) that]) simp
  have no_host: "wp (do { set_errno EHOSTUNREACH; ret (-1) }) ?Q t" if "holds {#} {#} ?h t" for t
    using that by (auto simp: wp_simps create_outcome_def holds_def)
  show ?thesis
    unfolding udtcp_create_server_def
    by (rule wp_bindI [OF host], rule wp_ifI, erule no_host,
        rule wp_bindI [OF alloc], assumption, rule wp_ifI, erule bad [OF disjI1], rule cleared, assumption,
        rule opened)
qed

end
