(* ===== verification/Udtcp_Thread_End.thy ===== *)
theory Udtcp_Thread_End
  imports Udtcp_Start_Stop Udtcp_Client_Safety Udtcp_Server_Safety
begin

text \<open>
  The threads end: every call of a poll function adds to the history, so a \<open>poll_loop\<close> that is
  cleared after some number of events is seen.  Both are instances of \<open>polled_finite\<close>.
\<close>

section \<open>Every call leaves a trace\<close>

definition grown :: "nat \<Rightarrow> 'a peer_scheme \<Rightarrow> bool" where
  "grown n s \<longleftrightarrow> n \<le> length (hist s)"

lemma keeps_grown [inv_intros]:
  "keeps (grown n) (syscall e c)" "keeps (grown n) (emit ev)" "keeps (grown n) (udtcp_log e l)"
  "keeps (grown n) (call_back f cb i d)" "keeps (grown n) (set_infos i g)"
  by (auto simp: keeps_def wp_simps grown_def after_log_def after_cb_def intro: wp_syscallI)

lemma buffer_ops_grown [inv_intros]:
  "keeps (grown n) (store_buffer off d)" "keeps (grown n) (ensure_buffer e need)"
  "keeps (grown n) (recv_into e fd off k)" "keeps (grown n) (recvfrom_into e fd k)"
  unfolding store_buffer_def ensure_buffer_def udtcp_new_buffer_def udtcp_free_buffer_def sys_do_def
    recv_into_def recvfrom_into_def sys_recv_def sys_recvfrom_def
  by (intro inv_intros keeps_modify, simp_all add: grown_def)+

lemma rest_grown [inv_intros]: "keeps (grown n) (State (recv_rest q e fd dsize got))"
  by (rule rest_keeps) (rule inv_intros)+

lemma client_ops_grown:
  fixes n :: nat
  defines "P \<equiv> grown n :: client \<Rightarrow> bool"
  shows "keeps P (client_receive_tcp e)" "keeps P (client_receive_udp e)" "keeps P (client_disconnect e)"
  unfolding P_def by (rule client_ops_keep; rule inv_intros)+

interpretation client_grown: client_keeps e "grown n" for e n
  by unfold_locales (rule client_ops_grown keeps_grown(3))+

lemma client_poll_grows:
  assumes "udtcp_client_poll e t s = Some (r, s')"
  shows "length (hist s) < length (hist s')"
proof -
  obtain p s1 where p: "run_state (poll_table e t) s = (p, s1)" by fastforce
  then have "grown (Suc (length (hist s))) s1"
    by (auto simp: poll_table_def run_syscall grown_def split: if_splits)
  from client_grown.poll_keeps [OF assms this p] show ?thesis by (simp add: grown_def)
qed

text \<open>The same for the server.\<close>

lemmas server_ops_grown = server_ops_keep [of "grown n" for n, OF keeps_grown buffer_ops_grown(1,2)]

interpretation scan_grown: scan_keeps e "grown n" for e n
  by unfold_locales (rule server_ops_grown keeps_grown(3); simp add: grown_def)+

lemma server_poll_grows:
  assumes "udtcp_server_poll e t s = Some (r, s')"
  shows "length (hist s) < length (hist s')"
proof -
  obtain p s1 where p: "run_state (poll_table e t) s = (p, s1)" by fastforce
  then have one: "grown (Suc (length (hist s))) s1"
    by (auto simp: poll_table_def run_syscall grown_def split: if_splits)
  have "grown n (compact_table 2 u)" if "grown n u" for n u
    using that compact_table_hist [of 2 u] by (auto simp: grown_def)
  then have "grown (Suc (length (hist s))) s'"
    by (intro scan_grown.poll_keeps [OF assms one p]) (simp_all add: grown_def after_log_def)
  then show ?thesis by (simp add: grown_def)
qed

section \<open>The threads\<close>

text \<open>\<open>stops_by e M\<close>: by the time the history has \<open>M\<close> events, \<open>poll_loop\<close> has been cleared.\<close>

definition stops_by :: "env \<Rightarrow> nat \<Rightarrow> bool" where
  "stops_by e M \<longleftrightarrow> (\<forall>h. M \<le> length h \<longrightarrow> stop_seen e h)"

interpretation client_thread: polled_finite e "udtcp_client_poll e t"
    "\<lambda>_ :: client. runs_dry e N \<and> stops_by e M" M for e t N M
  by unfold_locales (auto simp: stops_by_def intro: client_poll_ends client_poll_grows)

interpretation server_thread: polled_finite e "udtcp_server_poll e t"
    "\<lambda>s. runs_dry e N \<and> stops_by e M \<and> server_wf s" M for e t N M
proof unfold_locales
  show "length (hist s) < length (hist s')" if "udtcp_server_poll e t s = Some (r, s')" for s s' :: server and r
    using that by (rule server_poll_grows)
  show "runs_dry e N \<and> stops_by e M \<and> server_wf (s\<lparr>is_started := 0\<rparr>)"
    if "runs_dry e N \<and> stops_by e M \<and> server_wf s" for s :: server
    using that by (simp add: server_wf_def)
qed (auto simp: stops_by_def intro: server_poll_ends server_poll_wf)

lemma client_thread_ends:
  assumes "runs_dry e N" "stops_by e M"
  shows "\<exists>s'. thread_client_poll e s = Some s' \<and> is_started s' = 0"
  unfolding thread_client_poll_def by (rule client_thread.thread_ends [OF conjI [OF assms]])

lemma server_thread_ends:
  assumes "runs_dry e N" "stops_by e M" "server_wf s"
  shows "\<exists>s'. thread_server_poll e s = Some s' \<and> is_started s' = 0"
  unfolding thread_server_poll_def by (rule server_thread.thread_ends [OF conjI [OF assms(1) conjI [OF assms(2,3)]]])

end
