(* ===== verification/Udtcp_Claims_Lifecycle.thy ===== *)
theory Udtcp_Claims_Lifecycle
  imports Udtcp_Example Udtcp_Server_Construction Udtcp_Thread_End
begin

text \<open>
  The properties of creating and deleting, and of the threads: which descriptors, mutexes and
  blocks are held, and what the flags say about the threads.
\<close>

text \<open>A system on which every call succeeds.\<close>

definition start_env :: env where
  "start_env = mk_env (\<lambda>_ c. case c of
      C_gethostbyname _ \<Rightarrow> ok_reply\<lparr>rv := 1, payload := [10, 0, 0, 1]\<rparr>
    | C_new_client \<Rightarrow> ok_reply\<lparr>rv := 4096\<rparr>
    | C_new_server \<Rightarrow> ok_reply\<lparr>rv := 4096\<rparr>
    | C_socket _ \<Rightarrow> ok_reply\<lparr>rv := 7\<rparr>
    | _ \<Rightarrow> ok_reply)"

lemma start_env_mutex: "rv (os start_env h (C_mutex_init a)) = 0"
  by (simp add: start_env_def ok_reply_def)

section \<open>The client\<close>


text \<open>Deleting a client that was created and never connected closes its TCP socket a second time:
  \<open>udtcp_create_client\<close> closes it and leaves its number in the structure.\<close>

theorem create_delete_closes_twice:
  "wp (do { r \<leftarrow> udtcp_create_client e host p1 p2 p3;
        (if r = 0 then udtcp_delete_client e else skip); ret r })
     (\<lambda>r s'. \<exists>tcp. closed (hist s') + opened (hist s) =
        opened (hist s') + closed (hist s) + (if r = 0 then {#tcp#} else {#}) \<and>
      inited (hist s') + destroyed (hist s) = inited (hist s) + destroyed (hist s')) s"
proof (rule wp_bindI [OF create_client_outcome])
  fix r :: int and s'
  assume out: "if r = 0 then \<exists>tcp us uc m. created_client (hist s) tcp us uc m s'
    else r = -1 \<and> holds {#} {#} (hist s) s'"
  let ?Q = "\<lambda>r t. \<exists>tcp. closed (hist t) + opened (hist s) =
      opened (hist t) + closed (hist s) + (if r = (0 :: int) then {#tcp#} else {#}) \<and>
    inited (hist t) + destroyed (hist s) = inited (hist s) + destroyed (hist t)"
  show "wp (do { (if r = 0 then udtcp_delete_client e else skip :: (client, unit) state); ret r }) ?Q s'"
  proof (cases "r = 0")
    case False
    with out show ?thesis by (simp add: wp_simps holds_def)
  next
    case True
    with out obtain tcp us uc m where c: "created_client (hist s) tcp us uc m s'" by auto
    then have "buffer_sized s'" "sized (csend s')" and n: "new_client tcp us uc m s'"
      and fd: "0 \<le> tcp" "0 \<le> us" "0 \<le> uc" and h: "holds {#us, uc#} {#m#} (hist s) s'"
      by (simp_all add: created_client_def creating_def new_client_def buffer_sized_def sized_def zero_send_def)
    from delete_client_destructs [OF this(1,2), of e] n fd
    have "wp (udtcp_delete_client e) (\<lambda>_. destructs {#tcp, us, uc#} {#m#}
        (buffer_block s' + send_block (csend s') + {#uint (client_addr s')#}) s') s'"
      by (simp add: new_client_def valid_fd_def add_mset_commute)
    then have "wp (udtcp_delete_client e) (\<lambda>_ t. ?Q 0 t) s'"
      by (rule wp_mono) (use h in \<open>auto simp: destructs_def releases_def holds_def intro!: exI [of _ tcp]\<close>)
    with True show ?thesis by (simp add: wp_simps)
  qed
qed

section \<open>The server\<close>



text \<open>Creating and deleting a server leaves no descriptor open and no mutex behind, whichever call
  fails, as long as it is not the initialisation of a mutex.\<close>

theorem create_delete_server_balanced:
  assumes "\<And>h a. rv (os e h (C_mutex_init a)) = 0"
  shows "wp (do { r \<leftarrow> udtcp_create_server e host p1 p2 p3;
       (if r = 0 then udtcp_delete_server e else skip) }) (\<lambda>_. holds {#} {#} (hist s)) s"
proof (rule wp_bindI [OF create_server_outcome], rule wp_ifI)
  fix r s' assume out: "create_outcome e (hist s) r s'"
  show "wp (udtcp_delete_server e) (\<lambda>_. holds {#} {#} (hist s)) s'" if "r = 0"
    using out that delete_new_server by (auto simp: create_outcome_def)
  show "wp skip (\<lambda>_. holds {#} {#} (hist s)) s'" if "r \<noteq> 0"
    using out that assms by (simp add: create_outcome_def mutex_left_def wp_return)
qed

lemma create_delete_server_balanced_witness:
  "wp (do { r \<leftarrow> udtcp_create_server start_env [] 1 2 3;
       (if r = 0 then udtcp_delete_server start_env else skip) }) (\<lambda>_. holds {#} {#} []) blank_server"
  using create_delete_server_balanced [of start_env "[]" 1 2 3 blank_server] start_env_mutex by simp

text \<open>If it is, one mutex is lost: after a failure at slot \<open>j > 2\<close> the clean-up loop destroys the
  mutexes from \<open>j - 1\<close> down to 3 and leaves that of slot 2.\<close>

theorem create_server_leaks_mutex:
  assumes "\<And>h. rv (os e h (C_gethostbyname host)) \<noteq> 0" "\<And>h. rv (os e h C_new_server) = p" "p \<noteq> 0"
    and "2 < j" "j < UDTCP_POLL_TABLE_SIZE" "b = word_of_int p + 15856"
    and "\<And>h k. k < UDTCP_POLL_TABLE_SIZE \<Longrightarrow> rv (os e h (C_mutex_init (b + of_nat (sizeof_udtcp_send * k)))) = 0 \<longleftrightarrow> k \<noteq> j"
  shows "wp (udtcp_create_server e host p1 p2 p3) (\<lambda>r s'. r = -1 \<and>
    holds {#} {#b + of_nat (sizeof_udtcp_send * 2)#} (hist s) s') s"
proof -
  let ?Q = "\<lambda>r s'. r = (-1 :: int) \<and> holds {#} {#b + of_nat (sizeof_udtcp_send * 2)#} (hist s) s'"
  have T: "2 + (UDTCP_POLL_TABLE_SIZE - 2) = UDTCP_POLL_TABLE_SIZE" using table_size_gt_2 by simp
  have rest: "wp (do { modify (clear_server p);
      ok \<leftarrow> init_mutexes e 2 (UDTCP_POLL_TABLE_SIZE - 2);
      if \<not> ok then ret (-1) else more }) ?Q t" if "holds {#} {#} (hist s) t" for more t
  proof -
    let ?c = "clear_server p t"
    note c = cleared_server(1,2) [OF that, of p, folded assms(6)]
    have "wp (init_mutexes e 2 (UDTCP_POLL_TABLE_SIZE - 2))
        (mutexes_outcome e (hist s) ?c 2 UDTCP_POLL_TABLE_SIZE) ?c"
      using init_mutexes_outcome [of ?c 2 "hist s" e "UDTCP_POLL_TABLE_SIZE - 2", unfolded T] c(1) by simp
    then have "wp (init_mutexes e 2 (UDTCP_POLL_TABLE_SIZE - 2))
        (\<lambda>ok s'. \<not> ok \<and> holds {#} {#b + of_nat (sizeof_udtcp_send * 2)#} (hist s) s') ?c"
    proof (rule wp_mono)
      fix ok s' assume "mutexes_outcome e (hist s) ?c 2 UDTCP_POLL_TABLE_SIZE ok s'"
      with assms(4,5) show "\<not> ok \<and> holds {#} {#b + of_nat (sizeof_udtcp_send * 2)#} (hist s) s'"
        unfolding mutexes_outcome_def forgotten_def c(2)
        by (cases ok) (auto simp: assms(7) simp del: of_nat_mult dest: spec [of _ j])
    qed
    then have "wp (do { ok \<leftarrow> init_mutexes e 2 (UDTCP_POLL_TABLE_SIZE - 2);
        if \<not> ok then ret (-1) else more }) ?Q ?c"
      by (rule wp_bindI) (simp add: wp_return)
    then show ?thesis by (simp add: wp_bind wp_modify)
  qed
  have host: "wp (syscall e (C_gethostbyname host)) (\<lambda>r t. holds {#} {#} (hist s) t \<and> rv r \<noteq> 0) s"
    using keepsD [OF keeps_holds(1) holds_refl [of s], of "C_gethostbyname host" e] assms(1)
    by (auto simp: wp_run run_syscall)
  have alloc: "wp (udtcp_new_server e) (\<lambda>q t'. holds {#} {#} (hist s) t' \<and> q = p) t"
    if "holds {#} {#} (hist s) t" for t
    using keepsD [OF keeps_holds(1) that, of C_new_server e] assms(2)
    by (auto simp: wp_run run_syscall udtcp_new_server_def sys_int_def)
  show ?thesis
    unfolding udtcp_create_server_def
    by (rule wp_bindI [OF host], clarsimp, rule wp_bindI [OF alloc], assumption)
      (use assms(3) rest in auto)
qed

text \<open>A system on which the third initialisation fails, that of slot 4.\<close>

definition mutex_env :: env where
  "mutex_env = mk_env (\<lambda>_ c. case c of
      C_gethostbyname _ \<Rightarrow> ok_reply\<lparr>rv := 1\<rparr>
    | C_new_server \<Rightarrow> ok_reply\<lparr>rv := 4096\<rparr>
    | C_mutex_init a \<Rightarrow> ok_reply\<lparr>rv := (if a = 20240 then 11 else 0)\<rparr>
    | _ \<Rightarrow> ok_reply)"

lemma create_server_leaks_mutex_witness:
  "wp (udtcp_create_server mutex_env [] 1 2 3) (\<lambda>r s'. r = -1 \<and> holds {#} {#20096#} [] s') blank_server"
proof -
  have slot: "rv (os mutex_env h (C_mutex_init (19952 + of_nat (sizeof_udtcp_send * k)))) = 0 \<longleftrightarrow> k \<noteq> 4"
    if "k < UDTCP_POLL_TABLE_SIZE" for h k
  proof -
    have "unat (of_nat (72 * k) :: u64) = 72 * k"
      using that by (simp add: unat_of_nat UDTCP_POLL_TABLE_SIZE_def UDTCP_MAX_CONNECTION_def del: of_nat_mult)
    then have "(of_nat (72 * k) :: u64) = 288 \<longleftrightarrow> k = 4"
      by (subst word_unat_eq_iff) simp
    moreover have "19952 + w = (20240 :: u64) \<longleftrightarrow> w = 288" for w
      by (simp add: algebra_simps flip: eq_diff_eq)
    ultimately show ?thesis
      by (simp add: mutex_env_def ok_reply_def sizeof_udtcp_send_def del: of_nat_mult)
  qed
  have b: "(19952 :: u64) = word_of_int 4096 + 15856" by simp
  have j: "4 < UDTCP_POLL_TABLE_SIZE" by (simp add: UDTCP_POLL_TABLE_SIZE_def UDTCP_MAX_CONNECTION_def)
  have "wp (udtcp_create_server mutex_env [] 1 2 3) (\<lambda>r s'. r = -1 \<and>
      holds {#} {#19952 + of_nat (sizeof_udtcp_send * 2)#} (hist blank_server) s') blank_server"
    by (rule create_server_leaks_mutex [OF _ _ _ _ j b slot]) (simp_all add: mutex_env_def ok_reply_def)
  then show ?thesis by (simp add: sizeof_udtcp_send_def)
qed

section \<open>The threads\<close>



text \<open>The flag of a server can lie: its thread can end before \<open>start\<close> sets \<open>is_started\<close>, and then
  the flag stays set although there is no thread any more, until \<open>stop\<close> and after it.\<close>

theorem server_flag_stays_set:
  "\<exists>t t'. threads_reachable ServerSide t \<and> caller t = Running \<and> thread t = Finished \<and> started_flag t \<and>
     threads_reachable ServerSide t' \<and> caller t' = Idle \<and> thread t' = NoThread \<and> started_flag t'"
proof -
  let ?mk = "\<lambda>c p l f. \<lparr>caller = c, thread = p, loop_flag = l, started_flag = f\<rparr>"
  note step = converse_rtranclp_into_rtranclp [of "thread_step ServerSide"]
  have a: "(thread_step ServerSide)\<^sup>*\<^sup>* threads_init (?mk Running Finished True True)"
    unfolding threads_init_def
    by (rule step [OF thread_step.start_server], simp_all,
        rule step [OF thread_step.create], simp_all,
        rule step [OF thread_step.test_true], simp_all,
        rule step [OF thread_step.poll_breaks], simp_all,
        rule step [OF thread_step.leave], simp_all,
        rule step [OF thread_step.return_server], simp_all)
  have b: "(thread_step ServerSide)\<^sup>*\<^sup>* (?mk Running Finished True True) (?mk Idle NoThread False True)"
    by (rule step [OF thread_step.stop], simp_all, rule step [OF thread_step.join], simp_all)
  have r: "threads_reachable ServerSide (?mk Running Finished True True)"
    "threads_reachable ServerSide (?mk Idle NoThread False True)"
    using a rtranclp_trans [OF a b] by (simp_all add: threads_reachable_def)
  show ?thesis
    by (rule exI [of _ "?mk Running Finished True True"], rule exI [of _ "?mk Idle NoThread False True"])
      (simp add: r)
qed

text \<open>\<open>start\<close> refuses while \<open>poll_loop\<close> is set, creating no thread and changing nothing; otherwise
  it creates one, and clears what it has set when that fails.  \<open>stop\<close> clears \<open>poll_loop\<close>.\<close>

theorem start_stop_results:
  "wp (udtcp_start_client e) (\<lambda>r s'. if poll_loop s \<noteq> 0
     then r = -1 \<and> poll_loop s' = poll_loop s \<and> is_started s' = is_started s \<and>
       hist s' = hist (after_log e UDTCP_LOG_LEVEL_ERROR s)
     else (r = 0 \<or> r = -1) \<and> poll_loop s' = r + 1 \<and> is_started s' = r + 1 \<and>
       (\<exists>x. hist s' = hist s @ [Ev C_pthread_create x] \<and> (r = 0 \<longleftrightarrow> rv x = 0))) s \<and>
   wp (udtcp_start_server e) (\<lambda>r s'. if poll_loop u \<noteq> 0
     then r = -1 \<and> poll_loop s' = poll_loop u \<and> is_started s' = is_started u \<and>
       hist s' = hist (after_log e UDTCP_LOG_LEVEL_ERROR u)
     else (r = 0 \<or> r = -1) \<and> poll_loop s' = r + 1 \<and>
       is_started s' = (if r = 0 then 1 else is_started u) \<and>
       (\<exists>x. hist s' = hist u @ [Ev C_pthread_create x] \<and> (r = 0 \<longleftrightarrow> rv x = 0))) u \<and>
   wp (udtcp_stop_client e) (\<lambda>_ s'. poll_loop s' = 0) s \<and> wp (udtcp_stop_server e) (\<lambda>_ s'. poll_loop s' = 0) u"
  by (simp add: udtcp_start_client_def udtcp_start_server_def udtcp_stop_client_def udtcp_stop_server_def
      udtcp_stop_def wp_simps wp_calls wp_syscall)

text \<open>The poll threads end once \<open>poll_loop\<close> is cleared, if the kernel has only finitely much to
  read: each leaves its loop, however the calls of its poll function turn out, and clears
  \<open>is_started\<close>.  A server needs for that no more than a table of the right shape.\<close>

theorem threads_terminate:
  assumes "runs_dry e N" "\<And>h. M \<le> length h \<Longrightarrow> stop_seen e h" "server_wf t"
  shows "(\<exists>s'. thread_client_poll e s = Some s' \<and> is_started s' = 0) \<and>
    (\<exists>t'. thread_server_poll e t = Some t' \<and> is_started t' = 0)"
proof -
  have "stops_by e M" using assms(2) by (simp add: stops_by_def)
  with client_thread_ends [OF assms(1) this] server_thread_ends [OF assms(1) this assms(3)] show ?thesis by blast
qed

definition stopping_env :: env where
  "stopping_env = idle_env\<lparr>stop_seen := \<lambda>h. 3 \<le> length h\<rparr>"

lemma threads_terminate_witness:
  "(\<exists>s'. thread_client_poll stopping_env blank_client = Some s' \<and> is_started s' = 0) \<and>
   (\<exists>t'. thread_server_poll stopping_env blank_server = Some t' \<and> is_started t' = 0)"
proof (rule threads_terminate)
  show "runs_dry stopping_env 0" using idle_env_ok(2) by (simp add: stopping_env_def runs_dry_def)
  show "stop_seen stopping_env h" if "3 \<le> length h" for h using that by (simp add: stopping_env_def)
qed (rule blank_server_wf)

end
