(* ===== verification/Udtcp_Server_Descriptors.thy ===== *)
theory Udtcp_Server_Descriptors
  imports Udtcp_Server_Safety Udtcp_Server_Construction
begin

text \<open>
  The descriptors of a running server: besides its own three sockets it has open exactly the
  sockets of the connected clients, and no mutex comes or goes.  What a poll opens (by accepting)
  and what it closes (refused, failed and disconnected clients) is accounted for in the table.
\<close>

section \<open>The receive buffer\<close>

text \<open>A buffer that exists has a size, which is what the destructor tests.\<close>

lemma keeps_sized [inv_intros]:
  "keeps buffer_sized (syscall e c)" "keeps buffer_sized (emit ev)"
  "keeps buffer_sized (udtcp_log e l)" "keeps buffer_sized (call_back f cb i d)"
  "keeps buffer_sized (set_infos i g)"
  by (auto simp: keeps_def wp_simps buffer_sized_def after_log_def after_cb_def intro: wp_syscallI)

lemma buffer_ops_sized:
  "keeps buffer_sized (store_buffer off d)" "keeps buffer_sized (ensure_buffer e need)"
  by (auto simp: keeps_def store_buffer_def ensure_buffer_def udtcp_new_buffer_def udtcp_free_buffer_def
      wp_simps wp_calls wp_syscall buffer_sized_def split: option.splits)

lemmas server_ops_sized = server_ops_keep [of buffer_sized, OF keeps_sized buffer_ops_sized]

interpretation scan_sized: scan_keeps e buffer_sized for e
  by unfold_locales (rule server_ops_sized keeps_sized(3); simp add: buffer_sized_def)+

lemma server_poll_sized:
  assumes "udtcp_server_poll e t s = Some (r, s')" "buffer_sized s"
  shows "buffer_sized s'"
proof -
  obtain p s1 where p: "run_state (poll_table e t) s = (p, s1)" by fastforce
  have "buffer_sized s1"
    using assms(2) poll_table_frame(9,10) [OF p] by (simp add: buffer_sized_def)
  moreover have "buffer_data (compact_table 2 u) = buffer_data u" "buffer_size (compact_table 2 u) = buffer_size u" for u
    using compact_table_hist [of 2 u] by blast+
  ultimately show ?thesis
    by (intro scan_sized.poll_keeps [OF assms(1) _ p]) (simp_all add: buffer_sized_def)
qed

section \<open>The account\<close>

definition conn_fds :: "server \<Rightarrow> int multiset" where
  "conn_fds s = mset (map (\<lambda>c. pfd (fst c)) (filter live (clients s)))"

text \<open>The server's own entries and what no poll changes.\<close>

definition same_core :: "server \<Rightarrow> server \<Rightarrow> bool" where
  "same_core s0 s \<longleftrightarrow> infos s ! 0 = infos s0 ! 0 \<and>
     pfd (poll_fds s ! 0) = tcp_socket (infos s0 ! 0) \<and> pfd (poll_fds s ! 1) = udp_server_socket (infos s0 ! 0) \<and>
     sends s = sends s0 \<and> sends_base s = sends_base s0"

text \<open>The scan is at entry \<open>i\<close>: the entries behind it are connected clients, those before it can be
  marked.  \<open>D\<close> are the descriptors and \<open>M\<close> the mutexes held besides since \<open>h\<close>.\<close>

definition accounted :: "server \<Rightarrow> int multiset \<Rightarrow> u64 multiset \<Rightarrow> event list \<Rightarrow> nat \<Rightarrow> server \<Rightarrow> bool" where
  "accounted s0 D M h i s \<longleftrightarrow> server_wf s \<and> same_core s0 s \<and>
     (\<forall>j. 2 \<le> j \<longrightarrow> j < poll_nfds s \<longrightarrow> slot_live s j \<or> j < i \<and> pfd (poll_fds s ! j) = -1) \<and>
     holds (D + conn_fds s) M h s"

lemma accounted_wf: "accounted s0 D M h i s \<Longrightarrow> server_wf s"
  by (simp add: accounted_def)

lemma accounted_later: "accounted s0 D M h i s \<Longrightarrow> i \<le> k \<Longrightarrow> accounted s0 D M h k s"
  by (auto simp: accounted_def)

lemma accounted_cong:
  assumes "infos s = infos t" "poll_fds s = poll_fds t" "poll_nfds s = poll_nfds t"
    "sends s = sends t" "sends_base s = sends_base t" "\<And>D. holds D M h s = holds D M h t"
  shows "accounted s0 D M h i s = accounted s0 D M h i t"
  using assms scan_inv_cong(3,4) [OF assms(1-4)]
  by (simp add: accounted_def same_core_def conn_fds_def slot_live_def)

section \<open>Receivers neither open nor close\<close>

lemma buffer_ops_holds [inv_intros]:
  "keeps (holds D M h) (store_buffer off d)" "keeps (holds D M h) (ensure_buffer e need)"
  "keeps (holds D M h) (recv_into e fd off k)" "keeps (holds D M h) (recvfrom_into e fd k)"
  unfolding store_buffer_def ensure_buffer_def udtcp_new_buffer_def udtcp_free_buffer_def sys_do_def
    recv_into_def recvfrom_into_def sys_recv_def sys_recvfrom_def
  by (intro inv_intros keeps_modify, simp_all add: holds_def)+

lemma rest_holds [inv_intros]: "keeps (holds D M h) (State (recv_rest q e fd dsize got))"
  by (rule rest_keeps; rule inv_intros; simp)

lemma receive_holds:
  "keeps (holds D M h) (server_receive_tcp e i)" "keeps (holds D M h) (server_receive_udp e)"
  unfolding server_receive_tcp_def server_receive_udp_def receive_tcp_def receive_payload_def
    receive_udp_def receive_datagram_def sys_recv_def sys_recvfrom_def
  by (intro inv_intros; simp)+

lemma receive_accounted:
  assumes "keeps (buffer_frame s) m" "\<And>D. keeps (holds D M h) m" "accounted s0 D M h i s"
  shows "wp m (\<lambda>_. accounted s0 D M h i) s"
proof -
  have "wp m (\<lambda>_ s'. buffer_frame s s' \<and> holds (D + conn_fds s) M h s') s"
    unfolding wp_conj
    using keepsD [OF assms(1) buffer_frame_refl] keepsD [OF assms(2)] assms(3) by (simp add: accounted_def)
  then show ?thesis
  proof (rule wp_mono)
    fix r s' assume s': "buffer_frame s s' \<and> holds (D + conn_fds s) M h s'"
    note f = buffer_frame_fields [OF conjunct1 [OF s']]
    note m = server_more [OF f(6)]
    have c: "conn_fds s' = conn_fds s" by (simp add: conn_fds_def scan_inv_cong(4) [OF f(1-3) m(1)])
    show "accounted s0 D M h i s'"
      using assms(3) s' scan_inv_cong(3) [OF f(1-3) m(1)]
      by (simp add: accounted_def same_core_def slot_live_def c f(1-3) m(1,2))
  qed
qed

interpretation tcp_accounted: drained "server_receive_tcp e i" "accounted s0 D M h k" for e i s0 D M h k
  by unfold_locales (rule receive_accounted [OF server_receive_frame(1) receive_holds(1)])

interpretation udp_accounted: drained "server_receive_udp e" "accounted s0 D M h k" for e s0 D M h k
  by unfold_locales (rule receive_accounted [OF server_receive_frame(2) receive_holds(2)])

section \<open>Accepting opens one descriptor\<close>

text \<open>The handshake of a peer arrives whole or not at all.  If only a part of it arrives, the socket
  of the slot is overwritten with bytes of the peer before it is closed.\<close>

definition handshake_whole :: "env \<Rightarrow> bool" where
  "handshake_whole e \<longleftrightarrow> (\<forall>h fd. let d = snd (recv_result (sizeof_udtcp_infos + 1)
     (os e h (C_recv fd (sizeof_udtcp_infos + 1)))) in d = [] \<or> length d = sizeof_udtcp_infos)"

lemma initialize_socket:
  assumes "handshake_whole e" "i < length (infos s)"
  shows "wp (server_initialize_connection e i) (\<lambda>_ s'. tcp_socket (infos s' ! i) = tcp_socket (infos s ! i)) s"
proof -
  have count: "snd (recv_result k r) \<noteq> [] \<Longrightarrow> fst (recv_result k r) = int (length (snd (recv_result k r)))"
    for k r by (simp add: recv_result_def split: if_splits)
  have whole: "snd r = [] \<or> fst r = int sizeof_udtcp_infos"
    if "r = recv_result (Suc sizeof_udtcp_infos) (os e h (C_recv fd (Suc sizeof_udtcp_infos)))" for r h fd
    using assms(1) count unfolding that handshake_whole_def Let_def Suc_eq_plus1 by metis
  have "snd (recv_result (Suc sizeof_udtcp_infos) (os e h (C_recv fd (Suc sizeof_udtcp_infos)))) = []"
    if "fst (recv_result (Suc sizeof_udtcp_infos) (os e h (C_recv fd (Suc sizeof_udtcp_infos)))) \<noteq>
      int sizeof_udtcp_infos" for h fd
    using whole [OF refl, of h fd] that by simp
  moreover have "snd (recv_result k r) = []" if "fst (recv_result k r) = 0" for k r
    using that by (auto simp: recv_result_def min_def split: if_splits)
  ultimately show ?thesis
    using assms(2)
    by (auto simp: server_initialize_connection_def wp_simps wp_sys_send wp_sys_poll1 wp_syscall
        wp_recv_infos Let_def apply_distant_def)
qed

lemma handshake_holds:
  "keeps (holds D M h) (server_initialize_connection e i)" "keeps (holds D M h) (register_client e n)"
proof -
  have recv: "keeps (holds D M h) (recv_infos e fd i)" for fd i
    unfolding recv_infos_def sys_recv_def by (intro inv_intros; simp)
  have name: "keeps (holds D M h) (udtcp_set_string_infos e x a)" for x a
    unfolding udtcp_set_string_infos_def copy_string_def by (intro inv_intros; simp)
  show "keeps (holds D M h) (server_initialize_connection e i)"
    unfolding server_initialize_connection_def sys_send_def sys_poll1_def by (intro inv_intros recv; simp)
  show "keeps (holds D M h) (register_client e n)"
    unfolding register_client_def
    by (intro inv_intros name keeps_modify; simp add: holds_def)
qed

text \<open>What \<open>accept_client\<close> holds more than before: the socket of the slot, if it is registered.\<close>

definition accept_holds ::
    "nat \<Rightarrow> int multiset \<Rightarrow> u64 multiset \<Rightarrow> event list \<Rightarrow> int \<Rightarrow> server \<Rightarrow> bool" where
  "accept_holds n D M h r s \<longleftrightarrow> holds (if r = 0 then add_mset (tcp_socket (infos s ! n)) D else D) M h s"

lemma exchange_holds:
  assumes whole: "handshake_whole e" and frame: "slot_frame n s0 t"
    and n: "n < length (infos s0)" "n = poll_nfds s0" "0 < n"
    and fd: "tcp_socket (infos t ! n) = fd" "0 \<le> fd" and h: "holds (add_mset fd D) M h t"
  shows "wp (exchange_informations e n) (accept_holds n D M h) t"
proof -
  have len: "n < length (infos t)" "n \<noteq> 0" using slot_frame_fields(9) [OF frame] n by simp_all
  have init: "wp (server_initialize_connection e n) (\<lambda>r u. ((r = 0 \<or> r = -1) \<and> (r = 0 \<longrightarrow>
      pinned (infos t ! 0) fd (sin_addr (tcp_addr (infos t ! n))) (infos u ! n))) \<and>
      tcp_socket (infos u ! n) = fd \<and> slot_frame n s0 u \<and> holds (add_mset fd D) M h u) t"
    unfolding wp_conj
    using initialize_result [OF len, of e] initialize_socket [OF whole len(1)]
      keepsD [OF keeps_initialize frame] keepsD [OF handshake_holds(1) h]
    by (simp only: wp_conj fd(1) simp_thms)
  have failed: "wp (do { sys_do e (C_close fd); log_error e; ret (-1 :: int) }) (accept_holds n D M h) u"
    if "holds (add_mset fd D) M h u" for u
    using that by (auto simp: wp_simps wp_calls wp_syscall accept_holds_def holds_def)
  have reg: "wp (do { register_client e n; ret 0 }) (accept_holds n D M h) u"
    if u: "slot_frame n s0 u" "holds (add_mset fd D) M h u" "pinned srv fd a (infos u ! n)" for u srv a
  proof -
    have "0 \<le> tcp_socket (infos u ! n)" using u(3) fd(2) by (simp add: pinned_def)
    from register_accepted [OF u(1) [unfolded n(2)] n(1) [unfolded n(2)] this [unfolded n(2)], of e]
    have "wp (register_client e n) (\<lambda>_ s'. (accepted s0 s' \<and> (\<forall>fd a srv. pinned srv fd a (infos u ! n) \<longrightarrow>
        pinned srv fd a (infos s' ! n))) \<and> holds (add_mset fd D) M h s') u"
      unfolding wp_conj using keepsD [OF handshake_holds(2) u(2)] by (simp only: n(2) [symmetric] wp_conj simp_thms)
    then show ?thesis
      unfolding wp_bind by (rule wp_mono) (use u(3) in \<open>auto simp: wp_simps accept_holds_def pinned_def\<close>)
  qed
  show ?thesis
    unfolding exchange_informations_def
  proof (rule wp_bindI [OF init], elim conjE, intro wp_ifI wp_bind_gets)
    fix r u
    assume u: "tcp_socket (infos u ! n) = fd" "slot_frame n s0 u" "holds (add_mset fd D) M h u"
      and r: "r = 0 \<or> r = -1" "r = 0 \<longrightarrow> pinned (infos t ! 0) fd (sin_addr (tcp_addr (infos t ! n))) (infos u ! n)"
    show "wp (do { sys_do e (C_close (tcp_socket (infos u ! n))); log_error e; ret (- 1) }) (accept_holds n D M h) u"
      unfolding u(1) by (rule failed [OF u(3)])
    show "wp (do { register_client e n; ret 0 }) (accept_holds n D M h) u" if "r \<noteq> -1"
      using that r by (auto intro: reg [OF u(2,3)])
  qed
qed

lemma accept_client_holds:
  assumes whole: "handshake_whole e" and wf: "server_wf s" and h: "holds D M h s"
  shows "wp (accept_client e) (accept_holds (poll_nfds s) D M h) s"
proof -
  let ?n = "poll_nfds s"
  have refuse: "wp (refuse_client e) (accept_holds ?n D M h) s"
    using h by (auto simp: refuse_client_def wp_simps wp_calls wp_syscall accept_holds_def holds_def)
  have n: "?n < length (infos s)" "0 < ?n" if "?n < UDTCP_POLL_TABLE_SIZE"
    using wf that by (simp_all add: server_wf_def)
  have rejected: "wp (do { x \<leftarrow> gets errno; (if x \<noteq> EWOULDBLOCK then log_error e else skip);
         ret (-1 :: int) }) (accept_holds ?n D M h) u" if "holds D M h u" for u
    using that keepsD [OF keeps_holds(2) that, of e UDTCP_LOG_LEVEL_ERROR]
    by (auto simp: wp_simps accept_holds_def)
  have opt: "wp (do { r \<leftarrow> udtcp_socket_add_option e fd O_NONBLOCK;
         if r = -1 then do { sys_do e (C_close fd); ret (-1) }
         else exchange_informations e ?n }) (accept_holds ?n D M h) t"
    if t: "slot_frame ?n s t" "tcp_socket (infos t ! ?n) = fd" "0 \<le> fd" "holds (add_mset fd D) M h t"
      and room: "?n < UDTCP_POLL_TABLE_SIZE" for t fd
  proof -
    have same: "wp (udtcp_socket_add_option e fd O_NONBLOCK) (\<lambda>_ s'. infos s' = infos t) t"
      by (simp add: udtcp_socket_add_option_def wp_simps wp_sys_int wp_syscall)
    have "keeps (holds (add_mset fd D) M h) (udtcp_socket_add_option e fd O_NONBLOCK)"
      unfolding udtcp_socket_add_option_def sys_int_def by (intro inv_intros; simp)
    with same have both: "wp (udtcp_socket_add_option e fd O_NONBLOCK)
        (\<lambda>_ s'. (slot_frame ?n s s' \<and> infos s' = infos t) \<and> holds (add_mset fd D) M h s') t"
      unfolding wp_conj using keepsD [OF keeps_add_option_slot t(1)] t(4) by (blast dest: keepsD)
    have failed: "wp (do { sys_do e (C_close fd); ret (-1 :: int) }) (accept_holds ?n D M h) u"
      if "holds (add_mset fd D) M h u" for u
      using that by (auto simp: wp_simps wp_calls wp_syscall accept_holds_def holds_def)
    show ?thesis
      by (rule wp_bindI [OF both], elim conjE, intro wp_ifI failed, assumption,
          rule exchange_holds [OF whole _ n(1) [OF room] refl n(2) [OF room] _ t(3)]) (simp_all add: t(2))
  qed
  have acc: "wp (sys_accept e fd) (\<lambda>r s'. (\<exists>h' x. s' = s\<lparr>hist := h', errno := x\<rparr>) \<and>
      (fst r = -1 \<and> holds D M h s' \<or> 0 \<le> fst r \<and> holds (add_mset (fst r) D) M h s')) s" for fd
    unfolding wp_sys_accept by (rule wp_syscallI) (use h in \<open>auto simp: holds_def\<close>)
  have frame: "slot_frame ?n s (s\<lparr>hist := h', errno := x, infos := (infos s)[?n := y]\<rparr>)" for h' x y
    by (simp add: slot_frame_def)
  have set: "holds X M h (s\<lparr>hist := h', errno := x, infos := y\<rparr>) = holds X M h (s\<lparr>hist := h', errno := x\<rparr>)"
    for X h' x y by (simp add: holds_def)
  show ?thesis
    unfolding accept_client_def
    by (rule wp_bind_gets, rule wp_ifI, rule refuse, rule wp_bind_gets, rule wp_bindI [OF acc])
      (auto intro!: wp_bind_set_infos wp_ifI rejected opt frame simp: n set not_le)
qed

lemma accepted_accounted:
  assumes acc: "accepted t s" and full: "poll_nfds t < UDTCP_POLL_TABLE_SIZE" and ok: "accounted s0 D M h i t"
    and h: "holds (add_mset (tcp_socket (infos s ! poll_nfds t)) (D + conn_fds t)) M h s"
  shows "accounted s0 D M h i s"
proof -
  let ?n = "poll_nfds t"
  note wf = accounted_wf [OF ok]
  note a = accepted_wf [OF acc wf full]
  have n: "2 \<le> ?n" "?n < length (poll_fds t)" using wf full by (auto simp: server_wf_def)
  have f: "poll_nfds s = Suc ?n" "infos s ! 0 = infos t ! 0" "sends s = sends t" "sends_base s = sends_base t"
    "poll_fds s ! 0 = poll_fds t ! 0" "poll_fds s ! 1 = poll_fds t ! 1"
    using acc n a(3) [of 0] a(3) [of 1] by (auto simp: accepted_def Let_def)
  have new: "pfd (poll_fds s ! ?n) = tcp_socket (infos s ! ?n)" "0 \<le> tcp_socket (infos s ! ?n)"
    using a(4) by (simp_all add: slot_live_def)
  then have "live (poll_fds s ! ?n, infos s ! ?n)" by (simp add: live_def)
  then have "conn_fds s = add_mset (tcp_socket (infos s ! ?n)) (conn_fds t)"
    by (simp add: conn_fds_def accepted_clients(1) [OF acc wf full] new(1))
  with ok a f h show ?thesis
    by (auto simp: accounted_def same_core_def less_Suc_eq)
qed

lemma slot_frame_accounted:
  assumes f: "slot_frame (poll_nfds t) t s" and ok: "accounted s0 D M h i t"
    and h: "holds (D + conn_fds t) M h s"
  shows "accounted s0 D M h i s"
proof -
  note f = slot_frame_fields [OF f]
  have "2 \<le> poll_nfds t" using accounted_wf [OF ok] by (simp add: server_wf_def)
  moreover have "take (poll_nfds t) (infos s) = take (poll_nfds t) (infos t)"
    by (rule take_eqI) (simp_all add: f)
  then have "conn_fds s = conn_fds t" by (simp add: conn_fds_def clients_take f)
  ultimately show ?thesis
    using ok h by (auto simp: accounted_def same_core_def server_wf_def slot_live_def f)
qed

lemma accept_accounted:
  assumes whole: "handshake_whole e" and ok: "accounted s0 D M h i t"
  shows "wp (accept_client e) (\<lambda>_. accounted s0 D M h i) t"
proof -
  note wf = accounted_wf [OF ok]
  have "holds (D + conn_fds t) M h t" using ok by (simp add: accounted_def)
  from accept_client_holds [OF whole wf this] accept_client_wf_run [OF wf, of e]
  have "wp (accept_client e) (\<lambda>r s. accept_holds (poll_nfds t) (D + conn_fds t) M h r s \<and> accept_outcome t r s) t"
    by (simp only: wp_conj)
  then show ?thesis
    by (rule wp_mono)
      (auto simp: accept_outcome_def accept_holds_def intro: accepted_accounted slot_frame_accounted ok)
qed

interpretation accept_accounted: drained "accept_client e" "\<lambda>s. handshake_whole e \<and> accounted s0 D M h i s"
  for e s0 D M h i
  by unfold_locales (auto intro: wp_mono [OF accept_accounted])

section \<open>Disconnecting closes one\<close>

lemma conn_fds_mark:
  assumes "server_wf s" "2 \<le> i" "i < poll_nfds s" "pfd (poll_fds s ! i) \<noteq> -1"
  shows "conn_fds s = add_mset (pfd (poll_fds s ! i))
    (conn_fds (s\<lparr>poll_fds := (poll_fds s)[i := (poll_fds s ! i)\<lparr>pfd := -1\<rparr>]\<rparr>))"
proof -
  let ?q = "(poll_fds s ! i)\<lparr>pfd := -1\<rparr>"
  let ?t = "s\<lparr>poll_fds := (poll_fds s)[i := ?q]\<rparr>"
  obtain m where i: "i = m + 2" using assms(2) by (metis add.commute le_Suc_ex)
  have wf: "server_wf ?t" using assms(1) by (simp add: server_wf_def)
  have m: "m < poll_nfds s - 2" "m < length (clients s)" using assms(1,3) by (simp_all add: i length_clients)
  have len: "i < length (poll_fds s)" using assms(1,3) by (auto simp: server_wf_def)
  have at: "clients s ! m = (poll_fds s ! i, infos s ! i)"
    using clients_nth [OF assms(1) m(1)] by (simp add: i)
  have "clients ?t = (clients s)[m := (?q, infos s ! i)]"
  proof (rule nth_equalityI)
    show "length (clients ?t) = length ((clients s)[m := (?q, infos s ! i)])"
      using assms(1) wf by (simp add: length_clients)
    fix k assume "k < length (clients ?t)"
    then have k: "k < poll_nfds s - 2" using wf by (simp add: length_clients)
    with clients_nth [OF wf, of k] clients_nth [OF assms(1) k] m(2) len
    show "clients ?t ! k = (clients s)[m := (?q, infos s ! i)] ! k"
      by (cases "k = m") (simp_all add: i)
  qed
  moreover have "clients s = take m (clients s) @ clients s ! m # drop (Suc m) (clients s)"
    by (rule id_take_nth_drop [OF m(2)])
  then have "mset (map (\<lambda>c. pfd (fst c)) (filter live (clients s))) =
      mset (map (\<lambda>c. pfd (fst c)) (filter live (take m (clients s) @ clients s ! m # drop (Suc m) (clients s))))"
    by simp
  ultimately show ?thesis
    using assms(4) m(2) by (simp add: conn_fds_def upd_conv_take_nth_drop at live_def)
qed

lemma disconnect_holds:
  assumes "holds (add_mset (tcp_socket (infos s ! i)) D) M h s"
  shows "wp (server_disconnect e i) (\<lambda>_. holds D M h) s"
  using assms by (auto simp: server_disconnect_def wp_simps wp_calls wp_syscall holds_def)

lemma drop_accounted:
  assumes ok: "accounted s0 D M h i s" and i: "2 \<le> i" "i < poll_nfds s"
  shows "wp (server_drop e i) (\<lambda>b s'. b \<and> accounted s0 D M h (Suc i) s') s"
proof -
  let ?t = "\<lambda>u :: server. u\<lparr>poll_fds := (poll_fds u)[i := (poll_fds u ! i)\<lparr>pfd := -1\<rparr>]\<rparr>"
  note wf = accounted_wf [OF ok]
  have live: "pfd (poll_fds s ! i) = tcp_socket (infos s ! i)" "0 \<le> tcp_socket (infos s ! i)"
    using ok i by (auto simp: accounted_def slot_live_def)
  have c: "conn_fds s = add_mset (tcp_socket (infos s ! i)) (conn_fds (?t s))"
    using conn_fds_mark [OF wf i] live by simp
  then have "holds (add_mset (tcp_socket (infos s ! i)) (D + conn_fds (?t s))) M h s"
    using ok by (simp add: accounted_def)
  from disconnect_holds [OF this] keepsD [OF disconnect_frame buffer_frame_refl, of e i s]
  have "wp (server_disconnect e i) (\<lambda>_ u. buffer_frame s u \<and> holds (D + conn_fds (?t s)) M h u) s"
    by (simp only: wp_conj)
  then show ?thesis
    unfolding server_drop_def
  proof (rule wp_bindI)
    fix x u assume u: "buffer_frame s u \<and> holds (D + conn_fds (?t s)) M h u"
    note f = buffer_frame_fields [OF conjunct1 [OF u]]
    note m = server_more [OF f(6)]
    have "clients (?t u) = clients (?t s)" by (simp add: clients_def f(1-3))
    then have "holds (D + conn_fds (?t u)) M h (?t u)"
      using u by (simp add: conn_fds_def holds_def)
    moreover have "server_wf (?t u)" using wf by (simp add: server_wf_def f(1-3) m(1))
    moreover have "slot_live (?t u) j \<or> j < Suc i \<and> pfd (poll_fds (?t u) ! j) = -1"
      if "2 \<le> j" "j < poll_nfds (?t u)" for j
      using ok that i wf by (cases "j = i") (auto simp: accounted_def slot_live_def server_wf_def f(1-3))
    moreover have "same_core s0 (?t u)"
      using ok i by (simp add: accounted_def same_core_def f(1-3) m(1,2))
    ultimately have "accounted s0 D M h (Suc i) (?t u)" by (simp add: accounted_def)
    then show "wp (do { modify ?t; ret True }) (\<lambda>b s'. b \<and> accounted s0 D M h (Suc i) s') u"
      by (simp add: wp_simps)
  qed
qed

interpretation tcp_frame: drained "server_receive_tcp e i" "buffer_frame s0" for e i and s0 :: server
  by unfold_locales (rule keepsD [OF server_receive_frame(1)])

lemma log_accounted [simp]: "accounted s0 D M h i (after_log e l s) = accounted s0 D M h i s"
  by (rule accounted_cong) (simp_all add: holds_def, simp_all add: after_log_def)

lemma scan_slot_accounted:
  assumes whole: "handshake_whole e" and ok: "accounted s0 D M h i s" and i: "i < poll_nfds s"
    and run: "server_scan_slot e i s = Some (b, s')"
  shows "accounted s0 D M h (Suc i) s' \<and> (\<not> b \<longrightarrow> accounted s0 D M h 0 s \<longrightarrow> accounted s0 D M h 0 s')"
  using run
proof (cases rule: scan_slot_cases)
  case (message r t)
  have t: "accounted s0 D M h k t" if "accounted s0 D M h k s" for k
    by (rule tcp_accounted.drain_inv [OF that message(3)])
  have "poll_nfds t = poll_nfds s"
    by (rule buffer_frame_fields [OF tcp_frame.drain_inv [OF buffer_frame_refl message(3)]])
  moreover have "2 \<le> i"
  proof (rule ccontr)
    assume "\<not> 2 \<le> i"
    then consider "i = 0" | "i = 1" by linarith
    then show False by cases (use ok message(1,2) in \<open>auto simp: accounted_def same_core_def\<close>)
  qed
  ultimately have d: "wp (server_drop e i) (\<lambda>b s'. b \<and> accounted s0 D M h (Suc i) s') t"
    using i by (intro drop_accounted t ok) auto
  have "wp (server_after_receive e i r) (\<lambda>b s'. accounted s0 D M h (Suc i) s' \<and>
      (\<not> b \<longrightarrow> accounted s0 D M h 0 s \<longrightarrow> accounted s0 D M h 0 s')) t"
    using t accounted_later [OF t [OF ok] le_SucI [OF order_refl]]
    by (auto simp: server_after_receive_def wp_simps intro: wp_mono [OF d])
  from wp_runI [OF this message(4)] show ?thesis .
qed (use whole ok in \<open>auto intro: accounted_later
    dest: accept_accounted.drain_inv [OF conjI [OF whole]] udp_accounted.drain_inv [rotated]\<close>)

section \<open>The whole call\<close>

lemma scan_accounted:
  assumes "handshake_whole e" "accounted s0 D M h 0 s" "server_scan e 0 False s = Some y"
  shows "(\<exists>k. accounted s0 D M h k (snd y)) \<and> (\<not> fst y \<longrightarrow> accounted s0 D M h 0 (snd y))"
proof -
  have "\<exists>k. accounted s0 D M h k (snd y) \<and> (\<not> fst y \<longrightarrow> accounted s0 D M h 0 (snd y))"
    using assms(2) scan_slot_accounted [OF assms(1)] by (intro server_scan_rule [OF assms(3)]) blast+
  then show ?thesis by blast
qed

lemma holds_faults:
  assumes "hist s' = hist s @ fs" "\<forall>ev \<in> set fs. is_fault ev"
  shows "holds D M h s' = holds D M h s"
proof -
  from assms(2) have "opened fs = {#} \<and> closed fs = {#} \<and> inited fs = {#} \<and> destroyed fs = {#}"
  proof (induction fs)
    case (Cons ev fs)
    then show ?case by (cases ev) auto
  qed simp
  then show ?thesis by (simp add: holds_def assms(1))
qed

lemma compact_keeps_own:
  assumes "server_wf s" "2 \<le> i" "k < 2"
  shows "infos (compact_table i s) ! k = infos s ! k \<and> poll_fds (compact_table i s) ! k = poll_fds s ! k"
  using assms
proof (induction i s rule: compact_table.induct)
  case (1 i s)
  show ?case
  proof (cases "i < poll_nfds s \<and> pfd (poll_fds s ! i) = -1")
    case False
    with "1.IH"(2) "1.prems" show ?thesis by (subst (1 2) compact_table.simps) auto
  next
    case True
    obtain t where run: "run_state (remove_slot i) s = ((), t)" by (simp add: run_remove_slot)
    note l = remove_slot_lists [OF "1.prems"(1,2) _ run]
    have own: "infos t ! k = infos s ! k" "poll_fds t ! k = poll_fds s ! k"
      using run "1.prems" by (auto simp: run_remove_slot overlay_def nth_append server_wf_def split: if_splits)
    have "compact_table i s = compact_table i t" using True run by (simp add: compact_table.simps [of i s])
    with "1.IH"(1) True run l(3) "1.prems" own show ?thesis by simp
  qed
qed

lemma compact_accounted:
  assumes ok: "accounted s0 D M h k s"
  shows "accounted s0 D M h 0 (compact_table 2 s)"
proof -
  let ?t = "compact_table 2 s"
  note wf = accounted_wf [OF ok]
  from compact_table_clients [OF wf, of 2]
  have c: "server_wf ?t" "clients ?t = filter live (clients s)" by simp_all
  have m: "sends ?t = sends s" "sends_base ?t = sends_base s" using compact_table_hist [of 2 s] by blast+
  have "scan_inv s" using ok by (auto simp: accounted_def scan_inv_def)
  from clients_scan_inv [OF this] have "server_inv ?t"
    by (intro server_invI [OF c(1)]) (auto simp: c(2))
  moreover have "holds X M h ?t = holds X M h s" for X
    using compact_table_hist [of 2 s] holds_faults by blast
  moreover have "conn_fds ?t = conn_fds s" by (simp add: conn_fds_def c(2))
  ultimately show ?thesis
    using ok compact_keeps_own [OF wf, of 2]
    by (simp add: accounted_def same_core_def server_inv_def m)
qed

lemma poll_table_accounted:
  assumes run: "run_state (poll_table e t) s = (r, s')" and ok: "accounted s0 D M h 0 s"
  shows "accounted s0 D M h 0 s'"
proof -
  note f = poll_table_frame [OF run]
  note wf = accounted_wf [OF ok]
  have pf: "pfd (poll_fds s' ! i) = pfd (poll_fds s ! i)" if "i < poll_nfds s" for i
    using that wf by (intro f(5)) (auto simp: server_wf_def)
  have "map (\<lambda>c. pfd (fst c)) (clients s') = map (\<lambda>c. pfd (fst c)) (clients s)"
  proof (rule nth_equalityI)
    show "length (map (\<lambda>c. pfd (fst c)) (clients s')) = length (map (\<lambda>c. pfd (fst c)) (clients s))"
      using wf poll_table_wf [OF run] by (simp add: length_clients f(2))
    fix i assume "i < length (map (\<lambda>c. pfd (fst c)) (clients s'))"
    then have i: "i < poll_nfds s - 2" using wf poll_table_wf [OF run] by (simp add: length_clients f(2))
    then show "map (\<lambda>c. pfd (fst c)) (clients s') ! i = map (\<lambda>c. pfd (fst c)) (clients s) ! i"
      using wf poll_table_wf [OF run] clients_nth [OF wf i] clients_nth [of s' i] pf [of "i + 2"]
      by (simp add: length_clients f(2))
  qed
  then have "filter (\<lambda>x. x \<noteq> -1) (map (\<lambda>c. pfd (fst c)) (clients s')) =
      filter (\<lambda>x. x \<noteq> -1) (map (\<lambda>c. pfd (fst c)) (clients s))" by simp
  then have c: "conn_fds s' = conn_fds s"
    by (simp add: conn_fds_def filter_map comp_def live_def [abs_def])
  have "keeps (holds X M h) (poll_table e t)" for X
    unfolding poll_table_def by (intro inv_intros keeps_modify; simp add: holds_def)
  from keeps_run [OF this _ run] ok have "holds (D + conn_fds s') M h s'"
    by (simp add: c accounted_def)
  moreover have "2 \<le> poll_nfds s" using wf by (simp add: server_wf_def)
  ultimately show ?thesis
    using ok pf server_more [OF f(3)] poll_table_wf [OF run]
    by (simp add: accounted_def same_core_def slot_live_def f(1,2))
qed

lemma server_poll_accounted:
  assumes "handshake_whole e" "accounted s0 D M h 0 s" "udtcp_server_poll e t s = Some (r, s')"
  shows "accounted s0 D M h 0 s'"
proof -
  obtain p s1 where p: "run_state (poll_table e t) s = (p, s1)" by fastforce
  note ok1 = poll_table_accounted [OF p assms(2)]
  show ?thesis
  proof (cases "0 < p")
    case False
    then show ?thesis
      using assms(3) ok1 by (auto simp: udtcp_server_poll_def p split: if_splits)
  next
    case True
    then obtain org s2 where scan: "server_scan e 0 False s1 = Some (org, s2)"
      and s': "s' = (if org then compact_table 2 s2 else s2)"
      using assms(3) by (auto simp: udtcp_server_poll_def p split: option.splits prod.splits)
    from scan_accounted [OF assms(1) ok1 scan] s' show ?thesis
      by (cases org) (auto intro: compact_accounted)
  qed
qed

end
