(* ===== verification/Udtcp_Application.thy ===== *)
theory Udtcp_Application
  imports Udtcp_Server_Descriptors Udtcp_Thread_End Udtcp_Connect_Outcome
begin

text \<open>
  The two programs of \<open>examples/simple_connection\<close>, which put the library together: create, set
  the callbacks, connect, start the thread, wait, stop, delete.

  \<open>run h\<close> is the value of \<open>g_is_run\<close> when the history is \<open>h\<close>: the signal handler clears it at some
  time.  While its thread runs, \<open>main\<close> only sleeps and reads \<open>g_is_run\<close> and \<open>is_started\<close>; a session
  is therefore the run of the thread between \<open>start\<close> and \<open>stop\<close>, and that \<open>main\<close> has called \<open>stop\<close>
  is what the thread sees as \<open>stop_seen\<close>.  The seconds slept meanwhile are not events.
\<close>

section \<open>Texts\<close>

definition lit :: "string \<Rightarrow> byte list" where
  "lit = map of_char"

fun decimal :: "nat \<Rightarrow> byte list" where
  "decimal n = (if n < 10 then [digit n] else decimal (n div 10) @ [digit (n mod 10)])"

declare decimal.simps [simp del]

text \<open>\<open>%hu\<close> and \<open>%i\<close>.\<close>

definition unsigned_text :: "u16 \<Rightarrow> byte list" where
  "unsigned_text w = decimal (unat w)"

definition int_text :: "int \<Rightarrow> byte list" where
  "int_text i = (if i < 0 then lit ''-'' @ decimal (nat (- i)) else decimal (nat i))"

text \<open>\<open>%s\<close> of a member: \<open>None\<close> when it has no terminator and \<open>printf\<close> reads on behind it.\<close>

definition member_text :: "byte list \<Rightarrow> byte list option" where
  "member_text bs = (if 0 \<in> set bs then Some (c_string bs) else None)"

text \<open>\<open>%.*s\<close> with \<open>(int)data_size, data\<close>: a negative precision counts as none at all.\<close>

definition data_text :: "byte list \<Rightarrow> byte list option" where
  "data_text data = (let p = sint (of_nat (length data) :: u32) in
     if 0 \<le> p then Some (c_string (take (nat p) data)) else member_text data)"

text \<open>What the callbacks print.\<close>

definition ports_text :: "string \<Rightarrow> udtcp_infos \<Rightarrow> byte list option" where
  "ports_text title x = do {
     i \<leftarrow> member_text (ip x);
     Some (lit title @ lit ''ip: '' @ i @ lit '', tcp port: '' @ unsigned_text (tcp_port x) @
       lit '', udp server port: '' @ unsigned_text (udp_server_port x) @
       lit '', udp client port: '' @ unsigned_text (udp_client_port x) @ [10]) }"

definition connect_text :: "udtcp_infos \<Rightarrow> byte list option" where
  "connect_text = ports_text ''CONNECT CALLBACK ''"

definition disconnect_text :: "udtcp_infos \<Rightarrow> byte list option" where
  "disconnect_text = ports_text ''DISCONNECT CALLBACK ''"

definition client_receive_tcp_text :: "udtcp_infos \<Rightarrow> byte list \<Rightarrow> byte list option" where
  "client_receive_tcp_text x data = do {
     i \<leftarrow> member_text (ip x);
     d \<leftarrow> data_text data;
     Some (lit ''RECEIVE TCP CALLBACK ip: '' @ i @ lit '', tcp port: '' @ unsigned_text (tcp_port x) @
       lit '' > '' @ [34] @ d @ [34, 10]) }"

definition server_receive_tcp_text :: "udtcp_infos \<Rightarrow> byte list \<Rightarrow> byte list option" where
  "server_receive_tcp_text x data = do {
     i \<leftarrow> member_text (ip x);
     d \<leftarrow> data_text data;
     Some (lit ''RECEIVE TCP CALLBACK ip: '' @ i @ lit '', tcp port: '' @ unsigned_text (tcp_port x) @
       lit '' > ['' @ int_text (sint (ucast (info_id x) :: u32)) @ lit ''] '' @ [34] @ d @ [34, 10]) }"

definition receive_udp_text :: "udtcp_infos \<Rightarrow> byte list \<Rightarrow> byte list option" where
  "receive_udp_text x data = do {
     i \<leftarrow> member_text (ip x);
     d \<leftarrow> data_text data;
     Some (lit ''RECEIVE UDP CALLBACK ip: '' @ i @ lit '', udp port: '' @ unsigned_text (udp_client_port x) @
       lit '' > ['' @ int_text (sint (ucast (info_id x) :: u32)) @ lit ''] '' @ [34] @ d @ [34, 10]) }"

definition log_text :: "udtcp_log_level_e \<Rightarrow> byte list \<Rightarrow> byte list" where
  "log_text level str = lit ''['' @ lit ([''ERROR'', ''INFO '', ''DEBUG''] ! log_level_value level) @
     lit ''] '' @ str @ [10]"

text \<open>The server program has its own copies of the functions that are the same in both.\<close>

definition server_connect_text :: "udtcp_infos \<Rightarrow> byte list option" where
  "server_connect_text = ports_text ''CONNECT CALLBACK ''"

definition server_disconnect_text :: "udtcp_infos \<Rightarrow> byte list option" where
  "server_disconnect_text = ports_text ''DISCONNECT CALLBACK ''"

definition server_receive_udp_text :: "udtcp_infos \<Rightarrow> byte list \<Rightarrow> byte list option" where
  "server_receive_udp_text x data = do {
     i \<leftarrow> member_text (ip x);
     d \<leftarrow> data_text data;
     Some (lit ''RECEIVE UDP CALLBACK ip: '' @ i @ lit '', udp port: '' @ unsigned_text (udp_client_port x) @
       lit '' > ['' @ int_text (sint (ucast (info_id x) :: u32)) @ lit ''] '' @ [34] @ d @ [34, 10]) }"

definition server_log_text :: "udtcp_log_level_e \<Rightarrow> byte list \<Rightarrow> byte list" where
  "server_log_text level str = lit ''['' @ lit ([''ERROR'', ''INFO '', ''DEBUG''] ! log_level_value level) @
     lit ''] '' @ str @ [10]"

text \<open>The text of a connection is defined when its address has a terminator.\<close>

lemma server_connect_text_None: "server_connect_text x = None \<longleftrightarrow> 0 \<notin> set (ip x)"
  by (simp add: server_connect_text_def ports_text_def member_text_def)

text \<open>A string copied without its terminator is read with what is left behind it.\<close>

lemma member_text_overlay:
  assumes "length src \<le> length old" "0 \<notin> set src"
  shows "member_text (overlay 0 src old) = map_option ((@) src) (member_text (drop (length src) old))"
proof -
  have "c_string (src @ xs) = src @ c_string xs" for xs
    using assms(2) by (intro c_string_append) metis
  then show ?thesis using assms by (auto simp: member_text_def overlay_def)
qed

text \<open>The texts of messages below 2 GiB are cut at their first zero byte; a longer one without a zero
  byte is read behind its end.  Every level has its name in the table.\<close>

lemma data_text_small:
  assumes "length data < 2 ^ 31"
  shows "data_text data = Some (c_string data)"
proof -
  have "sint (of_nat (length data) :: u32) = int (length data)"
    using c_int_id [of "int (length data)"] assms by (simp add: c_int_def)
  then show ?thesis by (simp add: data_text_def)
qed

lemma data_text_large:
  assumes "2 ^ 31 \<le> length data" "length data < 2 ^ 32"
  shows "data_text data = member_text data"
proof -
  have "uint (of_nat (length data) :: u32) = int (length data)"
    using assms(2) by (simp add: unsigned_of_nat take_bit_nat_eq_self)
  then have "sint (of_nat (length data) :: u32) = int (length data) - 2 ^ 32"
    using assms by (simp add: sint_uint signed_take_bit_eq_take_bit_shift take_bit_eq_mod)
      (subst mod_pos_geq; simp)
  then show ?thesis using assms(2) by (simp add: data_text_def)
qed

lemma log_level_in_table: "log_level_value l < 3"
  by (cases l) simp_all

section \<open>The parts of \<open>main\<close>\<close>

text \<open>\<open>SIGABRT\<close>, \<open>SIGINT\<close>, \<open>SIGQUIT\<close>, \<open>SIGTERM\<close>.\<close>

definition ini_signal :: "env \<Rightarrow> ('a sys_scheme, unit) state" where
  "ini_signal e = do {
     sys_do e (C_sigaction 6); sys_do e (C_sigaction 2); sys_do e (C_sigaction 3); sys_do e (C_sigaction 15) }"

definition set_callbacks :: "'a peer_scheme \<Rightarrow> 'a peer_scheme" where
  "set_callbacks s = s\<lparr>connect_callback := True, disconnect_callback := True,
     receive_tcp_callback := True, receive_udp_callback := True, log_callback := True\<rparr>"

definition report :: "env \<Rightarrow> string \<Rightarrow> ('a sys_scheme, unit) state" where
  "report e what = do {
     x \<leftarrow> gets errno;
     r \<leftarrow> syscall e (C_strerror x);
     sys_do e (C_fprintf (lit what @ lit '': '' @ payload r @ [10])) }"

text \<open>From \<open>start\<close> to \<open>stop\<close>.  When there is no thread, \<open>is_started\<close> is 0 and \<open>main\<close> does not wait.\<close>

definition client_session :: "env \<Rightarrow> client \<Rightarrow> client option" where
  "client_session e s = (case run_state (udtcp_start_client e) s of (r, s1) \<Rightarrow>
     Option.bind (if r = 0 then thread_client_poll e s1 else Some s1)
       (\<lambda>s2. Some (snd (run_state (udtcp_stop_client e) s2))))"

definition server_session :: "env \<Rightarrow> server \<Rightarrow> server option" where
  "server_session e s = (case run_state (udtcp_start_server e) s of (r, s1) \<Rightarrow>
     Option.bind (if r = 0 then thread_server_poll e s1 else Some s1)
       (\<lambda>s2. Some (snd (run_state (udtcp_stop_server e) s2))))"

text \<open>What \<open>start\<close>, the thread and \<open>stop\<close> keep, a session keeps.\<close>

lemma server_session_inv:
  assumes "keeps I (udtcp_start_server e)" "keeps I (udtcp_stop_server e)"
    and "\<And>u v. I u \<Longrightarrow> thread_server_poll e u = Some v \<Longrightarrow> I v"
    and "I s" "server_session e s = Some s'"
  shows "I s'"
proof -
  obtain r s1 where start: "run_state (udtcp_start_server e) s = (r, s1)" by fastforce
  have "I s1" by (rule keeps_run [OF assms(1,4) start])
  moreover obtain s2 where "(if r = 0 then thread_server_poll e s1 else Some s1) = Some s2"
    and stop: "s' = snd (run_state (udtcp_stop_server e) s2)"
    using assms(5) by (auto simp: server_session_def start bind_eq_Some_conv)
  ultimately have "I s2" using assms(3) by (simp split: if_splits)
  then show ?thesis unfolding stop by (rule keeps_run_state [OF assms(2)])
qed

lemma client_session_inv:
  assumes "keeps I (udtcp_start_client e)" "keeps I (udtcp_stop_client e)"
    and "\<And>u v. I u \<Longrightarrow> thread_client_poll e u = Some v \<Longrightarrow> I v"
    and "I s" "client_session e s = Some s'"
  shows "I s'"
proof -
  obtain r s1 where start: "run_state (udtcp_start_client e) s = (r, s1)" by fastforce
  have "I s1" by (rule keeps_run [OF assms(1,4) start])
  moreover obtain s2 where "(if r = 0 then thread_client_poll e s1 else Some s1) = Some s2"
    and stop: "s' = snd (run_state (udtcp_stop_client e) s2)"
    using assms(5) by (auto simp: client_session_def start bind_eq_Some_conv)
  ultimately have "I s2" using assms(3) by (simp split: if_splits)
  then show ?thesis unfolding stop by (rule keeps_run_state [OF assms(2)])
qed

section \<open>The server program\<close>

definition server_main :: "env \<Rightarrow> server \<Rightarrow> (int \<times> server) option" where
  "server_main e s = (case run_state (do { ini_signal e;
       udtcp_create_server e (lit ''0.0.0.0'') 4242 4242 4243 }) s of (r, s1) \<Rightarrow>
     if r = -1 then Some (1, snd (run_state (report e ''udtcp_create_server'') s1))
     else Option.bind (server_session e (set_callbacks s1))
       (\<lambda>s2. Some (0, snd (run_state (udtcp_delete_server e) s2))))"

section \<open>The client program\<close>

definition CLIENT_WAIT_BETWEEN_TRY_CONNECTION :: nat where
  "CLIENT_WAIT_BETWEEN_TRY_CONNECTION = 1"

text \<open>One turn of the inner loop, and the loop; \<open>None\<close> is a client that tries for ever.\<close>

definition try_connect :: "env \<Rightarrow> (client, udtcp_connect_e) state" where
  "try_connect e = do {
     is_connect \<leftarrow> udtcp_connect_client e (lit ''127.0.0.1'') 4242 5000;
     (if is_connect \<noteq> UDTCP_CONNECT_SUCCESS then sys_do e (C_sleep CLIENT_WAIT_BETWEEN_TRY_CONNECTION) else skip);
     ret is_connect }"

partial_function (option) client_tries ::
    "env \<Rightarrow> (event list \<Rightarrow> bool) \<Rightarrow> udtcp_connect_e \<Rightarrow> client \<Rightarrow> client option" where
  "client_tries e run is_connect s =
     (if run (hist s) \<and> is_connect \<noteq> UDTCP_CONNECT_SUCCESS
      then client_tries e run (fst (run_state (try_connect e) s)) (snd (run_state (try_connect e) s))
      else Some s)"

partial_function (option) client_loop :: "env \<Rightarrow> (event list \<Rightarrow> bool) \<Rightarrow> client \<Rightarrow> client option" where
  "client_loop e run s =
     (if run (hist s) then
        Option.bind (client_tries e run UDTCP_CONNECT_ERROR s) (\<lambda>s1.
          if \<not> run (hist s1) then Some s1
          else Option.bind (client_session e s1) (client_loop e run))
      else Some s)"

definition client_main :: "env \<Rightarrow> (event list \<Rightarrow> bool) \<Rightarrow> client \<Rightarrow> (int \<times> client) option" where
  "client_main e run s = (case run_state (do { ini_signal e;
       udtcp_create_client e (lit ''0.0.0.0'') 0 0 0 }) s of (r, s1) \<Rightarrow>
     if r = -1 then Some (1, snd (run_state (report e ''udtcp_create_client'') s1))
     else Option.bind (client_loop e run (set_callbacks s1))
       (\<lambda>s2. Some (0, snd (run_state (udtcp_delete_client e) s2))))"

end
