(* ===== verification/Udtcp_Application_Account.thy ===== *)
theory Udtcp_Application_Account
  imports Udtcp_Application
begin

text \<open>
  What the two programs leave behind: the account of descriptors and mutexes over a whole run, from
  the parts that create, accept, connect, poll, disconnect and delete.
\<close>

section \<open>The server program\<close>

interpretation server_account: polled e "udtcp_server_poll e t"
    "\<lambda>s. handshake_whole e \<and> accounted s0 D M h 0 s \<and> buffer_sized s" for e t s0 D M h
proof unfold_locales
  have start: "accounted s0 D M h 0 (s\<lparr>is_started := 0\<rparr>) = accounted s0 D M h 0 s" for s
    by (rule accounted_cong) (simp_all add: holds_def)
  show "handshake_whole e \<and> accounted s0 D M h 0 (s\<lparr>is_started := 0\<rparr>) \<and> buffer_sized (s\<lparr>is_started := 0\<rparr>)"
    if "handshake_whole e \<and> accounted s0 D M h 0 s \<and> buffer_sized s" for s
    using that by (simp add: start buffer_sized_def)
qed (auto simp: buffer_sized_def intro: server_poll_accounted dest: server_poll_sized)

text \<open>The invariant of the program from the creation to the deletion.\<close>

definition server_owns :: "server \<Rightarrow> int multiset \<Rightarrow> u64 multiset \<Rightarrow> event list \<Rightarrow> server \<Rightarrow> bool" where
  "server_owns s0 D M h s \<longleftrightarrow> accounted s0 D M h 0 s \<and> buffer_sized s"

lemma keeps_server_owns:
  "neutral c \<Longrightarrow> keeps (server_owns s0 D M h) (syscall e c)"
  "keeps (server_owns s0 D M h) (udtcp_log e l)"
  "keeps (server_owns s0 D M h) (modify (\<lambda>s. s\<lparr>poll_loop := x\<rparr>))"
  "keeps (server_owns s0 D M h) (modify (\<lambda>s. s\<lparr>is_started := x\<rparr>))"
  "keeps (server_owns s0 D M h) (modify set_callbacks)"
proof -
  have sys: "accounted s0 D M h 0 (s\<lparr>hist := hist s @ [Ev c r], errno := y\<rparr>) = accounted s0 D M h 0 s"
    if "neutral c" for s r y
    using neutral_events [OF that] by (intro accounted_cong) (simp_all add: holds_def)
  show "neutral c \<Longrightarrow> keeps (server_owns s0 D M h) (syscall e c)"
    by (auto simp: keeps_def server_owns_def sys buffer_sized_def intro!: wp_syscallI)
  show "keeps (server_owns s0 D M h) (udtcp_log e l)"
    by (auto simp: keeps_def server_owns_def wp_simps buffer_sized_def)
  have f: "accounted s0 D M h 0 (s\<lparr>poll_loop := x\<rparr>) = accounted s0 D M h 0 s"
    "accounted s0 D M h 0 (s\<lparr>is_started := x\<rparr>) = accounted s0 D M h 0 s"
    "accounted s0 D M h 0 (set_callbacks s) = accounted s0 D M h 0 s" for s
    by (rule accounted_cong; simp add: holds_def set_callbacks_def)+
  show "keeps (server_owns s0 D M h) (modify (\<lambda>s. s\<lparr>poll_loop := x\<rparr>))"
    "keeps (server_owns s0 D M h) (modify (\<lambda>s. s\<lparr>is_started := x\<rparr>))"
    "keeps (server_owns s0 D M h) (modify set_callbacks)"
    by (auto simp: keeps_def server_owns_def f wp_simps) (auto simp: buffer_sized_def set_callbacks_def)
qed

lemma start_stop_owns:
  "keeps (server_owns s0 D M h) (udtcp_start_server e)" "keeps (server_owns s0 D M h) (udtcp_stop_server e)"
  unfolding udtcp_start_server_def udtcp_stop_server_def udtcp_stop_def sys_int_def sys_do_def
  by (intro inv_intros keeps_server_owns; simp)+

lemma server_session_owns:
  assumes "handshake_whole e" "server_owns s0 D M h s" "server_session e s = Some s'"
  shows "server_owns s0 D M h s'"
proof (rule server_session_inv [OF start_stop_owns _ assms(2,3)])
  show "server_owns s0 D M h v" if "server_owns s0 D M h u" "thread_server_poll e u = Some v" for u v
    using server_account.thread_inv that assms(1) unfolding thread_server_poll_def server_owns_def by blast
qed

text \<open>Deleting releases the table's sockets with the server's own.\<close>

lemma conn_fds_sum:
  assumes "server_wf s"
  shows "\<Sum>\<^sub># (mset (map (\<lambda>k. valid_fd (pfd (poll_fds s ! k))) [2..<poll_nfds s])) = conn_fds s"
proof -
  have "\<Sum>\<^sub># (mset (map (\<lambda>k. valid_fd (pfd (p k))) ks)) =
      mset (map (\<lambda>c. pfd (fst c)) (filter live (map (\<lambda>k. (p k, i k)) ks)))" for p :: "nat \<Rightarrow> pollfd" and i ks
    by (induction ks) (simp_all add: valid_fd_def live_def)
  then show ?thesis unfolding conn_fds_def clients_upt [OF assms] .
qed

lemma owns_server_building:
  assumes "server_building h tcp us uc b s"
  shows "server_owns s {#tcp, us, uc#} (mutex_set b) h s" "sends s = replicate UDTCP_POLL_TABLE_SIZE zero_send"
    "sends_base s = b" "0 \<le> tcp" "0 \<le> us" "0 \<le> uc" "tcp_socket (infos s ! 0) = tcp"
    "udp_server_socket (infos s ! 0) = us" "udp_client_socket (infos s ! 0) = uc"
proof -
  have "conn_fds s = {#}" if "server_wf s" "poll_nfds s = 2"
    using that by (simp add: conn_fds_def clients_def)
  with assms show "server_owns s {#tcp, us, uc#} (mutex_set b) h s"
    by (auto simp: server_building_def new_server_def server_owns_def accounted_def same_core_def buffer_sized_def)
qed (use assms in \<open>simp_all add: server_building_def new_server_def\<close>)

lemma delete_server_owns:
  assumes b: "server_building h tcp us uc b s0" and own: "server_owns s0 {#tcp, us, uc#} (mutex_set b) h s"
  shows "wp (udtcp_delete_server e) (\<lambda>_. holds {#} {#} h) s"
proof -
  note o = owns_server_building [OF b]
  have wf: "server_wf s" and sz: "buffer_sized s"
    and f: "infos s ! 0 = infos s0 ! 0" "sends s = sends s0" "sends_base s = sends_base s0"
    and h: "holds ({#tcp, us, uc#} + conn_fds s) (mutex_set b) h s"
    using own by (simp_all add: server_owns_def accounted_def same_core_def)
  have "\<forall>k \<in> {2..<UDTCP_POLL_TABLE_SIZE}. sized (sends s ! k)"
    by (simp add: f o(2) sized_def zero_send_def)
  note d = delete_server_destructs [OF sz this, of e]
  have "server_fds s = {#tcp, us, uc#} + conn_fds s"
    unfolding server_fds_def conn_fds_sum [OF wf] using o(4-9)
    by (simp add: f valid_fd_def add_mset_commute)
  with d have "wp (udtcp_delete_server e) (\<lambda>_. destructs ({#tcp, us, uc#} + conn_fds s) (mutex_set b) (server_blocks s) s) s"
    by (simp only: server_mutexes_base f(3) o(3))
  then show ?thesis by (rule wp_mono) (rule holds_release [OF h])
qed

lemma ini_signal_holds: "keeps (holds D M h) (ini_signal e)"
  unfolding ini_signal_def sys_do_def by (intro inv_intros; simp)

lemma report_holds: "keeps (holds D M h) (report e what)"
  unfolding report_def sys_do_def by (intro inv_intros; simp)

lemma balance_trans:
  fixes a b :: "'x multiset"
  assumes "b + ca = a + cb + D" "c + cb = b + cc + D'"
  shows "c + ca = a + cc + (D + D')"
proof -
  have "(c + ca) + cb = (c + cb) + ca" by (simp add: ac_simps)
  also have "\<dots> = (b + ca) + cc + D'" by (simp only: assms(2) ac_simps)
  also have "\<dots> = (a + cc + (D + D')) + cb" by (simp only: assms(1) ac_simps)
  finally show ?thesis by simp
qed

lemma holds_trans: "holds D M h t \<Longrightarrow> holds D' M' (hist t) u \<Longrightarrow> holds (D + D') (M + M') h u"
  unfolding holds_def by (auto intro: balance_trans)

lemma holds_hist: "holds {#} {#} h t \<Longrightarrow> holds D M (hist t) u \<Longrightarrow> holds D M h u"
  using holds_trans [of "{#}" "{#}"] by simp

lemma server_main_outcome:
  assumes "\<And>h a. rv (os e h (C_mutex_init a)) = 0" "handshake_whole e" "server_main e s = Some (r, s')"
  shows "(r = 0 \<or> r = 1) \<and> holds {#} {#} (hist s) s'"
proof -
  obtain c s1 where create: "run_state (do { ini_signal e;
      udtcp_create_server e (lit ''0.0.0.0'') 4242 4242 4243 }) s = (c, s1)" by fastforce
  have "wp (do { ini_signal e; udtcp_create_server e (lit ''0.0.0.0'') 4242 4242 4243 })
      (\<lambda>c u. \<exists>t :: server. holds {#} {#} (hist s) t \<and> create_outcome e (hist t) c u) s"
    by (rule wp_bindI [OF keepsD [OF ini_signal_holds holds_refl]], rule wp_mono [OF create_server_outcome]) blast
  from wp_runI [OF this create] obtain t :: server where t: "holds {#} {#} (hist s) t" "create_outcome e (hist t) c s1"
    by blast
  show ?thesis
  proof (cases "c = -1")
    case True
    with t(2) have "holds {#} {#} (hist t) s1"
      using assms(1) by (auto simp: create_outcome_def mutex_left_def)
    then have "holds {#} {#} (hist s) s1" by (rule holds_hist [OF t(1)])
    from keeps_run_state [OF report_holds this] True assms(3) create show ?thesis
      by (auto simp: server_main_def)
  next
    case False
    with t(2) obtain tcp us uc b where b: "server_building (hist t) tcp us uc b s1"
      by (auto simp: create_outcome_def split: if_splits)
    obtain s2 where session: "server_session e (set_callbacks s1) = Some s2"
      and del: "r = 0" "s' = snd (run_state (udtcp_delete_server e) s2)"
      using assms(3) create False by (auto simp: server_main_def bind_eq_Some_conv)
    have "server_owns s1 {#tcp, us, uc#} (mutex_set b) (hist t) (set_callbacks s1)"
      using keepsD [OF keeps_server_owns(5) owns_server_building(1) [OF b]] by (simp add: wp_simps)
    from delete_server_owns [OF b server_session_owns [OF assms(2) this session], of e]
    have "holds {#} {#} (hist t) s'" unfolding del by (simp add: wp_def split: prod.splits)
    with holds_hist [OF t(1)] del show ?thesis by blast
  qed
qed

text \<open>The program returns when the thread ends.\<close>

lemma keeps_wf_server:
  "keeps server_wf (syscall e c)" "keeps server_wf (udtcp_log e l)"
  by (auto simp: keeps_def wp_simps server_wf_def after_log_def intro!: wp_syscallI)

lemma keeps_wf_fields:
  "keeps server_wf (modify (\<lambda>s. s\<lparr>poll_loop := x\<rparr>))" "keeps server_wf (modify (\<lambda>s. s\<lparr>is_started := x\<rparr>))"
  "keeps server_wf (modify set_callbacks)"
  by (simp_all add: keeps_def wp_simps server_wf_def set_callbacks_def)

lemma start_stop_wf: "keeps server_wf (udtcp_start_server e)" "keeps server_wf (udtcp_stop_server e)"
  unfolding udtcp_start_server_def udtcp_stop_server_def udtcp_stop_def sys_int_def sys_do_def
  by (intro inv_intros keeps_wf_server keeps_wf_fields)+

lemma session_returns:
  assumes "runs_dry e N" "stops_by e M" "server_wf s"
  shows "\<exists>s'. server_session e s = Some s'"
proof -
  obtain r s1 where start: "run_state (udtcp_start_server e) s = (r, s1)" by fastforce
  have "server_wf s1" by (rule keeps_run [OF start_stop_wf(1) assms(3) start])
  from server_thread_ends [OF assms(1,2) this] start show ?thesis by (auto simp: server_session_def)
qed

lemma server_main_ends:
  assumes "runs_dry e N" "stops_by e M"
  shows "\<exists>r s'. server_main e s = Some (r, s')"
proof -
  obtain c s1 where create: "run_state (do { ini_signal e;
      udtcp_create_server e (lit ''0.0.0.0'') 4242 4242 4243 }) s = (c, s1)" by fastforce
  have "wp (do { ini_signal e; udtcp_create_server e (lit ''0.0.0.0'') 4242 4242 4243 })
      (\<lambda>c u. c \<noteq> -1 \<longrightarrow> server_wf u) s"
    by (rule wp_bindI [OF keepsD [OF ini_signal_holds holds_refl]], rule wp_mono [OF create_server_outcome])
      (auto simp: create_outcome_def server_building_def new_server_def split: if_splits)
  from wp_runI [OF this create] have "server_wf (set_callbacks s1)" if "c \<noteq> -1"
    using that by (simp add: server_wf_def set_callbacks_def)
  with session_returns [OF assms, of "set_callbacks s1"] create show ?thesis
    by (cases "c = -1") (auto simp: server_main_def)
qed

section \<open>The client program\<close>

text \<open>\<open>connect\<close> and the thread return, so \<open>main\<close> does once \<open>g_is_run\<close> is cleared.\<close>

lemma try_connect_grows:
  "wp (try_connect e) (\<lambda>_ s'. length (hist s) < length (hist s')) s"
proof -
  have string: "keeps (grown n) (udtcp_set_string_infos e x a)" for n x a
    unfolding udtcp_set_string_infos_def copy_string_def by (intro inv_intros)
  have option: "keeps (grown n) (udtcp_socket_add_option e fd opt)" for n fd opt
    unfolding udtcp_socket_add_option_def sys_int_def by (intro inv_intros)
  have err: "keeps (grown n) (set_errno x)" for n x
    by (auto simp: keeps_def wp_simps grown_def)
  have close: "keeps (grown n) (close_tcp_socket e)" for n
    unfolding close_tcp_socket_def sys_do_def by (intro inv_intros)
  have rest: "keeps (grown n) (connect_to e a port t)" for n a port t
    unfolding connect_to_def wait_connected_def client_initialize_connection_def complete_server_infos_def
      recv_infos_def sys_recv_def sys_send_def sys_poll1_def sys_int_def Let_def
    by (intro inv_intros string err close)
  have first: "wp (sys_int e (C_socket k)) (\<lambda>_. grown (Suc (length (hist s)))) s" for k
    unfolding wp_sys_int by (rule wp_syscallI) (simp add: grown_def)
  have "wp (try_connect e) (\<lambda>_. grown (Suc (length (hist s)))) s"
    unfolding try_connect_def udtcp_connect_client_def create_tcp_socket_def State_Monad.bind_assoc
    by (rule wp_bindI [OF first], rule keepsD [rotated], assumption)
      (unfold sys_int_def sys_do_def, intro inv_intros option close rest)
  then show ?thesis by (rule wp_mono) (simp add: grown_def)
qed

lemma client_tries_ends:
  assumes "\<And>h. M \<le> length h \<Longrightarrow> \<not> run h"
  shows "\<exists>s'. client_tries e run c s = Some s' \<and> length (hist s) \<le> length (hist s') \<and>
    (run (hist s) \<and> c \<noteq> UDTCP_CONNECT_SUCCESS \<longrightarrow> length (hist s) < length (hist s'))"
proof (induction "M - length (hist s)" arbitrary: c s rule: less_induct)
  case less
  show ?case
  proof (cases "run (hist s) \<and> c \<noteq> UDTCP_CONNECT_SUCCESS")
    case False
    then have "client_tries e run c s = Some s" by (subst client_tries.simps) auto
    with False show ?thesis by auto
  next
    case True
    obtain c' t where turn: "run_state (try_connect e) s = (c', t)" by fastforce
    from wp_runI [OF try_connect_grows turn] have grow: "length (hist s) < length (hist t)" .
    have "length (hist s) < M" using True assms [of "hist s"] by (meson not_le)
    then have "M - length (hist t) < M - length (hist s)" using grow by simp
    from less [OF this, of c'] obtain u where u: "client_tries e run c' t = Some u"
      "length (hist t) \<le> length (hist u)" by blast
    from True turn u(1) have "client_tries e run c s = Some u" by (subst client_tries.simps) simp
    with u(2) grow show ?thesis by auto
  qed
qed

interpretation client_thread_grown: polled e "udtcp_client_poll e t" "grown n :: client \<Rightarrow> bool" for e t n
proof unfold_locales
  show "grown n s'" if "grown n s" "udtcp_client_poll e t s = Some (r, s')" for s s' :: client and r
    using that client_poll_grows [OF that(2)] by (simp add: grown_def)
qed (simp_all add: grown_def after_log_def)

lemma client_session_ends:
  assumes "runs_dry e N" "stops_by e M"
  shows "\<exists>s'. client_session e s = Some s' \<and> length (hist s) \<le> length (hist s')"
proof -
  let ?P = "grown (length (hist s)) :: client \<Rightarrow> bool"
  have k: "keeps ?P (udtcp_start_client e)" "keeps ?P (udtcp_stop_client e)"
    unfolding udtcp_start_client_def udtcp_stop_client_def udtcp_stop_def sys_int_def sys_do_def
    by (intro inv_intros keeps_modify; simp add: grown_def)+
  obtain r s1 where start: "run_state (udtcp_start_client e) s = (r, s1)" by fastforce
  have one: "?P s1" by (rule keeps_run [OF k(1) _ start]) (simp add: grown_def)
  obtain s2 where two: "(if r = 0 then thread_client_poll e s1 else Some s1) = Some s2"
    using client_thread_ends [OF assms, of s1] by (cases "r = 0") auto
  have "?P s2"
    using two one client_thread_grown.thread_inv [of e _ s1 s2 "length (hist s)"]
    by (auto simp: thread_client_poll_def split: if_splits)
  from keeps_run_state [OF k(2) this] have "?P (snd (run_state (udtcp_stop_client e) s2))" .
  with start two show ?thesis by (simp add: client_session_def grown_def)
qed

lemma client_loop_ends:
  assumes "runs_dry e N" "stops_by e M'" "\<And>h. M \<le> length h \<Longrightarrow> \<not> run h"
  shows "\<exists>s'. client_loop e run s = Some s'"
proof (induction "M - length (hist s)" arbitrary: s rule: less_induct)
  case less
  show ?case
  proof (cases "run (hist s)")
    case False
    then show ?thesis by (subst client_loop.simps) simp
  next
    case True
    obtain s1 where s1: "client_tries e run UDTCP_CONNECT_ERROR s = Some s1" "length (hist s) < length (hist s1)"
      using client_tries_ends [of M run e UDTCP_CONNECT_ERROR s] assms(3) True by auto
    obtain s2 where s2: "client_session e s1 = Some s2" "length (hist s1) \<le> length (hist s2)"
      using client_session_ends [OF assms(1,2), of s1] by blast
    have "length (hist s) < M" using True assms(3) [of "hist s"] by (meson not_le)
    then have "\<exists>u. client_loop e run s2 = Some u" using s1(2) s2(2) by (intro less) simp
    with True s1(1) s2(1) show ?thesis by (subst client_loop.simps) auto
  qed
qed

lemma client_main_ends:
  assumes "runs_dry e N" "stops_by e M'" "\<And>h. M \<le> length h \<Longrightarrow> \<not> run h"
  shows "\<exists>r s'. client_main e run s = Some (r, s')"
proof -
  obtain c s1 where "run_state (do { ini_signal e; udtcp_create_client e (lit ''0.0.0.0'') 0 0 0 }) s = (c, s1)"
    by fastforce
  moreover obtain s2 where "client_loop e run (set_callbacks s1) = Some s2"
    using client_loop_ends [OF assms(1,2), of M run] assms(3) by blast
  ultimately show ?thesis by (simp add: client_main_def)
qed

subsection \<open>Between the calls\<close>

text \<open>What the program relies on besides the library: the resolver knows the address, the process can
  open sockets and create its thread; \<open>poll\<close> reports nothing but readable descriptors and fails
  only when a signal has stopped the program; \<open>stop\<close> is called only after that; \<open>g_is_run\<close> stays 0.\<close>

definition only_readable :: "env \<Rightarrow> bool" where
  "only_readable e \<longleftrightarrow> (\<forall>h fds t. \<forall>v \<in> set (revs (os e h (C_poll fds t))). v = 0 \<or> v AND POLLIN \<noteq> 0)"

definition calm :: "env \<Rightarrow> (event list \<Rightarrow> bool) \<Rightarrow> bool" where
  "calm e run \<longleftrightarrow> (\<forall>h. rv (os e h (C_gethostbyname (lit ''127.0.0.1''))) \<noteq> 0) \<and>
     (\<forall>h k. 0 \<le> rv (os e h (C_socket k))) \<and> (\<forall>h. rv (os e h C_pthread_create) = 0) \<and>
     only_readable e \<and>
     (\<forall>h fds t. rv (os e h (C_poll fds t)) < 0 \<longrightarrow> \<not> run (h @ [Ev (C_poll fds t) (os e h (C_poll fds t))])) \<and>
     (\<forall>h. stop_seen e h \<longrightarrow> \<not> run h) \<and> (\<forall>h g. \<not> run h \<longrightarrow> \<not> run (h @ g))"

text \<open>The client when no function of the library is running: it holds the descriptors \<open>D\<close> and its
  mutex, and \<open>poll_loop\<close> is \<open>l\<close>.\<close>

definition client_rests ::
    "event list \<Rightarrow> int multiset \<Rightarrow> int \<Rightarrow> int \<Rightarrow> u64 \<Rightarrow> int \<Rightarrow> client \<Rightarrow> bool" where
  "client_rests h D us uc m l s \<longleftrightarrow> client_wf s \<and> udp_server_socket (infos s ! 0) = us \<and>
     udp_client_socket (infos s ! 0) = uc \<and> csend s = zero_send \<and> send_addr s = m \<and>
     buffer_sized s \<and> poll_loop s = l \<and> holds D {#m#} h s"

definition client_up :: "event list \<Rightarrow> int \<Rightarrow> int \<Rightarrow> u64 \<Rightarrow> int \<Rightarrow> client \<Rightarrow> bool" where
  "client_up h us uc m l s \<longleftrightarrow> 0 \<le> tcp_socket (infos s ! 0) \<and>
     client_rests h {#tcp_socket (infos s ! 0), us, uc#} us uc m l s"

lemma keeps_rests:
  "neutral c \<Longrightarrow> keeps (client_rests h D us uc m l) (syscall e c)"
  "keeps (client_rests h D us uc m l) (udtcp_log e lv)"
  "neutral c \<Longrightarrow> keeps (client_up h us uc m l) (syscall e c)"
  "keeps (client_up h us uc m l) (udtcp_log e lv)"
  using neutral_events [of c]
  by (auto simp: keeps_def wp_simps client_up_def client_rests_def client_wf_def holds_def buffer_sized_def
      after_log_def intro!: wp_syscallI)

lemma rests_fields:
  "client_rests h D us uc m l (s\<lparr>poll_loop := l'\<rparr>) \<longleftrightarrow>
     client_rests h D us uc m (poll_loop s) s \<and> l' = l"
  "client_rests h D us uc m l (s\<lparr>is_started := x\<rparr>) = client_rests h D us uc m l s"
  "client_rests h D us uc m l (set_callbacks s) = client_rests h D us uc m l s"
  by (auto simp: client_rests_def client_wf_def holds_def buffer_sized_def set_callbacks_def)

subsection \<open>Connecting\<close>

definition resting :: "int \<Rightarrow> client \<Rightarrow> bool" where
  "resting l s \<longleftrightarrow> buffer_sized s \<and> poll_loop s = l"

definition socket_ok :: "client \<Rightarrow> bool" where
  "socket_ok s \<longleftrightarrow> 0 \<le> tcp_socket (infos s ! 0)"

lemma keeps_resting:
  "keeps (resting l) (syscall e c)" "keeps (resting l) (emit ev)" "keeps (resting l) (udtcp_log e lv)"
  "keeps (resting l) (call_back f cb i d)" "keeps (resting l) (set_infos i g)" "keeps (resting l) (set_errno x)"
  "keeps socket_ok (syscall e c)" "keeps socket_ok (emit ev)" "keeps socket_ok (udtcp_log e lv)"
  "keeps socket_ok (call_back f cb i d)" "keeps socket_ok (set_infos (Suc j) g)" "keeps socket_ok (set_errno x)"
  by (auto simp: keeps_def wp_simps resting_def buffer_sized_def socket_ok_def after_log_def after_cb_def
      intro!: wp_syscallI)

lemma connect_resting: "keeps (resting l) (udtcp_connect_client e host port t)"
proof -
  note [inv_intros] = keeps_resting
  have "keeps (resting l) (udtcp_set_string_infos e x a)" "keeps (resting l) (recv_infos e fd i)" for x a fd i
    unfolding udtcp_set_string_infos_def copy_string_def recv_infos_def sys_recv_def Let_def
    by (intro inv_intros)+
  then show ?thesis by (intro connect_keep keeps_resting)
qed

lemma connect_socket_ok:
  assumes "\<And>h. 0 \<le> rv (os e h (C_socket SOCK_STREAM))" "client_wf s"
  shows "wp (udtcp_connect_client e host port t) (\<lambda>_. socket_ok) s"
proof -
  note [inv_intros] = keeps_resting
  have string: "keeps socket_ok (udtcp_set_string_infos e x a)" for x a
    unfolding udtcp_set_string_infos_def copy_string_def by (intro inv_intros)
  have option: "keeps socket_ok (udtcp_socket_add_option e fd opt)" for fd opt
    unfolding udtcp_socket_add_option_def sys_int_def by (intro inv_intros)
  have close: "keeps socket_ok (close_tcp_socket e)"
    unfolding close_tcp_socket_def sys_do_def by (intro inv_intros)
  have one: "set_infos 1 g = set_infos (Suc 0) g" for g :: "udtcp_infos \<Rightarrow> udtcp_infos" by simp
  have rest: "keeps socket_ok (connect_to e a port t)" for a
    unfolding connect_to_def wait_connected_def client_initialize_connection_def complete_server_infos_def
      recv_infos_def sys_recv_def sys_send_def sys_poll1_def sys_int_def Let_def one
    by (intro inv_intros string close)
  have first: "wp (sys_int e (C_socket SOCK_STREAM)) (\<lambda>fd u. socket_ok
      (u\<lparr>infos := (infos u)[0 := (infos u ! 0)\<lparr>tcp_socket := fd\<rparr>]\<rparr>)) s"
    using assms by (simp add: wp_sys_int wp_syscall socket_ok_def client_wf_def)
  show ?thesis
    unfolding udtcp_connect_client_def create_tcp_socket_def State_Monad.bind_assoc
    by (rule wp_bindI [OF first], rule wp_bind_set_infos, erule keepsD [rotated])
      (unfold sys_int_def, intro inv_intros option close rest)
qed

lemma connecting_rests:
  assumes rests: "client_rests h D us uc m l s" and c: "connecting s b fd s'" "socket_ok s'" "resting l s'"
  shows "client_rests h (if b then add_mset fd D else D) us uc m l s'" "tcp_socket (infos s' ! 0) = fd" "0 \<le> fd"
proof -
  from c(1) show fd: "tcp_socket (infos s' ! 0) = fd" by (rule connectingD)
  with c(2) show pos: "0 \<le> fd" by (simp add: socket_ok_def)
  with c(1) have "holds (if b then {#fd#} else {#}) {#} (hist s) s'" by (simp add: connecting_def)
  from holds_trans [OF _ this, of D "{#m#}" h] rests
  have "holds (if b then add_mset fd D else D) {#m#} h s'" by (auto simp: client_rests_def split: if_splits)
  then show "client_rests h (if b then add_mset fd D else D) us uc m l s'"
    using rests c(1,3) by (simp add: client_rests_def connecting_def linked_def resting_def client_wf_def)
qed

lemma try_connect_account:
  assumes calm: "calm e run" and rests: "client_rests h {#us, uc#} us uc m 0 s"
  shows "wp (try_connect e) (\<lambda>c s'. if c = UDTCP_CONNECT_SUCCESS then client_up h us uc m 0 s'
    else client_rests h {#us, uc#} us uc m 0 s') s"
proof -
  let ?c = "udtcp_connect_client e (lit ''127.0.0.1'') 4242 5000"
  let ?Q = "\<lambda>c s'. if c = UDTCP_CONNECT_SUCCESS then client_up h us uc m 0 s'
    else client_rests h {#us, uc#} us uc m 0 s'"
  have wf: "client_wf s" and quiet: "resting 0 s" using rests by (simp_all add: client_rests_def resting_def)
  have sock: "0 \<le> rv (os e h' (C_socket SOCK_STREAM))" "rv (os e h' (C_gethostbyname (lit ''127.0.0.1''))) \<noteq> 0" for h'
    using calm by (simp_all add: calm_def)
  have "wp ?c (\<lambda>c s'. connect_outcome e (lit ''127.0.0.1'') s c s' \<and> socket_ok s' \<and> resting 0 s') s"
    unfolding wp_conj
    using connect_client_outcome [OF wf] connect_socket_ok [OF sock(1) wf] keepsD [OF connect_resting quiet]
    by (simp only: wp_conj simp_thms)
  then have connect: "wp ?c ?Q s"
  proof (rule wp_mono)
    fix c s' assume out: "connect_outcome e (lit ''127.0.0.1'') s c s' \<and> socket_ok s' \<and> resting 0 s'"
    then obtain fd where "connecting s (c = UDTCP_CONNECT_SUCCESS) fd s'"
      using sock(2) by (cases "c = UDTCP_CONNECT_SUCCESS") (auto simp: connect_outcome_def)
    from connecting_rests [OF rests this] out show "?Q c s'"
      by (simp add: client_up_def split: if_splits)
  qed
  have sleep: "wp (do { (if c \<noteq> UDTCP_CONNECT_SUCCESS then sys_do e (C_sleep n) else skip); ret c }) ?Q u"
    if "?Q c u" for c n u
  proof (cases "c = UDTCP_CONNECT_SUCCESS")
    case False
    have "keeps (client_rests h {#us, uc#} us uc m 0) (sys_do e (C_sleep n))"
      unfolding sys_do_def by (intro inv_intros keeps_rests) simp
    from keepsD [OF this, of u] that False show ?thesis by (simp add: wp_bind wp_return)
  qed (use that in \<open>simp add: wp_bind wp_return\<close>)
  show ?thesis unfolding try_connect_def by (rule wp_bindI [OF connect]) (rule sleep)
qed

lemma client_tries_account:
  assumes calm: "calm e run" and run: "client_tries e run c s = Some s'"
    and start: "if c = UDTCP_CONNECT_SUCCESS then client_up h us uc m 0 s else client_rests h {#us, uc#} us uc m 0 s"
  shows "client_up h us uc m 0 s' \<or> client_rests h {#us, uc#} us uc m 0 s' \<and> \<not> run (hist s')"
  using run calm start
proof (induction rule: client_tries.raw_induct [rotated, consumes 1, case_names step])
  case (step tries e run c s y)
  show ?case
  proof (cases "run (hist s) \<and> c \<noteq> UDTCP_CONNECT_SUCCESS")
    case False
    with step(2,4) show ?thesis by (auto split: if_splits)
  next
    case True
    obtain c' t where turn: "run_state (try_connect e) s = (c', t)" by fastforce
    from True step(4) have "client_rests h {#us, uc#} us uc m 0 s" by simp
    from wp_runI [OF try_connect_account [OF step(3) this] turn] True step(2) turn
    show ?thesis by (intro step(1) [OF _ step(3)]) simp_all
  qed
qed

subsection \<open>The thread\<close>

text \<open>Polling leaves the mutexes alone and the receive buffer sized.\<close>

definition unlocked :: "event list \<Rightarrow> client \<Rightarrow> bool" where
  "unlocked h s \<longleftrightarrow> buffer_sized s \<and> inited (hist s) = inited h \<and> destroyed (hist s) = destroyed h"

lemma keeps_unlocked:
  "neutral c \<Longrightarrow> keeps (unlocked h) (syscall e c)" "(\<And>r. event_inited (Ev c r) = {#}) \<Longrightarrow>
     (\<And>r. event_destroyed (Ev c r) = {#}) \<Longrightarrow> keeps (unlocked h) (syscall e c)"
  "keeps (unlocked h) (udtcp_log e l)" "keeps (unlocked h) (call_back f cb i d)"
  "keeps (unlocked h) (set_infos i g)" "keeps (unlocked h) (emit (Fault x))"
  using neutral_events [of c]
  by (auto simp: keeps_def wp_simps unlocked_def buffer_sized_def after_log_def after_cb_def
      intro!: wp_syscallI)

lemma client_ops_unlocked:
  "keeps (unlocked h) (client_receive_tcp e)" "keeps (unlocked h) (client_receive_udp e)"
  "keeps (unlocked h) (client_disconnect e)"
proof -
  have buffer: "keeps (unlocked h) (store_buffer off d)" "keeps (unlocked h) (ensure_buffer e n)" for off d n
    by (auto simp: keeps_def store_buffer_def ensure_buffer_def udtcp_new_buffer_def udtcp_free_buffer_def
        wp_simps wp_calls wp_syscall unlocked_def buffer_sized_def split: option.splits)
  show "keeps (unlocked h) (client_receive_tcp e)" "keeps (unlocked h) (client_receive_udp e)"
    "keeps (unlocked h) (client_disconnect e)"
    by (rule client_ops_keep; (rule buffer keeps_unlocked(2-); simp)?)+
qed

interpretation client_unlocked: client_keeps e "unlocked h" for e h
  by unfold_locales (rule client_ops_unlocked keeps_unlocked(3))+

lemma client_poll_unlocked:
  assumes "udtcp_client_poll e t s = Some (r, s')" "buffer_sized s"
  shows "unlocked (hist s) s'"
proof -
  obtain p s1 where p: "run_state (poll_table e t) s = (p, s1)" by fastforce
  have "unlocked (hist s) s1"
    using p assms(2) by (auto simp: poll_table_def run_syscall unlocked_def buffer_sized_def split: if_splits)
  from client_unlocked.poll_keeps [OF assms(1) this p] show ?thesis .
qed

lemma poll_strange:
  assumes "only_readable e" "client_wf s" "run_state (poll_table e t) s = (p, s1)" "0 < p" "k < poll_nfds s1"
  shows "revents (poll_fds s1 ! k) = 0 \<or> revents (poll_fds s1 ! k) AND POLLIN \<noteq> 0"
proof -
  let ?f = "map (\<lambda>p. (pfd p, events p)) (take (poll_nfds s) (poll_fds s))"
  let ?vs = "revs (os e (hist s) (C_poll ?f (c_int t)))"
  have s1: "poll_fds s1 = set_revents (poll_nfds s) ?vs (poll_fds s)" "poll_nfds s1 = poll_nfds s"
    using assms(3,4) by (auto simp: poll_table_def run_syscall split: if_splits)
  have good: "\<forall>v \<in> set ?vs. v = 0 \<or> v AND POLLIN \<noteq> 0" using assms(1) unfolding only_readable_def by blast
  have "revents (poll_fds s1 ! k) = (if k < length ?vs then ?vs ! k else 0)"
    using assms(2,5) s1 by (simp add: set_revents_def client_wf_def)
  then show ?thesis using good by (cases "k < length ?vs") simp_all
qed

lemma client_poll_account:
  assumes calm: "calm e run" and up: "client_up h us uc m l s"
    and poll: "udtcp_client_poll e t s = Some (r, s')"
  shows "if r = UDTCP_POLL_ERROR \<or> r = UDTCP_POLL_SIGNAL
    then client_rests h {#us, uc#} us uc m l s' \<and> tcp_socket (infos s' ! 0) = -1 \<or>
      client_up h us uc m l s' \<and> \<not> run (hist s')
    else client_up h us uc m l s'"
proof -
  let ?fd = "tcp_socket (infos s ! 0)"
  have wf: "client_wf s" and sized: "buffer_sized s" and rests: "client_rests h {#?fd, us, uc#} us uc m l s"
    using up by (simp_all add: client_up_def client_rests_def)
  note un = client_poll_unlocked [OF poll sized]
  have len: "length (poll_fds s') = length (poll_fds s)" if "client_same s s'"
    using that by (metis client_same_def length_map)
  have kept: "client_up h us uc m l s'" if "client_same s s'" "connection_kept s s'"
    using up that un len [OF that(1)]
    by (simp add: client_up_def client_rests_def client_same_def connection_kept_def client_wf_def
        unlocked_def received_def holds_def)
  have closed: "client_rests h {#us, uc#} us uc m l s' \<and> tcp_socket (infos s' ! 0) = -1"
    if "client_same s s'" "connection_closed s s'"
    using rests that un len [OF that(1)]
    by (auto simp: client_rests_def client_same_def connection_closed_def client_wf_def unlocked_def holds_def)
  obtain p s1 where p: "run_state (poll_table e t) s = (p, s1)" by fastforce
  note after = after_poll_table [OF p]
  show ?thesis
  proof (cases "0 < p")
    case True
    then have "client_scan e 0 s1 = Some (r, s')" using poll by (simp add: udtcp_client_poll_def p)
    from client_scan_outcome [OF this] poll_strange [OF _ wf p True] calm
    have "r = UDTCP_POLL_SUCCESS \<and> client_quiet s1 s' \<or> r = UDTCP_POLL_ERROR \<and> client_dropped s1 s'"
      unfolding calm_def by blast
    then show ?thesis using after [of s'] kept closed by (elim disjE) auto
  next
    case False
    from client_poll_outcome [OF poll] have out: "client_same s s' \<and> connection_kept s s'"
      using False poll after(1) [of s'] client_quiet_log [OF client_quiet_refl, of s1]
      by (auto simp: udtcp_client_poll_def p split: if_splits)
    have "\<not> run (hist s')" if bad: "r = UDTCP_POLL_ERROR \<or> r = UDTCP_POLL_SIGNAL"
    proof -
      obtain fds u where neg: "rv (os e (hist s) (C_poll fds u)) < 0"
        and h1: "hist s1 = hist s @ [Ev (C_poll fds u) (os e (hist s) (C_poll fds u))]"
        using False bad poll p
        by (auto simp: udtcp_client_poll_def poll_table_def run_syscall split: if_splits)
      then have "\<not> run (hist s1)" using calm by (simp add: calm_def)
      moreover have "\<exists>g. hist s' = hist s1 @ g"
        using False poll by (auto simp: udtcp_client_poll_def p after_log_def split: if_splits)
      ultimately show ?thesis using calm by (auto simp: calm_def)
    qed
    with kept out show ?thesis by auto
  qed
qed

subsection \<open>The whole program\<close>

lemma client_thread_account:
  assumes calm: "calm e run" and up: "client_up h us uc m 1 s" and thread: "thread_client_poll e s = Some s'"
  shows "client_rests h {#us, uc#} us uc m 1 s' \<and> tcp_socket (infos s' ! 0) = -1 \<or>
    client_up h us uc m 1 s' \<and> \<not> run (hist s')"
proof -
  let ?Q = "\<lambda>u. client_rests h {#us, uc#} us uc m 1 u \<and> tcp_socket (infos u ! 0) = -1 \<or>
    client_up h us uc m 1 u \<and> \<not> run (hist u)"
  obtain t where loop: "poll_thread_loop e (udtcp_client_poll e UDTCP_POLL_LOOP_TIMEOUT)
      (after_log e UDTCP_LOG_LEVEL_INFO s) = Some t"
    and s': "s' = after_log e UDTCP_LOG_LEVEL_INFO (t\<lparr>is_started := 0\<rparr>)"
    using thread by (auto simp: thread_client_poll_def poll_thread_def bind_eq_Some_conv)
  have "?Q t"
  proof (rule poll_thread_loop_rule [OF loop, where P = "client_up h us uc m 1"])
    show "client_up h us uc m 1 (after_log e UDTCP_LOG_LEVEL_INFO s)"
      using keepsD [OF keeps_rests(4) up] by (simp add: wp_simps)
    show "?Q u" if "client_up h us uc m 1 u" "\<not> looping e u" for u
      using that calm by (auto simp: looping_def client_up_def client_rests_def calm_def)
    show "if r = UDTCP_POLL_ERROR \<or> r = UDTCP_POLL_SIGNAL then ?Q u' else client_up h us uc m 1 u'"
      if "client_up h us uc m 1 u" "udtcp_client_poll e UDTCP_POLL_LOOP_TIMEOUT u = Some (r, u')" for u r u'
      by (rule client_poll_account [OF calm that])
  qed
  moreover have "\<exists>g. hist s' = hist t @ g" by (auto simp: s' after_log_def)
  then have "\<not> run (hist t) \<Longrightarrow> \<not> run (hist s')" using calm by (auto simp: calm_def)
  moreover have "client_rests h D us uc m 1 s'" if "client_rests h D us uc m 1 t" for D
    using keepsD [OF keeps_rests(2)] that by (simp add: s' wp_simps rests_fields)
  moreover have "infos s' = infos t" by (simp add: s')
  ultimately show ?thesis by (auto simp: client_up_def)
qed

lemma client_session_account:
  assumes calm: "calm e run" and up: "client_up h us uc m 0 s" and session: "client_session e s = Some s'"
  shows "client_rests h {#us, uc#} us uc m 0 s' \<and> tcp_socket (infos s' ! 0) = -1 \<or>
    client_up h us uc m 0 s' \<and> \<not> run (hist s')"
proof -
  have created: "rv (os e h' C_pthread_create) = 0" for h' using calm by (simp add: calm_def)
  have loop: "poll_loop s = 0" using up by (simp add: client_up_def client_rests_def)
  have "client_up h us uc m 1 (s\<lparr>poll_loop := 1, is_started := 1\<rparr>)"
    using up loop by (simp add: client_up_def rests_fields)
  from keepsD [OF keeps_rests(3) [of C_pthread_create] this, of e] loop created
  obtain s1 where start: "run_state (udtcp_start_client e) s = (0, s1)" and one: "client_up h us uc m 1 s1"
    by (auto simp: udtcp_start_client_def sys_int_def run_syscall wp_syscall)
  obtain s2 where thread: "thread_client_poll e s1 = Some s2" and s': "s' = snd (run_state (udtcp_stop_client e) s2)"
    using session by (auto simp: client_session_def start bind_eq_Some_conv)
  have stopped: "client_rests h D us uc m 0 s'" if "client_rests h D us uc m 1 s2" for D
    using that by (simp add: s' udtcp_stop_client_def udtcp_stop_def sys_do_def run_syscall client_rests_def
        client_wf_def holds_def buffer_sized_def)
  have same: "infos s' = infos s2" "\<exists>g. hist s' = hist s2 @ g"
    by (auto simp: s' udtcp_stop_client_def udtcp_stop_def sys_do_def run_syscall after_log_def)
  then have "\<not> run (hist s2) \<Longrightarrow> \<not> run (hist s')" using calm by (auto simp: calm_def)
  with client_thread_account [OF calm one thread] stopped same(1) show ?thesis
    by (auto simp: client_up_def)
qed

lemma client_loop_account:
  assumes "calm e run" "client_loop e run s = Some s'" "client_rests h {#us, uc#} us uc m 0 s"
  shows "client_rests h {#us, uc#} us uc m 0 s' \<or> client_up h us uc m 0 s'"
proof -
  have "client_rests h {#us, uc#} us uc m 0 s' \<or> client_up h us uc m 0 s'"
    if "client_loop e run s = Some s'" "calm e run"
      "client_rests h {#us, uc#} us uc m 0 s \<or> client_up h us uc m 0 s \<and> \<not> run (hist s)" for s s'
    using that
  proof (induction rule: client_loop.raw_induct [rotated, consumes 1, case_names step])
    case (step loop e run s y)
    show ?case
    proof (cases "run (hist s)")
      case False
      with step(2,4) show ?thesis by auto
    next
      case True
      with step(4) have rests: "client_rests h {#us, uc#} us uc m 0 s" by blast
      obtain s1 where tries: "client_tries e run UDTCP_CONNECT_ERROR s = Some s1"
        and rest: "(if \<not> run (hist s1) then Some s1 else Option.bind (client_session e s1) (loop e run)) = Some y"
        using True step(2) by (auto simp: bind_eq_Some_conv)
      from client_tries_account [OF step(3) tries] rests
      have s1: "client_up h us uc m 0 s1 \<or> client_rests h {#us, uc#} us uc m 0 s1 \<and> \<not> run (hist s1)" by simp
      show ?thesis
      proof (cases "run (hist s1)")
        case False
        with rest s1 show ?thesis by auto
      next
        case True
        with rest s1 obtain s2 where session: "client_session e s1 = Some s2" and again: "loop e run s2 = Some y"
          and up: "client_up h us uc m 0 s1" by (auto simp: bind_eq_Some_conv)
        from client_session_account [OF step(3) up session] show ?thesis
          by (intro step(1) [OF again step(3)]) blast
      qed
    qed
  qed
  with assms show ?thesis by blast
qed

lemma delete_client_rests:
  assumes "client_rests h D us uc m l s" "0 \<le> us" "0 \<le> uc"
    and "D + X = valid_fd (tcp_socket (infos s ! 0)) + {#us, uc#}"
  shows "wp (udtcp_delete_client e) (\<lambda>_ s'. opened (hist s') + closed h + X = opened h + closed (hist s') \<and>
    inited (hist s') + destroyed h = inited h + destroyed (hist s')) s"
proof -
  have f: "buffer_sized s" "csend s = zero_send" "send_addr s = m" "udp_server_socket (infos s ! 0) = us"
    "udp_client_socket (infos s ! 0) = uc" and h: "holds D {#m#} h s"
    using assms(1) by (simp_all add: client_rests_def)
  have "sized (csend s)" by (simp add: f(2) sized_def zero_send_def)
  from delete_client_destructs [OF f(1) this, of e]
  have "wp (udtcp_delete_client e) (\<lambda>_. destructs (D + X) {#m#}
      (buffer_block s + send_block (csend s) + {#uint (client_addr s)#}) s) s"
    using assms(2,3) by (simp add: f assms(4) valid_fd_def [of us] valid_fd_def [of uc] add_mset_commute)
  then show ?thesis
    by (rule wp_mono) (use h in \<open>simp add: holds_def destructs_def releases_def ac_simps\<close>)
qed

lemma client_main_outcome:
  assumes calm: "calm e run" and main: "client_main e run s = Some (r, s')"
  shows "(r = 0 \<or> r = 1) \<and> inited (hist s') + destroyed (hist s) = inited (hist s) + destroyed (hist s') \<and>
    (\<exists>X. size X \<le> 1 \<and> opened (hist s') + closed (hist s) + X = opened (hist s) + closed (hist s'))"
proof -
  obtain c s1 where create: "run_state (do { ini_signal e;
      udtcp_create_client e (lit ''0.0.0.0'') 0 0 0 }) s = (c, s1)" by fastforce
  have "wp (do { ini_signal e; udtcp_create_client e (lit ''0.0.0.0'') 0 0 0 })
      (\<lambda>c u. \<exists>t :: client. holds {#} {#} (hist s) t \<and> (if c = 0 then \<exists>tcp us uc m. created_client (hist t) tcp us uc m u
        else c = -1 \<and> holds {#} {#} (hist t) u)) s"
    by (rule wp_bindI [OF keepsD [OF ini_signal_holds holds_refl]], rule wp_mono [OF create_client_outcome]) blast
  from wp_runI [OF this create] obtain t :: client where t: "holds {#} {#} (hist s) t"
    and out: "if c = 0 then \<exists>tcp us uc m. created_client (hist t) tcp us uc m s1
      else c = -1 \<and> holds {#} {#} (hist t) s1" by blast
  show ?thesis
  proof (cases "c = 0")
    case False
    with out have "holds {#} {#} (hist s) s1" by (auto intro: holds_hist [OF t])
    from keeps_run_state [OF report_holds this] False out main create show ?thesis
      by (auto simp: client_main_def holds_def intro!: exI [of _ "{#}"])
  next
    case True
    with out obtain tcp us uc m where c: "created_client (hist t) tcp us uc m s1" by auto
    then have us: "0 \<le> us" "0 \<le> uc" and "client_rests (hist t) {#us, uc#} us uc m 0 s1"
      by (simp_all add: created_client_def creating_def new_client_def client_rests_def buffer_sized_def)
    then have "client_rests (hist t) {#us, uc#} us uc m 0 (set_callbacks s1)" by (simp add: rests_fields)
    moreover obtain s2 where loop: "client_loop e run (set_callbacks s1) = Some s2"
      and del: "r = 0" "s' = snd (run_state (udtcp_delete_client e) s2)"
      using main create True by (auto simp: client_main_def bind_eq_Some_conv)
    ultimately have final: "client_rests (hist t) {#us, uc#} us uc m 0 s2 \<or> client_up (hist t) us uc m 0 s2"
      by (intro client_loop_account [OF calm])
    let ?G = "\<lambda>X. size X \<le> 1 \<and> opened (hist s') + closed (hist t) + X = opened (hist t) + closed (hist s') \<and>
      inited (hist s') + destroyed (hist t) = inited (hist t) + destroyed (hist s')"
    have deleted: "?G X"
      if "client_rests (hist t) D us uc m 0 s2" "D + X = valid_fd (tcp_socket (infos s2 ! 0)) + {#us, uc#}"
        "size X \<le> 1" for D X
      using delete_client_rests [OF that(1) us that(2), of e] that(3) unfolding del(2)
      by (simp add: wp_def split: prod.splits)
    have "\<exists>X. ?G X"
      using final
    proof
      assume "client_rests (hist t) {#us, uc#} us uc m 0 s2"
      then show ?thesis
        by (intro exI [of _ "valid_fd (tcp_socket (infos s2 ! 0))"], rule deleted) (simp_all add: valid_fd_def)
    next
      assume "client_up (hist t) us uc m 0 s2"
      then have up: "0 \<le> tcp_socket (infos s2 ! 0)"
        "client_rests (hist t) {#tcp_socket (infos s2 ! 0), us, uc#} us uc m 0 s2" by (simp_all add: client_up_def)
      have "?G {#}" by (rule deleted [OF up(2)]) (use up(1) in \<open>simp_all add: valid_fd_def\<close>)
      then show ?thesis by blast
    qed
    then obtain X where X: "size X \<le> 1" "closed (hist s') + opened (hist t) = closed (hist t) + opened (hist s') + X"
      "inited (hist s') + destroyed (hist t) = inited (hist t) + destroyed (hist s') + {#}"
      by (auto simp: ac_simps)
    have b: "closed (hist t) + opened (hist s) = closed (hist s) + opened (hist t) + {#}"
      "inited (hist t) + destroyed (hist s) = inited (hist s) + destroyed (hist t) + {#}"
      using t by (simp_all add: holds_def ac_simps)
    from balance_trans [OF b(1) X(2)] balance_trans [OF b(2) X(3)] X(1) del(1) show ?thesis
      by (auto simp: ac_simps intro!: exI [of _ X])
  qed
qed

end
