(* ===== verification/Udtcp_Application_Memory.thy ===== *)
theory Udtcp_Application_Memory
  imports Udtcp_Application_Account
begin

text \<open>
  The heap over a whole run of the two programs: the structures that \<open>new_free.c\<close> allocates, the
  receive buffer and the blocks of the send structures.  When \<open>main\<close> returns everything it has
  allocated is freed, each block once.
\<close>

section \<open>Everything is freed\<close>

text \<open>Of the blocks allocated only \<open>K\<close> are left, and no undefined behaviour was met but \<open>F\<close>.\<close>

definition freed_all :: "event list \<Rightarrow> int multiset \<Rightarrow> 'a sys_scheme \<Rightarrow> bool" where
  "freed_all F K s \<longleftrightarrow> allocated (hist s) = freed (hist s) + K \<and> faults (hist s) = F"

lemma keeps_freed_all [inv_intros]:
  "(\<And>r. silent (Ev c r)) \<Longrightarrow> keeps (freed_all F K) (syscall e c)"
  "keeps (freed_all F K) (set_errno x)"
  by (auto simp: keeps_def wp_simps freed_all_def silent_def intro!: wp_syscallI)

lemma keeps_mem_errno [inv_intros]: "keeps (mem_ok F K) (set_errno x)"
  by (simp add: keeps_def wp_simps set_errno_def)

lemma wp_keeps_bind:
  assumes "keeps I op" "I s" "\<And>x t. I t \<Longrightarrow> wp (rest x) Q t"
  shows "wp (State_Monad.bind op rest) Q s"
  by (rule wp_bindI [OF keepsD [OF assms(1,2)]]) (rule assms(3))

lemma freed_by_destructor:
  assumes "mem_ok F (B + K) s" "destructs D M (buffer_block s + B) s s'"
  shows "freed_all F K s'"
  using assms by (simp add: mem_ok_def heap_balanced_def destructs_def freed_all_def ac_simps)

section \<open>The server's structure\<close>

definition server_plain :: "u64 \<Rightarrow> server \<Rightarrow> bool" where
  "server_plain b s \<longleftrightarrow> buffer_sized s \<and> sends s = replicate UDTCP_POLL_TABLE_SIZE zero_send \<and> sends_base s = b"

definition server_alloc :: "event list \<Rightarrow> int multiset \<Rightarrow> u64 \<Rightarrow> server \<Rightarrow> bool" where
  "server_alloc F K b s \<longleftrightarrow> server_plain b s \<and> mem_ok F ({#uint (b - 15856)#} + K) s"

lemma keeps_server_plain [inv_intros]:
  "keeps (server_plain b) (syscall e c)" "keeps (server_plain b) (emit ev)"
  "keeps (server_plain b) (udtcp_log e l)" "keeps (server_plain b) (call_back f cb i d)"
  "keeps (server_plain b) (set_infos i g)"
  by (auto simp: keeps_def wp_simps server_plain_def buffer_sized_def after_log_def after_cb_def
      intro!: wp_syscallI)

lemma buffer_ops_plain:
  "keeps (server_plain b) (store_buffer off d)" "keeps (server_plain b) (ensure_buffer e n)"
  by (auto simp: keeps_def store_buffer_def ensure_buffer_def udtcp_new_buffer_def udtcp_free_buffer_def
      wp_simps wp_calls wp_syscall server_plain_def buffer_sized_def after_log_def split: option.splits)

lemma delete_server_heap:
  assumes "server_alloc F K b s"
  shows "wp (udtcp_delete_server e) (\<lambda>_. freed_all F K) s"
proof -
  have p: "buffer_sized s" "sends s = replicate UDTCP_POLL_TABLE_SIZE zero_send" "server_addr s = b - 15856"
    and m: "mem_ok F ({#uint (b - 15856)#} + K) s"
    using assms by (simp_all add: server_alloc_def server_plain_def server_addr_def)
  have "\<forall>k \<in> {2..<UDTCP_POLL_TABLE_SIZE}. sized (sends s ! k)"
    by (simp add: p(2) sized_def zero_send_def)
  note d = delete_server_destructs [OF p(1) this, of e]
  have "map (\<lambda>k. send_block (sends s ! k)) [2..<UDTCP_POLL_TABLE_SIZE] =
      map (\<lambda>_. {#}) [2..<UDTCP_POLL_TABLE_SIZE]"
    by (rule map_cong) (simp_all add: p(2) send_block_def zero_send_def)
  then have blocks: "server_blocks s = buffer_block s + {#uint (b - 15856)#}"
    by (simp add: server_blocks_def p(3))
  from d show ?thesis
    unfolding blocks by (rule wp_mono) (rule freed_by_destructor [OF m])
qed

text \<open>While it is constructed the structure has no receive buffer.\<close>

definition server_born :: "event list \<Rightarrow> int multiset \<Rightarrow> u64 \<Rightarrow> server \<Rightarrow> bool" where
  "server_born F K b s \<longleftrightarrow> server_alloc F K b s \<and> buffer_data s = None"

lemma keeps_no_buffer:
  "keeps (\<lambda>s. buffer_data s = None) (syscall e c)" "keeps (\<lambda>s. buffer_data s = None) (udtcp_log e l)"
  "keeps (\<lambda>s. buffer_data s = None) (set_infos i g)"
  by (auto simp: keeps_def wp_simps intro!: wp_syscallI)

lemma keeps_server_born [inv_intros]:
  "(\<And>r. silent (Ev c r)) \<Longrightarrow> keeps (server_born F K b) (syscall e c)"
  "keeps (server_born F K b) (udtcp_log e l)" "keeps (server_born F K b) (set_infos i g)"
  "keeps (server_born F K b) (set_poll_fd i fd)"
  unfolding server_born_def server_alloc_def
  by (intro keeps_conj keeps_server_plain keeps_mem_ok keeps_no_buffer; assumption)+
    (auto simp: set_poll_fd_def keeps_def wp_simps server_plain_def buffer_sized_def)

interpretation server_heap: staged "udtcp_delete_server e" "server_born F K b" "freed_all F K" for e F K b
  by unfold_locales (auto simp: server_born_def intro: delete_server_heap)

interpretation server_block: staged "udtcp_free_server e" "server_born F K b" "freed_all F K" for e F K b
proof unfold_locales
  fix s assume "server_born F K b s"
  then show "wp (udtcp_free_server e) (\<lambda>_. freed_all F K) s"
    by (simp add: udtcp_free_server_def wp_simps wp_calls wp_syscall server_born_def server_alloc_def
        server_plain_def mem_ok_def heap_balanced_def freed_all_def server_addr_def buffer_block_def)
qed

lemma destroy_mutexes_born [inv_intros]: "keeps (server_born F K b) (destroy_mutexes e ks)"
  by (induction ks) (auto simp: sys_do_def silent_def intro!: inv_intros)

lemma init_mutexes_born:
  "server_born F K b s \<Longrightarrow> wp (init_mutexes e i n) (stage (server_born F K b) (freed_all F K)) s"
proof (induction n arbitrary: i s)
  case (Suc n)
  have init: "keeps (server_born F K b) (sys_int e (C_mutex_init a))" for a
    unfolding sys_int_def by (intro inv_intros) (simp add: silent_def)
  show ?case
    unfolding init_mutexes.simps
    by (rule wp_bind_gets, rule wp_keeps_bind [OF init Suc.prems], rule wp_ifI,
        rule wp_keeps_bind [OF destroy_mutexes_born], assumption, erule server_block.stage_fails, erule Suc.IH)
qed (simp add: server_block.stage_done)

lemma open_sockets_born:
  assumes "server_born F K b s"
  shows "wp (server_open_sockets e) (stage (server_born F K b) (freed_all F K)) s"
proof -
  have calls: "keeps (server_born F K b) (sys_int e (C_socket k))" "keeps (server_born F K b) (sys_do e (C_close fd))" for k fd
    unfolding sys_int_def sys_do_def by (intro inv_intros; simp add: silent_def)+
  show ?thesis
    unfolding server_open_sockets_def
    by (rule assms | assumption | rule wp_ifI server_block.stage_fails server_block.stage_done
        | rule wp_keeps_bind, rule calls destroy_mutexes_born keeps_server_born(3,4))+
qed

lemma bind_named_born [inv_intros]: "keeps (server_born F K b) (bind_named e fd a port upd)"
  unfolding bind_named_def sys_int_def by (intro inv_intros; simp add: silent_def)

lemma add_option_born [inv_intros]: "keeps (server_born F K b) (udtcp_socket_add_option e fd opt)"
  unfolding udtcp_socket_add_option_def sys_int_def by (intro inv_intros; simp add: silent_def)

lemma server_stages_born:
  assumes "server_born F K b s"
  shows "wp (server_bind e a p1 p2 p3) (stage (server_born F K b) (freed_all F K)) s"
    "wp (server_listen e) (stage (server_born F K b) (freed_all F K)) s"
proof -
  have listen: "keeps (server_born F K b) (sys_int e (C_listen fd n))" for fd n
    unfolding sys_int_def by (intro inv_intros; simp add: silent_def)
  show "wp (server_bind e a p1 p2 p3) (stage (server_born F K b) (freed_all F K)) s"
    "wp (server_listen e) (stage (server_born F K b) (freed_all F K)) s"
    unfolding server_bind_def server_listen_def
    by (rule wp_bind_gets, intro server_heap.stage_step server_heap.stage_last server_heap.stage_done
        assms inv_intros listen; assumption)+
qed

lemma server_finish_born:
  assumes "names_fit e" "server_born F K b s"
  shows "wp (server_finish e) (\<lambda>_. server_born F K b) s"
proof -
  have string: "keeps (server_born F K b) (udtcp_set_string_infos e x a)" for x a
    unfolding server_born_def server_alloc_def
  proof (intro keeps_conj set_string_mem_ok [OF assms(1)])
    show "keeps (server_plain b) (udtcp_set_string_infos e x a)"
      "keeps (\<lambda>s. buffer_data s = None) (udtcp_set_string_infos e x a)"
      unfolding udtcp_set_string_infos_def copy_string_def
      by (intro inv_intros keeps_no_buffer; simp add: keeps_def wp_simps)+
  qed
  have count: "keeps (server_born F K b) (modify (\<lambda>s. s\<lparr>count_id := 1\<rparr>))"
    by (auto simp: keeps_def wp_simps server_born_def server_alloc_def server_plain_def buffer_sized_def)
  show ?thesis
    unfolding server_finish_def by (rule keepsD [where I = "server_born F K b", OF _ assms(2)]) (intro inv_intros string count)
qed

lemma clear_server_born:
  "freed_all F (add_mset (pointer p) K) t \<Longrightarrow> server_born F K (word_of_int p + 15856) (clear_server p t)"
  by (simp add: freed_all_def server_born_def server_alloc_def server_plain_def clear_server_def
      buffer_sized_def mem_ok_def buffer_ok_def heap_balanced_def buffer_block_def pointer_def)

lemma create_server_heap:
  assumes "names_fit e" "freed_all F K s"
  shows "wp (udtcp_create_server e host p1 p2 p3) (\<lambda>r s'. if r = 0 then \<exists>b. server_born F K b s'
    else r = -1 \<and> freed_all F K s') s"
proof -
  define Q where "Q = (\<lambda>r s'. if r = (0 :: int) then \<exists>b. server_born F K b s' else r = -1 \<and> freed_all F K s')"
  have minus: "Q (-1) t" if "freed_all F K t" for t using that by (simp add: Q_def)
  have bad: "wp (ret (-1)) Q t" if "freed_all F K t" for t using that by (simp add: wp_return Q_def)
  have finish: "wp (do { server_finish e; ret 0 }) Q t" if "server_born F K b t" for t b
    by (rule wp_bindI [OF server_finish_born [OF assms(1) that]]) (auto simp: wp_return Q_def)
  have rest: "wp (do {
     ok \<leftarrow> init_mutexes e i n;
     if \<not> ok then ret (-1) else do {
     ok \<leftarrow> server_open_sockets e;
     if \<not> ok then ret (-1) else do {
     ok \<leftarrow> server_bind e a p1 p2 p3;
     if \<not> ok then ret (-1) else do {
     ok \<leftarrow> server_listen e;
     if \<not> ok then ret (-1) else do {
       server_finish e;
       ret 0 } } } } }) Q t" if "server_born F K b t" for t b i n a
    by (rule that minus | assumption
        | rule wp_stage_bind, rule init_mutexes_born open_sockets_born server_stages_born | rule finish)+
  have host: "keeps (freed_all F K) (syscall e (C_gethostbyname host) :: (server, reply) state)"
    by (intro inv_intros) (simp add: silent_def)
  have alloc: "wp (udtcp_new_server e) (\<lambda>p t. if p = 0 then freed_all F K t
      else freed_all F (add_mset (pointer p) K) t) t" if "freed_all F K t" for t :: server
    using that by (simp add: udtcp_new_server_def wp_sys_int wp_syscall freed_all_def)
  have no_host: "wp (do { set_errno EHOSTUNREACH; ret (-1) }) Q t" if "freed_all F K t" for t
    by (rule wp_keeps_bind [OF keeps_freed_all(2) that]) (rule bad)
  have "wp (udtcp_create_server e host p1 p2 p3) Q s"
    unfolding udtcp_create_server_def
  proof (rule wp_keeps_bind [OF host assms(2)], rule wp_ifI, erule no_host, rule wp_bindI [OF alloc], assumption)
    fix x p and t :: server assume t: "if p = 0 then freed_all F K t else freed_all F (add_mset (pointer p) K) t"
    show "wp (if p = 0 then ret (-1) else do {
       modify (clear_server p);
       ok \<leftarrow> init_mutexes e 2 (UDTCP_POLL_TABLE_SIZE - 2);
       if \<not> ok then ret (-1) else do {
       ok \<leftarrow> server_open_sockets e;
       if \<not> ok then ret (-1) else do {
       ok \<leftarrow> server_bind e (host_addr_of x) p1 p2 p3;
       if \<not> ok then ret (-1) else do {
       ok \<leftarrow> server_listen e;
       if \<not> ok then ret (-1) else do {
         server_finish e;
         ret 0 } } } } }) Q t"
    proof (cases "p = 0")
      case False
      with t have "server_born F K (word_of_int p + 15856) (clear_server p t)"
        by (simp add: clear_server_born)
      from rest [OF this] False show ?thesis by (simp add: wp_bind wp_modify)
    qed (use t bad in simp)
  qed
  then show ?thesis by (simp add: Q_def)
qed

section \<open>The server program\<close>

text \<open>What closing the gaps of the table can add to the faults.\<close>

definition gap_faults :: "event list \<Rightarrow> event list \<Rightarrow> bool" where
  "gap_faults F F' \<longleftrightarrow> (\<exists>fs. F' = F @ fs \<and> set fs \<subseteq> {Fault MemcpyOverlap, Fault ArrayOverrun})"

lemma gap_faults_trans: "gap_faults F F' \<Longrightarrow> gap_faults F' F'' \<Longrightarrow> gap_faults F F''"
  by (auto simp: gap_faults_def)

lemma gap_faults_refl [simp]: "gap_faults F F"
  by (simp add: gap_faults_def)

definition server_runs :: "event list \<Rightarrow> int multiset \<Rightarrow> u64 \<Rightarrow> server \<Rightarrow> bool" where
  "server_runs F K b s \<longleftrightarrow> server_wf s \<and> (\<exists>F'. gap_faults F F' \<and> server_alloc F' K b s)"

lemmas server_ops_plain = server_ops_keep [of "server_plain b" for b, OF keeps_server_plain buffer_ops_plain]

interpretation scan_plain: scan_keeps e "server_plain b" for e b
  by unfold_locales (rule server_ops_plain keeps_server_plain(3); simp add: server_plain_def buffer_sized_def)+

lemma server_poll_plain:
  assumes "udtcp_server_poll e t s = Some (r, s')" "server_plain b s"
  shows "server_plain b s'"
proof -
  obtain p s1 where p: "run_state (poll_table e t) s = (p, s1)" by fastforce
  note f = poll_table_frame [OF p]
  have "server_plain b s1"
    using assms(2) f(9,10) server_more [OF f(3)] by (simp add: server_plain_def buffer_sized_def)
  moreover have "server_plain b (compact_table 2 u) = server_plain b u" for u
    using compact_table_hist [of 2 u] by (auto simp: server_plain_def buffer_sized_def)
  moreover have "server_plain b (after_log e l u)" if "server_plain b u" for l u
    using keepsD [OF keeps_server_plain(3) that] by (simp add: wp_simps)
  ultimately show ?thesis by (intro scan_plain.poll_keeps [OF assms(1) _ p]) simp_all
qed

lemma server_poll_runs:
  assumes "polite e" "server_runs F K b s" "udtcp_server_poll e t s = Some (r, s')"
  shows "server_runs F K b s'"
proof -
  from assms(2) obtain F' where wf: "server_wf s" and F: "gap_faults F F'"
    and a: "server_plain b s" "mem_ok F' ({#uint (b - 15856)#} + K) s"
    by (auto simp: server_runs_def server_alloc_def)
  have "buffer_ok s" "heap_balanced ({#uint (b - 15856)#} + K) s" "faults (hist s) = F'"
    using a(2) by (simp_all add: mem_ok_def)
  from server_poll_safe [OF assms(1) wf this(1,2) assms(3)] this(3)
  have "mem_ok (faults (hist s')) ({#uint (b - 15856)#} + K) s'" "gap_faults F' (faults (hist s'))"
    by (auto simp: mem_ok_def gap_faults_def)
  with server_poll_wf [OF wf assms(3)] server_poll_plain [OF assms(3) a(1)] gap_faults_trans [OF F]
  show ?thesis by (auto simp: server_runs_def server_alloc_def)
qed

lemma runs_fields:
  "server_runs F K b (s\<lparr>is_started := x\<rparr>) = server_runs F K b s"
  "server_runs F K b (s\<lparr>poll_loop := y\<rparr>) = server_runs F K b s"
  "server_runs F K b (set_callbacks s) = server_runs F K b s"
  by (cases "buffer_data s"; simp add: server_runs_def server_wf_def server_alloc_def server_plain_def
      buffer_sized_def mem_ok_def buffer_ok_def heap_balanced_def buffer_block_def set_callbacks_def)+

lemma keeps_runs [inv_intros]:
  "(\<And>r. silent (Ev c r)) \<Longrightarrow> keeps (server_runs F K b) (syscall e c)"
  "keeps (server_runs F K b) (udtcp_log e l)"
proof -
  have lift: "keeps (server_runs F K b) m" if "keeps server_wf m" "\<And>F'. keeps (server_alloc F' K b) m"
    for m :: "(server, 'r) state"
    unfolding keeps_def server_runs_def wp_run
    using keeps_run [OF that(1)] keeps_run [OF that(2)] by blast
  show "keeps (server_runs F K b) (syscall e c)" if "\<And>r. silent (Ev c r)"
    by (intro lift keeps_wf_server, unfold server_alloc_def)
      (intro keeps_conj keeps_server_plain keeps_mem_ok that)
  show "keeps (server_runs F K b) (udtcp_log e l)"
    by (intro lift keeps_wf_server, unfold server_alloc_def)
      (intro keeps_conj keeps_server_plain keeps_mem_ok)
qed

interpretation server_thread_heap: polled e "udtcp_server_poll e t" "\<lambda>s. polite e \<and> server_runs F K b s" for e t F K b
proof unfold_locales
  show "polite e \<and> server_runs F K b (after_log e UDTCP_LOG_LEVEL_INFO s)" if "polite e \<and> server_runs F K b s" for s
    using keepsD [OF keeps_runs(2)] that by (simp add: wp_simps)
qed (auto simp: runs_fields intro: server_poll_runs)

lemma server_session_runs:
  assumes "polite e" "server_runs F K b s" "server_session e s = Some s'"
  shows "server_runs F K b s'"
proof (rule server_session_inv [where I = "server_runs F K b", OF _ _ _ assms(2,3)])
  have field: "keeps (server_runs F K b) (modify (\<lambda>s. s\<lparr>poll_loop := x\<rparr>))"
    "keeps (server_runs F K b) (modify (\<lambda>s. s\<lparr>is_started := x\<rparr>))" for x
    by (simp_all add: keeps_def wp_simps runs_fields)
  show "keeps (server_runs F K b) (udtcp_start_server e)" "keeps (server_runs F K b) (udtcp_stop_server e)"
    unfolding udtcp_start_server_def udtcp_stop_server_def udtcp_stop_def sys_int_def sys_do_def
    by (intro inv_intros field; simp add: silent_def)+
  show "server_runs F K b v" if "server_runs F K b u" "thread_server_poll e u = Some v" for u v
    using server_thread_heap.thread_inv that assms(1) unfolding thread_server_poll_def by blast
qed

lemma app_calls_freed:
  "keeps (freed_all F K) (ini_signal e)" "keeps (freed_all F K) (report e what)"
  unfolding ini_signal_def report_def sys_do_def by (intro inv_intros; simp add: silent_def)+

lemma server_main_heap:
  assumes "polite e" "freed_all F K s" "server_main e s = Some (r, s')"
  shows "\<exists>F'. gap_faults F F' \<and> freed_all F' K s'"
proof -
  have names: "names_fit e" using assms(1) by (simp add: polite_def)
  obtain c s1 where create: "run_state (do { ini_signal e;
      udtcp_create_server e (lit ''0.0.0.0'') 4242 4242 4243 }) s = (c, s1)" by fastforce
  have "wp (do { ini_signal e; udtcp_create_server e (lit ''0.0.0.0'') 4242 4242 4243 })
      (\<lambda>c u. (if c = 0 then \<exists>b. server_born F K b u else c = -1 \<and> freed_all F K u) \<and> (c \<noteq> -1 \<longrightarrow> server_wf u)) s"
  proof (rule wp_keeps_bind [OF app_calls_freed(1) assms(2)])
    fix t :: server assume t: "freed_all F K t"
    show "wp (udtcp_create_server e (lit ''0.0.0.0'') 4242 4242 4243)
        (\<lambda>c u. (if c = 0 then \<exists>b. server_born F K b u else c = -1 \<and> freed_all F K u) \<and> (c \<noteq> -1 \<longrightarrow> server_wf u)) t"
      unfolding wp_conj
      by (rule conjI [OF create_server_heap [OF names t]], rule wp_mono [OF create_server_outcome])
        (auto simp: create_outcome_def server_building_def new_server_def split: if_splits)
  qed
  from wp_runI [OF this create] have out: "if c = 0 then \<exists>b. server_born F K b s1 else c = -1 \<and> freed_all F K s1"
    and wf: "c \<noteq> -1 \<Longrightarrow> server_wf s1" by simp_all
  show ?thesis
  proof (cases "c = 0")
    case False
    with out assms(3) create keeps_run_state [OF app_calls_freed(2), of F K s1 e] show ?thesis
      by (auto simp: server_main_def intro!: exI [of _ F] split: if_splits)
  next
    case True
    with out obtain b where "server_born F K b s1" by auto
    with wf True have "server_runs F K b s1"
      by (auto simp: server_born_def server_runs_def intro!: exI [of _ F])
    then have "server_runs F K b (set_callbacks s1)" by (simp add: runs_fields)
    moreover obtain s2 where "server_session e (set_callbacks s1) = Some s2"
      and s': "s' = snd (run_state (udtcp_delete_server e) s2)"
      using assms(3) create True by (auto simp: server_main_def bind_eq_Some_conv)
    ultimately have "server_runs F K b s2" using server_session_runs [OF assms(1)] by blast
    then obtain F' where "gap_faults F F'" "server_alloc F' K b s2" by (auto simp: server_runs_def)
    with delete_server_heap [of F' K b s2 e] show ?thesis
      unfolding s' by (auto simp: wp_def split: prod.splits)
  qed
qed

section \<open>The client's structure\<close>

definition client_plain :: "udtcp_send \<Rightarrow> u64 \<Rightarrow> client \<Rightarrow> bool" where
  "client_plain sd m s \<longleftrightarrow> buffer_sized s \<and> csend s = sd \<and> send_addr s = m"

definition client_alloc :: "udtcp_send \<Rightarrow> event list \<Rightarrow> int multiset \<Rightarrow> u64 \<Rightarrow> client \<Rightarrow> bool" where
  "client_alloc sd F K m s \<longleftrightarrow> client_plain sd m s \<and> mem_ok F (send_block sd + {#uint (m - 736)#} + K) s"

definition client_born :: "event list \<Rightarrow> int multiset \<Rightarrow> u64 \<Rightarrow> client \<Rightarrow> bool" where
  "client_born F K m s \<longleftrightarrow> client_alloc zero_send F K m s \<and> buffer_data s = None"

lemma keeps_client_plain [inv_intros]:
  "keeps (client_plain sd m) (syscall e c)" "keeps (client_plain sd m) (emit ev)"
  "keeps (client_plain sd m) (udtcp_log e l)" "keeps (client_plain sd m) (call_back f cb i d)"
  "keeps (client_plain sd m) (set_infos i g)" "keeps (client_plain sd m) (set_errno x)"
  by (auto simp: keeps_def wp_simps client_plain_def buffer_sized_def after_log_def after_cb_def
      intro!: wp_syscallI)

lemma client_buffer_plain:
  "keeps (client_plain sd m) (store_buffer off d)" "keeps (client_plain sd m) (ensure_buffer e n)"
  by (auto simp: keeps_def store_buffer_def ensure_buffer_def udtcp_new_buffer_def udtcp_free_buffer_def
      wp_simps wp_calls wp_syscall client_plain_def buffer_sized_def after_log_def split: option.splits)

lemma keeps_client_alloc [inv_intros]:
  "\<not> heap_call c \<Longrightarrow> keeps (client_alloc sd F K m) (syscall e c)"
  "keeps (client_alloc sd F K m) (udtcp_log e l)" "keeps (client_alloc sd F K m) (call_back f cb i d)"
  "keeps (client_alloc sd F K m) (set_infos i g)" "keeps (client_alloc sd F K m) (set_errno x)"
  unfolding client_alloc_def
  by (intro keeps_conj keeps_client_plain keeps_mem_ok keeps_mem_errno silent_call; assumption)+

lemma keeps_client_born [inv_intros]:
  "\<not> heap_call c \<Longrightarrow> keeps (client_born F K m) (syscall e c)"
  "keeps (client_born F K m) (set_infos i g)"
  unfolding client_born_def by (intro keeps_conj keeps_client_alloc keeps_no_buffer; assumption)+

lemma delete_client_heap:
  assumes "client_alloc sd F K m s" "sized sd"
  shows "wp (udtcp_delete_client e) (\<lambda>_. freed_all F K) s"
proof -
  have p: "buffer_sized s" "csend s = sd" "client_addr s = m - 736"
    and mem: "mem_ok F (send_block sd + {#uint (m - 736)#} + K) s"
    using assms by (simp_all add: client_alloc_def client_plain_def client_addr_def)
  note d = delete_client_destructs [OF p(1), unfolded p(2), OF assms(2), of e]
  have blocks: "buffer_block s + send_block sd + {#uint (client_addr s)#} =
      buffer_block s + (send_block sd + {#uint (m - 736)#})" by (simp add: p(3))
  from d show ?thesis
    unfolding blocks by (rule wp_mono) (rule freed_by_destructor [OF mem])
qed

lemma zero_send_empty: "sized zero_send" "send_block zero_send = {#}"
  by (simp_all add: sized_def send_block_def zero_send_def)

interpretation client_heap: staged "udtcp_delete_client e" "client_born F K m" "freed_all F K" for e F K m
  by unfold_locales (auto simp: client_born_def zero_send_empty intro: delete_client_heap)

interpretation client_block: staged "udtcp_free_client e" "client_born F K m" "freed_all F K" for e F K m
proof unfold_locales
  fix s assume "client_born F K m s"
  then show "wp (udtcp_free_client e) (\<lambda>_. freed_all F K) s"
    by (simp add: udtcp_free_client_def wp_simps wp_calls wp_syscall client_born_def client_alloc_def
        client_plain_def mem_ok_def heap_balanced_def freed_all_def client_addr_def buffer_block_def zero_send_empty)
qed

lemma client_open_sockets_born:
  assumes "client_born F K m s"
  shows "wp (client_open_sockets e) (stage (client_born F K m) (freed_all F K)) s"
proof -
  have calls: "keeps (client_born F K m) (sys_int e (C_socket k))" "keeps (client_born F K m) (sys_do e (C_close fd))"
    "keeps (client_born F K m) (sys_do e (C_mutex_destroy a))" for k fd a
    unfolding sys_int_def sys_do_def by (intro inv_intros; simp)+
  show ?thesis
    unfolding client_open_sockets_def
    by (rule wp_bind_gets, (rule assms | assumption
        | rule wp_ifI client_block.stage_fails client_block.stage_done
        | rule wp_keeps_bind, rule calls keeps_client_born(2))+)
qed

lemma client_parts_born [inv_intros]:
  "keeps (client_born F K m) (bind_named e fd a port upd)" "keeps (client_born F K m) (setsockopts e so fds)"
  "keeps (client_born F K m) (udtcp_socket_add_option e fd opt)"
proof -
  show "keeps (client_born F K m) (setsockopts e so fds)"
    by (induction fds) (simp_all add: sys_int_def inv_intros)
qed (unfold bind_named_def udtcp_socket_add_option_def sys_int_def, (intro inv_intros; simp)+)

lemma client_stages_born:
  assumes "client_born F K m s"
  shows "wp (client_reuse e) (stage (client_born F K m) (freed_all F K)) s"
    "wp (client_bind e a p1 p2 p3) (stage (client_born F K m) (freed_all F K)) s"
    "wp (client_nonblock e) (stage (client_born F K m) (freed_all F K)) s"
  unfolding client_reuse_def client_bind_def client_nonblock_def
  by (rule wp_bind_gets, intro client_heap.stage_step client_heap.stage_last client_heap.stage_done
      assms inv_intros; assumption)+

text \<open>The name that the resolver returns for a host fits the member \<open>hostname\<close>.\<close>

definition host_names_fit :: "env \<Rightarrow> bool" where
  "host_names_fit e \<longleftrightarrow> (\<forall>h a. length (c_string (h_name (os e h (C_gethostbyname a)))) \<le> 256)"

lemma client_finish_born:
  assumes "client_born F K m s" "length (c_string name) \<le> 256"
  shows "wp (client_finish e name) (\<lambda>_. client_born F K m) s"
proof -
  have fields: "client_born F K m (t\<lparr>poll_fds := a, poll_nfds := n\<rparr>)"
    "client_born F K m (t\<lparr>connect_callback := False, disconnect_callback := False,
       receive_tcp_callback := False, receive_udp_callback := False, log_callback := False,
       poll_loop := 0, buffer_data := None, buffer_size := 0\<rparr>)" if "client_born F K m t" for t a n
    using that by (auto simp: client_born_def client_alloc_def client_plain_def buffer_sized_def mem_ok_def
        buffer_ok_def heap_balanced_def buffer_block_def)
  have copy: "keeps (client_born F K m) (copy_string n src f)" if "length src \<le> n" for n src f
    using that by (simp add: copy_string_def inv_intros)
  have "length (inet_ntoa w) \<le> 16" for w using length_inet_ntoa [of w] by simp
  note copies = copy [OF assms(2)] copy [OF this]
  have close: "keeps (client_born F K m) (sys_do e (C_close fd))" for fd
    unfolding sys_do_def by (intro inv_intros) simp
  show ?thesis
    unfolding client_finish_def
    by (rule keepsD [where I = "client_born F K m", OF _ assms(1)])
      (intro inv_intros copies close keeps_modify fields; assumption)
qed

lemma clear_client_born:
  "freed_all F (add_mset (pointer p) K) t \<Longrightarrow> client_born F K (word_of_int p + 736) (clear_client p t)"
  by (simp add: freed_all_def client_born_def client_alloc_def client_plain_def clear_client_def
      zero_send_empty buffer_sized_def mem_ok_def buffer_ok_def heap_balanced_def buffer_block_def pointer_def)

lemma create_client_heap:
  assumes "host_names_fit e" "freed_all F K s"
  shows "wp (udtcp_create_client e host p1 p2 p3) (\<lambda>r s'. if r = 0 then \<exists>m. client_born F K m s'
    else r = -1 \<and> freed_all F K s') s"
proof -
  define Q where "Q = (\<lambda>r s'. if r = (0 :: int) then \<exists>m. client_born F K m s' else r = -1 \<and> freed_all F K s')"
  have minus: "Q (-1) t" if "freed_all F K t" for t using that by (simp add: Q_def)
  have bad: "wp (ret (-1)) Q t" if "freed_all F K t" for t using that by (simp add: wp_return Q_def)
  have finish: "wp (do { client_finish e name; ret 0 }) Q t"
    if "length (c_string name) \<le> 256" "client_born F K m t" for t m name
    by (rule wp_bindI [OF client_finish_born [OF that(2,1)]]) (auto simp: wp_return Q_def)
  have init: "keeps (client_born F K m) (sys_int e (C_mutex_init a))" for m a
    unfolding sys_int_def by (intro inv_intros) simp
  have free: "wp (do { udtcp_free_client e; ret (-1) }) Q t" if "client_born F K m t" for t m
    by (rule wp_bindI [OF client_block.delete_building [OF that]]) (rule bad)
  have rest: "wp (do {
     m \<leftarrow> gets send_addr;
     r \<leftarrow> sys_int e (C_mutex_init m);
     if r \<noteq> 0 then do { udtcp_free_client e; ret (-1) } else do {
     ok \<leftarrow> client_open_sockets e;
     if \<not> ok then ret (-1) else do {
     ok \<leftarrow> client_reuse e;
     if \<not> ok then ret (-1) else do {
     ok \<leftarrow> client_bind e a p1 p2 p3;
     if \<not> ok then ret (-1) else do {
     ok \<leftarrow> client_nonblock e;
     if \<not> ok then ret (-1) else do {
       client_finish e name;
       ret 0 } } } } } }) Q t" if "client_born F K m t" "length (c_string name) \<le> 256" for t m name a
    by (rule wp_bind_gets, rule wp_keeps_bind [OF init that(1)], rule wp_ifI, erule free,
        (rule that(2) minus | assumption
        | rule wp_stage_bind, rule client_open_sockets_born client_stages_born | rule finish)+)
  have host: "wp (syscall e (C_gethostbyname host)) (\<lambda>r t. freed_all F K t \<and> length (c_string (h_name r)) \<le> 256) s"
    using assms by (auto simp: wp_syscall freed_all_def host_names_fit_def)
  have alloc: "wp (udtcp_new_client e) (\<lambda>p t. if p = 0 then freed_all F K t
      else freed_all F (add_mset (pointer p) K) t) t" if "freed_all F K t" for t :: client
    using that by (simp add: udtcp_new_client_def wp_sys_int wp_syscall freed_all_def)
  have no_host: "wp (do { set_errno EHOSTUNREACH; ret (-1) }) Q t" if "freed_all F K t" for t
    by (rule wp_keeps_bind [OF keeps_freed_all(2) that]) (rule bad)
  have start: "wp (if p = 0 then ret (-1) else do { modify (clear_client p); more }) Q t"
    if t: "if p = 0 then freed_all F K t else freed_all F (add_mset (pointer p) K) t"
      and more: "\<And>u m. client_born F K m u \<Longrightarrow> wp more Q u" for p t more
  proof (cases "p = 0")
    case False
    with t have "client_born F K (word_of_int p + 736) (clear_client p t)"
      by (simp add: clear_client_born)
    from more [OF this] False show ?thesis by (simp add: wp_bind wp_modify)
  qed (use t bad in simp)
  have "wp (udtcp_create_client e host p1 p2 p3) Q s"
    unfolding udtcp_create_client_def
    by (rule wp_bindI [OF host], rule wp_ifI, erule no_host [OF conjunct1], rule wp_bindI [OF alloc],
        erule conjunct1, rule start, assumption, erule rest, erule conjunct2)
  then show ?thesis by (simp add: Q_def)
qed

section \<open>The client program\<close>

lemma client_ops_plain:
  "keeps (client_plain sd m) (client_receive_tcp e)" "keeps (client_plain sd m) (client_receive_udp e)"
  "keeps (client_plain sd m) (client_disconnect e)"
  by (rule client_ops_keep; rule client_buffer_plain inv_intros)+

interpretation client_plain: client_keeps e "client_plain sd m" for e sd m
  by unfold_locales (rule client_ops_plain keeps_client_plain(3))+

lemma client_poll_heap:
  assumes "udp_sizes_fit e" "client_alloc sd F K m s" "udtcp_client_poll e t s = Some (r, s')"
  shows "client_alloc sd F K m s'"
proof -
  from assms(2) have p: "client_plain sd m s" and mem: "mem_ok F (send_block sd + {#uint (m - 736)#} + K) s"
    by (simp_all add: client_alloc_def)
  obtain q s1 where q: "run_state (poll_table e t) s = (q, s1)" by fastforce
  then have "client_plain sd m s1"
    using p by (auto simp: poll_table_def run_syscall client_plain_def buffer_sized_def split: if_splits)
  from client_plain.poll_keeps [OF assms(3) this q] client_poll_safe [OF assms(1) mem assms(3)]
  show ?thesis by (simp add: client_alloc_def)
qed

lemma connect_heap:
  assumes "handshake_fits e" "names_fit e"
  shows "keeps (client_alloc sd F K m) (udtcp_connect_client e host port t)"
proof (rule connect_keep)
  show "keeps (client_alloc sd F K m) (udtcp_set_string_infos e x a)" for x a
    unfolding client_alloc_def
    by (intro keeps_conj set_string_mem_ok [OF assms(2)])
      (unfold udtcp_set_string_infos_def copy_string_def, intro inv_intros)
  show "keeps (client_alloc sd F K m) (recv_infos e fd i)" for fd i
    unfolding client_alloc_def
    by (intro keeps_conj recv_infos_mem_ok [OF assms(1)])
      (unfold recv_infos_def sys_recv_def Let_def, intro inv_intros)
qed (rule keeps_client_alloc, assumption?)+

lemma alloc_fields:
  "client_alloc sd F K m (s\<lparr>is_started := x\<rparr>) = client_alloc sd F K m s"
  "client_alloc sd F K m (s\<lparr>poll_loop := y\<rparr>) = client_alloc sd F K m s"
  "client_alloc sd F K m (set_callbacks s) = client_alloc sd F K m s"
  by (cases "buffer_data s"; simp add: client_alloc_def client_plain_def buffer_sized_def mem_ok_def
      buffer_ok_def heap_balanced_def buffer_block_def set_callbacks_def)+

interpretation client_thread_heap: polled e "udtcp_client_poll e t" "\<lambda>s. udp_sizes_fit e \<and> client_alloc sd F K m s"
  for e t sd F K m
proof unfold_locales
  show "udp_sizes_fit e \<and> client_alloc sd F K m (after_log e UDTCP_LOG_LEVEL_INFO s)"
    if "udp_sizes_fit e \<and> client_alloc sd F K m s" for s
    using keepsD [OF keeps_client_alloc(2)] that by (simp add: wp_simps)
qed (auto simp: alloc_fields intro: client_poll_heap)

lemma client_session_heap:
  assumes "udp_sizes_fit e" "client_alloc sd F K m s" "client_session e s = Some s'"
  shows "client_alloc sd F K m s'"
proof (rule client_session_inv [where I = "client_alloc sd F K m", OF _ _ _ assms(2,3)])
  show "keeps (client_alloc sd F K m) (udtcp_start_client e)" "keeps (client_alloc sd F K m) (udtcp_stop_client e)"
    unfolding udtcp_start_client_def udtcp_stop_client_def udtcp_stop_def sys_int_def sys_do_def
    by (intro inv_intros keeps_modify; simp add: alloc_fields)+
  show "client_alloc sd F K m v" if "client_alloc sd F K m u" "thread_client_poll e u = Some v" for u v
    using client_thread_heap.thread_inv that assms(1) unfolding thread_client_poll_def by blast
qed

text \<open>What one attempt and one session keep the loops of \<open>main\<close> keep.\<close>

lemma client_tries_keep:
  assumes "client_tries e run c s = Some s'" "P s" "keeps P (try_connect e)"
  shows "P s'"
  using assms
proof (induction rule: client_tries.raw_induct [rotated, consumes 1, case_names step])
  case (step tries e run c s y)
  show ?case
  proof (cases "run (hist s) \<and> c \<noteq> UDTCP_CONNECT_SUCCESS")
    case False
    with step(2,3) show ?thesis by auto
  next
    case True
    with step(2) show ?thesis by (intro step(1) [OF _ keeps_run_state [OF step(4,3)] step(4)]) simp
  qed
qed

lemma client_loop_keep:
  assumes "client_loop e run s = Some s'" "P s" "keeps P (try_connect e)"
    and "\<And>t u. P t \<Longrightarrow> client_session e t = Some u \<Longrightarrow> P u"
  shows "P s'"
  using assms
proof (induction rule: client_loop.raw_induct [rotated, consumes 1, case_names step])
  case (step loop e run s y)
  show ?case
  proof (cases "run (hist s)")
    case False
    with step(2,3) show ?thesis by auto
  next
    case True
    then obtain s1 where tries: "client_tries e run UDTCP_CONNECT_ERROR s = Some s1"
      and rest: "(if \<not> run (hist s1) then Some s1 else Option.bind (client_session e s1) (loop e run)) = Some y"
      using step(2) by (auto simp: bind_eq_Some_conv)
    have s1: "P s1" by (rule client_tries_keep [OF tries step(3,4)])
    show ?thesis
    proof (cases "run (hist s1)")
      case True
      with rest obtain s2 where session: "client_session e s1 = Some s2" and again: "loop e run s2 = Some y"
        by (auto simp: bind_eq_Some_conv)
      show ?thesis by (rule step(1) [OF again step(5) [OF s1 session] step(4)]) (rule step(5))
    qed (use rest s1 in auto)
  qed
qed

lemma client_main_heap:
  assumes "polite e" "host_names_fit e" "freed_all F K s" "client_main e run s = Some (r, s')"
  shows "freed_all F K s'"
proof -
  have fit: "udp_sizes_fit e" "handshake_fits e" "names_fit e" using assms(1) by (simp_all add: polite_def)
  have sleep: "keeps (client_alloc zero_send F K m) (sys_do e (C_sleep n))" for m n
    unfolding sys_do_def by (intro inv_intros) simp
  have attempt: "keeps (client_alloc zero_send F K m) (try_connect e)" for m
    unfolding try_connect_def by (intro inv_intros connect_heap [OF fit(2,3)] sleep)
  obtain c s1 where create: "run_state (do { ini_signal e;
      udtcp_create_client e (lit ''0.0.0.0'') 0 0 0 }) s = (c, s1)" by fastforce
  have "wp (do { ini_signal e; udtcp_create_client e (lit ''0.0.0.0'') 0 0 0 })
      (\<lambda>c u. if c = 0 then \<exists>m. client_born F K m u else c = -1 \<and> freed_all F K u) s"
    by (rule wp_keeps_bind [OF app_calls_freed(1) assms(3)]) (rule create_client_heap [OF assms(2)])
  from wp_runI [OF this create] have out: "if c = 0 then \<exists>m. client_born F K m s1 else c = -1 \<and> freed_all F K s1"
    by simp
  show ?thesis
  proof (cases "c = 0")
    case False
    with out assms(4) create keeps_run_state [OF app_calls_freed(2), of F K s1 e] show ?thesis
      by (auto simp: client_main_def split: if_splits)
  next
    case True
    with out obtain m where start: "client_alloc zero_send F K m (set_callbacks s1)"
      by (auto simp: client_born_def alloc_fields)
    obtain s2 where loop: "client_loop e run (set_callbacks s1) = Some s2"
      and s': "s' = snd (run_state (udtcp_delete_client e) s2)"
      using assms(4) create True by (auto simp: client_main_def bind_eq_Some_conv)
    have "client_alloc zero_send F K m s2"
      by (rule client_loop_keep [where P = "client_alloc zero_send F K m", OF loop start attempt])
        (rule client_session_heap [OF fit(1)])
    with delete_client_heap [of zero_send F K m s2 e] show ?thesis
      unfolding s' by (auto simp: wp_def zero_send_empty split: prod.splits)
  qed
qed

end
