(* ===== verification/Udtcp_Claims_Application.thy ===== *)
theory Udtcp_Claims_Application
  imports Udtcp_Claims_Client Udtcp_Application_Memory
begin

text \<open>
  The properties that hold over the whole life of a server or a client: which descriptors are open
  while it runs, and what the two programs of the example have released and freed when they return.
\<close>

section \<open>A system for the instances\<close>

text \<open>Every call succeeds, nobody connects or sends, and after 100 events the program is told to stop.\<close>

definition app_env :: env where
  "app_env = mk_env (\<lambda>_ c. case c of
      C_gethostbyname _ \<Rightarrow> ok_reply\<lparr>rv := 1, payload := [127, 0, 0, 1]\<rparr>
    | C_new_client \<Rightarrow> ok_reply\<lparr>rv := 4096\<rparr>
    | C_new_server \<Rightarrow> ok_reply\<lparr>rv := 4096\<rparr>
    | C_socket _ \<Rightarrow> ok_reply\<lparr>rv := 7\<rparr>
    | C_accept _ \<Rightarrow> ok_reply\<lparr>rv := -1, err := EWOULDBLOCK\<rparr>
    | C_recv _ _ \<Rightarrow> ok_reply\<lparr>rv := -1, err := EWOULDBLOCK\<rparr>
    | C_recvfrom _ _ _ \<Rightarrow> ok_reply\<lparr>rv := -1, err := EWOULDBLOCK\<rparr>
    | _ \<Rightarrow> ok_reply)\<lparr>stop_seen := \<lambda>h. 100 \<le> length h\<rparr>"

lemma app_env_os: "os app_env h c = os app_env [] c" "stop_seen app_env h \<longleftrightarrow> 100 \<le> length h"
  by (simp_all add: app_env_def)

lemma app_env_ok:
  "rv (os app_env h (C_mutex_init a)) = 0" "handshake_whole app_env" "runs_dry app_env 0"
  "stops_by app_env 100" "calm app_env (\<lambda>h. length h < 100)"
  by (simp_all add: app_env_def ok_reply_def handshake_whole_def recv_result_def runs_dry_def stops_by_def
      calm_def only_readable_def)

lemma app_env_polite: "polite app_env" "host_names_fit app_env"
  by (simp_all add: polite_def udp_sizes_fit_def handshake_fits_def names_fit_def host_names_fit_def
      app_env_def ok_reply_def recv_result_def c_string_def)

text \<open>A server that polls its own sockets.\<close>

definition polling_server :: server where
  "polling_server = blank_server\<lparr>poll_fds := (poll_fds blank_server)[0 := zero_pollfd\<lparr>pfd := 3, events := POLLIN\<rparr>,
     1 := zero_pollfd\<lparr>pfd := 4, events := POLLIN\<rparr>]\<rparr>"

lemma polling_server_ok:
  "server_inv polling_server" "hist polling_server = []" "conn_fds polling_server = {#}"
  "pfd (poll_fds polling_server ! 0) = tcp_socket (infos polling_server ! 0)"
  "pfd (poll_fds polling_server ! 1) = udp_server_socket (infos polling_server ! 0)"
  using table_size_gt_2
  by (auto simp: polling_server_def blank_server_def server_inv_def server_wf_def conn_fds_def clients_def)

section \<open>Descriptors of a running server\<close>



section \<open>The programs\<close>



text \<open>C13. The client program closes every socket it opens, at most one of them twice (the last one, when
  it is stopped while it has no connection), over any number of connections, attempts and
  sessions; and destroys its mutex.  It relies on a calm system: \<open>poll\<close> reports only readable
  descriptors and fails only when the program is to stop, and sockets and the thread can be created.\<close>

theorem client_program_releases_all:
  assumes "calm e run" "client_main e run s = Some (r, s')"
  shows "(r = 0 \<or> r = 1) \<and> inited (hist s') + destroyed (hist s) = inited (hist s) + destroyed (hist s') \<and>
    (\<exists>X. size X \<le> 1 \<and> opened (hist s') + closed (hist s) + X = opened (hist s) + closed (hist s'))"
  by (rule client_main_outcome [OF assms])

lemma client_program_releases_all_witness:
  "\<exists>r s' X. client_main app_env (\<lambda>h. length h < 100) blank_client = Some (r, s') \<and> size X \<le> 1 \<and>
     opened (hist s') + X = closed (hist s')"
proof -
  obtain r s' where "client_main app_env (\<lambda>h. length h < 100) blank_client = Some (r, s')"
    using client_main_ends [OF app_env_ok(3,4), of 100 "\<lambda>h. length h < 100"] by fastforce
  with client_program_releases_all [OF app_env_ok(5) this] show ?thesis by fastforce
qed







section \<open>What a session can lose\<close>

text \<open>C38. A client that connects while it still has a connection loses the old one: the socket that was
  open is neither closed nor named in the structure any more.  The example program does so when
  its thread has ended without disconnecting.\<close>

theorem reconnect_leaks_connection:
  assumes "client_wf s" "holds (add_mset (tcp_socket (infos s ! 0)) D) M h s"
    and "\<And>h. 0 \<le> rv (os e h (C_socket SOCK_STREAM))"
    and "run_state (udtcp_connect_client e host port t) s = (UDTCP_CONNECT_SUCCESS, s')"
  shows "holds (add_mset (tcp_socket (infos s' ! 0)) (add_mset (tcp_socket (infos s ! 0)) D)) M h s'"
proof -
  obtain fd where c: "connecting s True fd s'"
    using wp_runI [OF connect_client_outcome [OF assms(1)] assms(4)] by (auto simp: connect_outcome_def)
  have "socket_ok s'" by (rule wp_runI [OF connect_socket_ok [OF assms(3,1)] assms(4)])
  with c have "holds {#fd#} {#} (hist s) s'" "tcp_socket (infos s' ! 0) = fd"
    by (auto simp: connecting_def linked_def socket_ok_def)
  with holds_trans [OF assms(2), of "{#fd#}" "{#}" s'] show ?thesis by simp
qed

lemma reconnect_leaks_connection_witness:
  "\<exists>s'. run_state (udtcp_connect_client connect_env [] 4242 0)
       (blank_client\<lparr>hist := [Ev (C_socket SOCK_STREAM) ok_reply]\<rparr>) = (UDTCP_CONNECT_SUCCESS, s') \<and>
     opened (hist s') = closed (hist s') + {#7, 0#}"
proof -
  let ?s = "blank_client\<lparr>hist := [Ev (C_socket SOCK_STREAM) ok_reply]\<rparr>"
  have wf: "client_wf ?s" using blank_client_ok(1) by (simp add: client_wf_def)
  have held: "holds (add_mset (tcp_socket (infos ?s ! 0)) {#}) {#} [] ?s"
    by (simp add: holds_def ok_reply_def)
  have sock: "0 \<le> rv (os connect_env h (C_socket SOCK_STREAM))" for h
    by (simp add: connect_env_def ok_reply_def)
  obtain s' where run: "run_state (udtcp_connect_client connect_env [] 4242 0) ?s = (UDTCP_CONNECT_SUCCESS, s')"
    and fd: "tcp_socket (infos s' ! 0) = 7" using connect_env_succeeds [OF wf] by blast
  from reconnect_leaks_connection [OF wf held sock run] have "holds {#7, 0#} {#} [] s'"
    by (simp add: fd)
  with run show ?thesis by (simp add: holds_def)
qed

section \<open>The text of an address\<close>

lemma inet_ntoa_no_zero: "0 \<notin> set (inet_ntoa a)"
  using inet_ntoa_nonzero by blast

lemma initialize_ip:
  assumes "n < length (infos s)" "infos_wf y"
    and "\<And>h. recv_result (sizeof_udtcp_infos + 1) (os e h (C_recv (tcp_socket (infos s ! n)) (sizeof_udtcp_infos + 1))) =
      (int sizeof_udtcp_infos, infos_bytes y)"
  shows "wp (server_initialize_connection e n) (\<lambda>r t. (r = 0 \<or> r = -1) \<and> length (infos t) = length (infos s) \<and>
    (r = 0 \<longrightarrow> ip (infos t ! n) = ip y \<and> sin_addr (tcp_addr (infos t ! n)) = sin_addr (tcp_addr (infos s ! n)))) s"
proof -
  have ne: "infos_bytes y \<noteq> []"
    using infos_recv_whole [OF assms(2)] by (auto simp flip: length_0_conv simp: sizeof_udtcp_infos_def)
  note r = assms(3) [unfolded Suc_eq_plus1 [symmetric]]
  show ?thesis
    using assms(1,2) ne
    by (auto simp: server_initialize_connection_def wp_simps wp_sys_send wp_sys_poll1 wp_syscall
      wp_recv_infos Let_def r infos_recv_whole apply_distant_def)
qed

lemma register_ip:
  assumes "n < length (infos s)" "length (ip (infos s ! n)) = 16"
  shows "wp (register_client e n) (\<lambda>_ s'. ip (infos s' ! n) =
    overlay 0 (inet_ntoa (sin_addr (tcp_addr (infos s ! n)))) (ip (infos s ! n))) s"
  using assms length_inet_ntoa [of "sin_addr (tcp_addr (infos s ! n))"]
  by (auto simp: register_client_def udtcp_set_string_infos_def copy_string_def wp_simps wp_syscall Let_def)

text \<open>C37. The address of a client is copied without a terminator into the structure the client has
  sent.  The text the server prints for it is therefore the address followed by what the client has
  put behind it in its own structure, and when there is no terminator either, \<open>printf\<close> reads on
  behind the member.\<close>

theorem peer_writes_behind_its_address:
  assumes "n < length (infos s)" "infos_wf y" "a = sin_addr (tcp_addr (infos s ! n))"
    and "\<And>h. recv_result (sizeof_udtcp_infos + 1) (os e h (C_recv (tcp_socket (infos s ! n)) (sizeof_udtcp_infos + 1))) =
      (int sizeof_udtcp_infos, infos_bytes y)"
  shows "wp (exchange_informations e n) (\<lambda>r s'. r = 0 \<longrightarrow> member_text (ip (infos s' ! n)) =
      map_option ((@) (inet_ntoa a)) (member_text (drop (length (inet_ntoa a)) (ip y))) \<and>
    (server_connect_text (infos s' ! n) = None \<longleftrightarrow> 0 \<notin> set (drop (length (inet_ntoa a)) (ip y)))) s"
proof -
  have len: "length (ip y) = 16" using assms(2) by (simp add: infos_wf_def)
  then have "length (inet_ntoa a) \<le> length (ip y)" using length_inet_ntoa [of a] by simp
  note tail = member_text_overlay [OF this inet_ntoa_no_zero]
  have reg: "wp (register_client e n) (\<lambda>_ s'. member_text (ip (infos s' ! n)) =
      map_option ((@) (inet_ntoa a)) (member_text (drop (length (inet_ntoa a)) (ip y))) \<and>
      (server_connect_text (infos s' ! n) = None \<longleftrightarrow> 0 \<notin> set (drop (length (inet_ntoa a)) (ip y)))) t"
    if "n < length (infos t)" "ip (infos t ! n) = ip y" "sin_addr (tcp_addr (infos t ! n)) = a" for t
    by (rule wp_mono [OF register_ip]) (use that len tail inet_ntoa_no_zero in \<open>auto simp: server_connect_text_None overlay_def\<close>)
  show ?thesis
    unfolding exchange_informations_def wp_bind
    by (rule wp_mono [OF initialize_ip [OF assms(1,2,4)]])
      (use assms(1,3) in \<open>auto simp: wp_simps wp_calls wp_syscall intro!: reg wp_mono [OF reg]\<close>)
qed


text \<open>A peer at 10.0.0.1 whose own structure says "192.168.100.200".\<close>

definition text_peer :: udtcp_infos where
  "text_peer = zero_infos\<lparr>ip := [49, 57, 50, 46, 49, 54, 56, 46, 49, 48, 48, 46, 50, 48, 48, 0]\<rparr>"

definition text_peer_env :: env where
  "text_peer_env = mk_env (\<lambda>_ c. case c of
      C_send _ d \<Rightarrow> ok_reply\<lparr>rv := int (length d)\<rparr>
    | C_poll _ _ \<Rightarrow> ok_reply\<lparr>rv := 1, revs := [POLLIN]\<rparr>
    | C_recv _ _ \<Rightarrow> ok_reply\<lparr>payload := infos_bytes text_peer\<rparr>
    | _ \<Rightarrow> ok_reply)"

definition text_server :: server where
  "text_server = blank_server\<lparr>infos := (infos blank_server)[2 := zero_infos\<lparr>tcp_socket := 7,
     tcp_addr := zero_sockaddr\<lparr>sin_addr := u32_of_bytes [10, 0, 0, 1]\<rparr>\<rparr>]\<rparr>"

lemma address_texts:
  "inet_ntoa (u32_of_bytes [10, 0, 0, 1]) = [49, 48, 46, 48, 46, 48, 46, 49]"
  "member_text (drop (length (inet_ntoa (u32_of_bytes [10, 0, 0, 1]))) (ip text_peer)) = Some [49, 48, 48, 46, 50, 48, 48]"
  by (simp_all add: inet_ntoa_def u32_bytes_u32_of_bytes dotted_def byte_digits_def digit_def
      text_peer_def member_text_def c_string_def)

text \<open>The server prints 10.0.0.1100.200.\<close>

lemma peer_writes_behind_its_address_witness:
  "\<exists>s'. run_state (exchange_informations text_peer_env 2) text_server = (0, s') \<and>
    member_text (ip (infos s' ! 2)) = Some [49, 48, 46, 48, 46, 48, 46, 49, 49, 48, 48, 46, 50, 48, 48]"
proof -
  have n: "2 < length (infos text_server)" and slot: "tcp_socket (infos text_server ! 2) = 7"
    "sin_addr (tcp_addr (infos text_server ! 2)) = u32_of_bytes [10, 0, 0, 1]"
    using table_size_gt_2 by (simp_all add: text_server_def)
  have wf: "infos_wf text_peer"
    by (simp add: text_peer_def infos_wf_def zero_infos_def in_int_def sockaddr_wf_def zero_sockaddr_def)
  have recv: "recv_result (sizeof_udtcp_infos + 1) (os text_peer_env h (C_recv fd (sizeof_udtcp_infos + 1))) =
      (int sizeof_udtcp_infos, infos_bytes text_peer)" for h fd
    by (simp add: text_peer_env_def ok_reply_def recv_result_def)
  have ne: "0 < sizeof_udtcp_infos" by (simp add: sizeof_udtcp_infos_def)
  note r = recv [unfolded Suc_eq_plus1 [symmetric]]
  have ne': "infos_bytes text_peer \<noteq> []" using ne by (simp flip: length_0_conv)
  have io: "rv (os text_peer_env h (C_send fd d)) = int (length d)" "rv (os text_peer_env h (C_poll fds tm)) = 1" for h fd d fds tm
    by (simp_all add: text_peer_env_def ok_reply_def)
  have "wp (server_initialize_connection text_peer_env 2) (\<lambda>r s'. r = 0 \<and> True) text_server"
    using n ne ne' by (simp add: server_initialize_connection_def wp_simps wp_calls wp_syscall wp_recv_infos Let_def r io)
  from wp_returns [OF this] obtain s1 where "run_state (server_initialize_connection text_peer_env 2) text_server = (0, s1)"
    by blast
  moreover obtain x s' where "run_state (register_client text_peer_env 2) s1 = (x, s')"
    by (cases "run_state (register_client text_peer_env 2) s1")
  ultimately have run: "run_state (exchange_informations text_peer_env 2) text_server = (0, s')"
    by (simp add: exchange_informations_def)
  from wp_runI [OF peer_writes_behind_its_address [OF n wf slot(2) [symmetric] recv] run]
  have "member_text (ip (infos s' ! 2)) = Some ([49, 48, 46, 48, 46, 48, 46, 49] @ [49, 48, 48, 46, 50, 48, 48])"
    by (simp only: address_texts(2) option.map simp_thms) (simp only: address_texts(1))
  with run show ?thesis by simp
qed
end
