(* ===== verification/Udtcp_Service.thy ===== *)
theory Udtcp_Service
  imports Udtcp_Channel Udtcp_Resources
begin

text \<open>
  A structure of the library in the hands of an application: any sequence of calls on it, and the
  two functions that send as one.
\<close>

section \<open>Sequences of calls\<close>

text \<open>The calls \<open>cs\<close> one after the other; \<open>None\<close> when one does not return.\<close>

fun serves :: "('c \<Rightarrow> 's \<Rightarrow> 's option) \<Rightarrow> 'c list \<Rightarrow> 's \<Rightarrow> 's option" where
  "serves does [] s = Some s"
| "serves does (c # cs) s = Option.bind (does c s) (serves does cs)"

text \<open>The contract of the calls with an application that makes only \<open>legal\<close> ones.\<close>

locale service =
  fixes does :: "'c \<Rightarrow> 's \<Rightarrow> 's option"
    and legal :: "'c \<Rightarrow> bool"
    and inv :: "'s \<Rightarrow> bool"
  assumes call: "legal c \<Longrightarrow> inv s \<Longrightarrow> does c s = Some s' \<Longrightarrow> inv s'"
begin

lemma calls: "list_all legal cs \<Longrightarrow> inv s \<Longrightarrow> serves does cs s = Some s' \<Longrightarrow> inv s'"
  by (induction cs arbitrary: s) (auto simp: bind_eq_Some_conv dest: call)

end

locale lasting_service = service +
  assumes returns: "legal c \<Longrightarrow> inv s \<Longrightarrow> \<exists>s'. does c s = Some s'"
begin

lemma calls_return: "list_all legal cs \<Longrightarrow> inv s \<Longrightarrow> \<exists>s'. serves does cs s = Some s'"
proof (induction cs arbitrary: s)
  case (Cons c cs)
  then obtain t where "does c s = Some t" using returns [of c s] by auto
  with Cons call [of c s t] show ?case by auto
qed simp

end

section \<open>Sending\<close>

text \<open>A structure on which messages have been sent.\<close>

definition send_ready :: "udtcp_send \<Rightarrow> bool" where
  "send_ready sd \<longleftrightarrow> send_ok sd \<and> sized sd"

lemma grow_send_buffer_sized:
  assumes "sized sd"
  shows "wp (grow_send_buffer e sd n) (\<lambda>g s'. \<forall>t. g = Some t \<longrightarrow> sized t) s"
proof -
  have "n \<noteq> 0" if "send_buffer_size sd < n" using that by auto
  with assms show ?thesis
    by (auto simp: grow_send_buffer_def udtcp_new_buffer_def udtcp_free_buffer_def wp_simps wp_calls wp_syscall
        sized_def split: option.splits)
qed

lemma write_block_None: "wp (write_block b p d) (\<lambda>b' _. (b' = None) = (b = None)) s"
  by (auto simp: write_block_def wp_simps split: option.splits)

lemma buffer_copy_sized:
  assumes "sized sd"
  shows "wp (buffer_copy e sd d n) (\<lambda>(c, t) _. sized t) s"
proof -
  have copy: "wp (do {
      b1 \<leftarrow> write_block (send_buffer t) (size_offset t) (u32_bytes n);
      b2 \<leftarrow> write_block b1 (payload_offset t) (take (unat n) d);
      ret (0, t\<lparr>send_buffer := b2\<rparr>) }) (\<lambda>(c, t) _. sized t) u" if "sized t" for t and u :: "'a sys_scheme"
    by (rule wp_bindI [OF write_block_None], rule wp_bindI [OF write_block_None])
      (use that in \<open>simp add: wp_return sized_def\<close>)
  show ?thesis
    unfolding buffer_copy_def
    by (rule wp_bindI [OF grow_send_buffer_sized [OF assms]]) (auto simp: wp_return assms copy split: option.splits)
qed

text \<open>The two functions at once.\<close>

definition udtcp_send_over ::
    "bool \<Rightarrow> env \<Rightarrow> udtcp_infos \<Rightarrow> udtcp_send \<Rightarrow> byte list \<Rightarrow> ('a sys_scheme, int \<times> udtcp_send) state" where
  "udtcp_send_over udp e x sd d = (if udp then udtcp_send_udp else udtcp_send_tcp) e x sd d (of_nat (length d))"

lemmas send_over_defs = udtcp_send_over_def udtcp_send_tcp_def udtcp_send_udp_def buffer_copy_def grow_send_buffer_def
  udtcp_new_buffer_def udtcp_free_buffer_def write_block_def sys_int_def sys_do_def sys_send_def sys_sendto_def

lemma send_over_sized: "sized sd \<Longrightarrow> wp (udtcp_send_over udp e x sd d) (\<lambda>(r, t) _. sized t) s"
proof -
  assume sd: "sized sd"
  have "wp (udtcp_send_tcp e x sd d n) (\<lambda>(r, t) _. sized t) s" "wp (udtcp_send_udp e x sd d n) (\<lambda>(r, t) _. sized t) s" for n
    unfolding udtcp_send_tcp_def udtcp_send_udp_def wp_bind wp_sys_int wp_syscall
    by (auto simp: wp_simps wp_calls wp_syscall sd intro!: wp_mono [OF buffer_copy_sized [OF sd]] split: prod.splits)
  then show ?thesis by (simp add: udtcp_send_over_def)
qed

lemma send_over_keeps:
  "keeps (sys_frame s0) (udtcp_send_over udp e x sd d)"
  "keeps (holds D M h) (udtcp_send_over udp e x sd d)"
  unfolding send_over_defs by (cases udp; simp only: if_True if_False; intro inv_intros; simp)+

lemma send_over_effect:
  assumes "send_ready sd" "message_ok d" "run_state (udtcp_send_over udp e x sd d) s = ((r, sd'), s')"
  shows "send_ready sd'" "sys_frame s s'" "faults (hist s') = faults (hist s)" "holds D M h s \<Longrightarrow> holds D M h s'"
    "allocated (hist s') + freed (hist s) + send_block sd = allocated (hist s) + freed (hist s') + send_block sd'"
proof -
  note d = message_okD(5,4) [OF assms(2)]
  have sd: "send_ok sd" "sized sd" using assms(1) by (simp_all add: send_ready_def)
  note t = wp_runI [OF send_tcp_outcome [OF sd(1) d]] and u = wp_runI [OF send_udp_outcome [OF sd(1) d]]
  have "send_ok sd' \<and> faults (hist s') = faults (hist s) \<and>
    allocated (hist s') + freed (hist s) + send_block sd = allocated (hist s) + freed (hist s') + send_block sd'"
    using assms(3) t u by (cases udp) (fastforce simp: udtcp_send_over_def send_outcome_def)+
  with wp_runI [OF send_over_sized [OF sd(2)] assms(3)]
  show "send_ready sd'" "faults (hist s') = faults (hist s)"
    "allocated (hist s') + freed (hist s) + send_block sd = allocated (hist s) + freed (hist s') + send_block sd'"
    by (simp_all add: send_ready_def)
  show "sys_frame s s'" by (rule keeps_run [OF send_over_keeps(1) sys_frame_refl assms(3)])
  show "holds D M h s \<Longrightarrow> holds D M h s'" by (rule keeps_run [OF send_over_keeps(2) _ assms(3)])
qed

text \<open>One block of an account exchanged for another.\<close>

lemma balance_swap:
  fixes a f :: "'x multiset"
  assumes "a = f + b + (S + A + K)" "a' + f + y = a + f' + y'" "S' + y = S + y'"
  shows "a' = f' + b + (S' + A + K)"
proof -
  have "a' + (f + y) = (f' + b + (S' + A + K)) + (f + y)"
  proof -
    have "a' + (f + y) = a + f' + y'" using assms(2) by (simp add: add.assoc)
    also have "\<dots> = (f + f' + b + A + K) + (S + y')" unfolding assms(1) by (simp add: ac_simps)
    also have "\<dots> = (f + f' + b + A + K) + (S' + y)" by (simp only: assms(3))
    also have "\<dots> = (f' + b + (S' + A + K)) + (f + y)" by (simp add: ac_simps)
    finally show ?thesis .
  qed
  then show ?thesis by (rule add_right_imp_eq)
qed

end
