(* ===== verification/Udtcp_Server_Sends.thy ===== *)
theory Udtcp_Server_Sends
  imports Udtcp_Server_Safety Udtcp_Resources
begin

text \<open>
  The pointers \<open>infos[i].send\<close> of the server's clients.  They are part of the structure that a client
  sends during the handshake, but \<open>accept_client\<close> replaces them: every client of the table points to
  an element of the server's own array \<open>sends\<close>, whatever its peer has sent, and a poll keeps it so.
  After a client in the middle has left, two clients can point to the same element.
\<close>

section \<open>The elements of the array\<close>

definition send_elements :: "u64 \<Rightarrow> u64 set" where
  "send_elements b = {b + of_nat (sizeof_udtcp_send * k) | k. 2 \<le> k \<and> k < UDTCP_POLL_TABLE_SIZE}"

lemma sends_addr_inj:
  assumes "sends_addr s j = sends_addr s k" "j < UDTCP_POLL_TABLE_SIZE" "k < UDTCP_POLL_TABLE_SIZE"
  shows "j = k"
proof -
  have small: "sizeof_udtcp_send * i < 2 ^ 64" if "i < UDTCP_POLL_TABLE_SIZE" for i
    using that by (simp add: sizeof_udtcp_send_def UDTCP_POLL_TABLE_SIZE_def UDTCP_MAX_CONNECTION_def)
  have "(of_nat (sizeof_udtcp_send * j) :: u64) = of_nat (sizeof_udtcp_send * k)"
    using assms(1) by (simp add: sends_addr_def)
  then have "unat (of_nat (sizeof_udtcp_send * j) :: u64) = unat (of_nat (sizeof_udtcp_send * k) :: u64)" by simp
  then have "sizeof_udtcp_send * j = sizeof_udtcp_send * k"
    using small [OF assms(2)] small [OF assms(3)] by (simp only: unat_of_nat) simp
  then show ?thesis by (simp add: sizeof_udtcp_send_def)
qed

section \<open>The invariant\<close>

definition send_pointers :: "server \<Rightarrow> u64 set" where
  "send_pointers s = (\<lambda>c. send_ptr (snd c)) ` set (clients s)"

lemma send_pointers_slots:
  assumes "server_wf s"
  shows "send_pointers s = (\<lambda>i. send_ptr (infos s ! i)) ` {2..<poll_nfds s}"
  by (simp add: send_pointers_def clients_upt [OF assms] image_image)

text \<open>The array itself is that of \<open>b\<close>, as it was.\<close>

definition sends_inv :: "udtcp_send list \<Rightarrow> u64 \<Rightarrow> server \<Rightarrow> bool" where
  "sends_inv xs b s \<longleftrightarrow> server_wf s \<and> sends s = xs \<and> sends_base s = b \<and> send_pointers s \<subseteq> send_elements b"

lemma sends_inv_cong:
  assumes "infos s = infos t" "map pfd (poll_fds s) = map pfd (poll_fds t)" "poll_nfds s = poll_nfds t"
    "sends s = sends t" "sends_base s = sends_base t"
  shows "sends_inv xs b s = sends_inv xs b t"
proof -
  have len: "length (poll_fds s) = length (poll_fds t)" using assms(2) by (rule map_eq_imp_length_eq)
  then have wf: "server_wf s = server_wf t" by (simp add: server_wf_def assms)
  have "map snd (clients s) = map snd (clients t)"
    using len by (simp add: clients_def assms(1,3) map_snd_zip_take flip: take_map drop_map)
  then have "send_ptr ` set (map snd (clients s)) = send_ptr ` set (map snd (clients t))" by (simp only:)
  then have "send_pointers s = send_pointers t" by (simp add: send_pointers_def image_image)
  with wf show ?thesis by (simp add: sends_inv_def assms)
qed

lemma buffer_frame_sends: "buffer_frame t s \<Longrightarrow> sends_inv xs b s = sends_inv xs b t"
  using buffer_frame_fields [of t s] server_more [of s t] by (intro sends_inv_cong) simp_all

lemma send_pointers_snoc:
  assumes "accepted t s" "server_wf t" "poll_nfds t < UDTCP_POLL_TABLE_SIZE"
  shows "send_pointers s = insert (sends_addr t (poll_nfds t)) (send_pointers t)"
  using accepted_clients(1) [OF assms] assms(1)
  by (simp add: send_pointers_def accepted_def Let_def insert_commute)

lemma accept_sends:
  assumes "accept_outcome t r s" "sends_inv xs b t"
  shows "sends_inv xs b s"
proof -
  have wf: "server_wf t" using assms(2) by (simp add: sends_inv_def)
  consider "poll_nfds t < UDTCP_POLL_TABLE_SIZE" "accepted t s" | "slot_frame (poll_nfds t) t s"
    using assms(1) by (auto simp: accept_outcome_def)
  then show ?thesis
  proof cases
    case 1
    have "sends_addr t (poll_nfds t) \<in> send_elements b"
      using assms(2) 1(1) by (auto simp: sends_inv_def server_wf_def send_elements_def sends_addr_def)
    with send_pointers_snoc [OF 1(2) wf 1(1)] accepted_wf(1) [OF 1(2) wf 1(1)] 1(2) assms(2)
    show ?thesis by (auto simp: sends_inv_def accepted_def Let_def)
  next
    case 2
    note f = slot_frame_fields [OF 2]
    have "take (poll_nfds t) (infos s) = take (poll_nfds t) (infos t)"
      by (rule take_eqI) (simp_all add: f)
    then have "clients s = clients t" by (simp add: clients_take f)
    with assms(2) show ?thesis by (auto simp: sends_inv_def send_pointers_def server_wf_def f)
  qed
qed

lemma after_receive_sends: "keeps (sends_inv xs b) (server_after_receive e i r)"
proof -
  have drop: "keeps (sends_inv xs b) (server_disconnect e i)"
    unfolding keeps_def
    by (blast intro: frame_wp disconnect_frame dest: buffer_frame_sends)
  have mark: "sends_inv xs b (s\<lparr>poll_fds := (poll_fds s)[i := (poll_fds s ! i)\<lparr>pfd := x\<rparr>]\<rparr>)"
    if "sends_inv xs b s" for s x
  proof -
    let ?t = "s\<lparr>poll_fds := (poll_fds s)[i := (poll_fds s ! i)\<lparr>pfd := x\<rparr>]\<rparr>"
    have "server_wf s" using that by (simp add: sends_inv_def)
    then have "server_wf ?t" "map snd (clients ?t) = map snd (clients s)"
      by (simp_all add: server_wf_def clients_def map_snd_zip_take flip: take_map drop_map)
    then have "send_ptr ` set (map snd (clients ?t)) = send_ptr ` set (map snd (clients s))" by (simp only:)
    then have "send_pointers ?t = send_pointers s" by (simp add: send_pointers_def image_image)
    with \<open>server_wf ?t\<close> that show ?thesis by (simp add: sends_inv_def)
  qed
  show ?thesis
    unfolding server_after_receive_def server_drop_def
    by (intro inv_intros drop keeps_modify mark)
qed

lemma log_sends: "sends_inv xs b (after_log e l s) = sends_inv xs b s"
  by (rule sends_inv_cong) (simp_all add: after_log_def)

interpretation scan_sends: scan_keeps e "sends_inv xs b" for e xs b
proof unfold_locales
  show "keeps (sends_inv xs b) (server_receive_tcp e i)" "keeps (sends_inv xs b) (server_receive_udp e)" for i
    unfolding keeps_def by (blast intro: frame_wp server_receive_frame dest: buffer_frame_sends)+
  show "keeps (sends_inv xs b) (accept_client e)"
    unfolding keeps_def
    by (blast intro: wp_mono [OF accept_client_wf_run] accept_sends dest: sends_inv_def [THEN iffD1])
  show "keeps (sends_inv xs b) (log_error e)" by (simp add: keeps_def wp_simps log_sends)
qed (rule after_receive_sends)

lemma compact_sends: "sends_inv xs b s \<Longrightarrow> sends_inv xs b (compact_table 2 s)"
  using compact_table_clients [of s 2] compact_table_hist [of 2 s]
  by (auto simp: sends_inv_def send_pointers_def)

lemma server_poll_sends:
  assumes "udtcp_server_poll e t s = Some (r, s')" "sends_inv xs b s"
  shows "sends_inv xs b s'"
proof -
  obtain p s1 where p: "run_state (poll_table e t) s = (p, s1)" by fastforce
  note f = poll_table_frame [OF p]
  have "map pfd (poll_fds s1) = map pfd (poll_fds s)" by (rule nth_equalityI) (simp_all add: f(4,5))
  then have "sends_inv xs b s1 = sends_inv xs b s"
    using server_more [OF f(3)] by (intro sends_inv_cong) (simp_all add: f(1,2))
  with assms(2) show ?thesis
    by (intro scan_sends.poll_keeps [OF assms(1) _ p]) (simp_all add: log_sends compact_sends)
qed

lemma server_poll_send_pointers:
  assumes "server_wf s" "\<And>i. 2 \<le> i \<Longrightarrow> i < poll_nfds s \<Longrightarrow>
      \<exists>k. 2 \<le> k \<and> k < UDTCP_POLL_TABLE_SIZE \<and> send_ptr (infos s ! i) = sends_addr s k"
    and "udtcp_server_poll e t s = Some (r, s')" "2 \<le> i" "i < poll_nfds s'"
  shows "\<exists>k. 2 \<le> k \<and> k < UDTCP_POLL_TABLE_SIZE \<and> send_ptr (infos s' ! i) = sends_addr s' k"
proof -
  have "sends_inv (sends s) (sends_base s) s"
    using assms(1,2) by (fastforce simp: sends_inv_def send_pointers_slots send_elements_def sends_addr_def)
  from server_poll_sends [OF assms(3) this] assms(4,5) show ?thesis
    by (force simp: sends_inv_def send_pointers_slots send_elements_def sends_addr_def)
qed

section \<open>After a client has left\<close>

text \<open>Entry \<open>i\<close> and no other is marked in a table with the entries up to \<open>n\<close>.\<close>

definition one_gap :: "nat \<Rightarrow> nat \<Rightarrow> server \<Rightarrow> bool" where
  "one_gap i n s \<longleftrightarrow> server_wf s \<and> poll_nfds s = Suc n \<and> 2 \<le> i \<and> i < n \<and>
     (\<forall>j. 2 \<le> j \<and> j \<le> n \<longrightarrow> (pfd (poll_fds s ! j) = -1) = (j = i))"

lemma filter_but_one:
  assumes "k < length xs" "\<And>j. j < length xs \<Longrightarrow> P (xs ! j) \<longleftrightarrow> j \<noteq> k"
  shows "filter P xs = take k xs @ drop (Suc k) xs"
proof -
  have "filter P (take k xs) = take k xs" "filter P (drop (Suc k) xs) = drop (Suc k) xs"
    using assms by (auto simp: filter_id_conv in_set_conv_nth)
  then show ?thesis
    using assms by (subst id_take_nth_drop [OF assms(1)]) simp
qed

text \<open>The entries behind it move down by one.\<close>

lemma gap_moves_down:
  assumes "one_gap i n s"
  shows "server_wf (compact_table 2 s)" "poll_nfds (compact_table 2 s) = n"
    "i \<le> j \<Longrightarrow> j < n \<Longrightarrow> infos (compact_table 2 s) ! j = infos s ! Suc j"
proof -
  let ?t = "compact_table 2 s"
  from assms have g: "server_wf s" "poll_nfds s = Suc n" "2 \<le> i" "i < n"
    "\<And>j. 2 \<le> j \<Longrightarrow> j \<le> n \<Longrightarrow> pfd (poll_fds s ! j) = -1 \<longleftrightarrow> j = i" by (simp_all add: one_gap_def)
  show wf: "server_wf ?t" using compact_table_clients [OF g(1), of 2] by simp
  have len: "length (clients s) = n - 1" using length_clients [OF g(1)] g(2) by simp
  have "live (clients s ! j) \<longleftrightarrow> j \<noteq> i - 2" if "j < length (clients s)" for j
    using clients_nth [OF g(1), of j] g that by (auto simp: live_def len)
  then have cl: "clients ?t = take (i - 2) (clients s) @ drop (Suc (i - 2)) (clients s)"
    using compact_table_clients [OF g(1), of 2] filter_but_one [of "i - 2" "clients s" live] g(3,4) len by simp
  then have "length (clients ?t) = n - 2" using g(3,4) by (simp add: len)
  then show n: "poll_nfds ?t = n" using length_clients [OF wf] wf g(3,4) by (simp add: server_wf_def)
  show "infos ?t ! j = infos s ! Suc j" if "i \<le> j" "j < n"
  proof -
    have j: "j - 2 < poll_nfds ?t - 2" "j - 1 < poll_nfds s - 2" "j - 2 + 2 = j" "j - 1 + 2 = Suc j"
      using that g(2,3) n by simp_all
    obtain a b where ab: "i = a + 2" "j = a + b + 2"
      by (rule that [of "i - 2" "j - i"]) (use \<open>i \<le> j\<close> g(3) in simp_all)
    have "clients ?t ! (j - 2) = clients s ! (j - 1)"
      using that(2) g(4) len by (simp add: cl ab nth_append)
    then show ?thesis
      using clients_nth [OF wf j(1)] clients_nth [OF g(1) j(2)] by (simp only: j(3,4) prod.inject)
  qed
qed

text \<open>The last client keeps its element when it moves down, and the next client gets it too.\<close>

lemma gap_then_accept_shares:
  assumes "one_gap i n s" "send_ptr (infos s ! n) = sends_addr s n" "accepted (compact_table 2 s) u"
  shows "poll_nfds u = Suc n \<and> send_ptr (infos u ! (n - 1)) = send_ptr (infos u ! n)"
proof -
  have n: "2 \<le> i" "i < n" "server_wf s" using assms(1) by (simp_all add: one_gap_def)
  have base: "sends_base (compact_table 2 s) = sends_base s" using compact_table_hist [of 2 s] by auto
  have "send_ptr (infos (compact_table 2 s) ! (n - 1)) = sends_addr s n"
    using gap_moves_down(3) [OF assms(1), of "n - 1"] n assms(2) by simp
  with n gap_moves_down(2) [OF assms(1)] assms(3) show ?thesis
    by (auto simp: accepted_def Let_def sends_addr_def base)
qed

end
