(* ===== verification/Udtcp_Server_Service.thy ===== *)
theory Udtcp_Server_Service
  imports Udtcp_Service Udtcp_Server_Sends Udtcp_Application_Memory
begin

text \<open>
  A server in the hands of an application: any sequence of polls, of messages sent to its clients over
  either transport and of sessions of its thread, between \<open>udtcp_create_server\<close> and
  \<open>udtcp_delete_server\<close>.
\<close>

section \<open>The calls on a server\<close>

text \<open>\<open>infos->send\<close> as an index of \<open>sends\<close>.\<close>

definition send_element :: "server \<Rightarrow> u64 \<Rightarrow> nat option" where
  "send_element s p = find (\<lambda>k. sends_addr s k = p) [0..<UDTCP_POLL_TABLE_SIZE]"

text \<open>A message to the client in slot \<open>i\<close>.\<close>

definition server_send :: "env \<Rightarrow> bool \<Rightarrow> nat \<Rightarrow> byte list \<Rightarrow> (server, int) state" where
  "server_send e udp i d = do {
     s \<leftarrow> gets id;
     case send_element s (send_ptr (infos s ! i)) of
       None \<Rightarrow> do { emit (Fault WildPointer); ret 0 }
     | Some k \<Rightarrow> do {
         (r, sd) \<leftarrow> udtcp_send_over udp e (infos s ! i) (sends s ! k) d;
         modify (\<lambda>s. s\<lparr>sends := (sends s)[k := sd]\<rparr>);
         ret r } }"

datatype server_call =
    Server_poll int
  | Server_send bool nat "byte list"
  | Server_session
  | Server_set_callbacks

text \<open>The application sends to slots that have a client.\<close>

fun server_does :: "env \<Rightarrow> server_call \<Rightarrow> server \<Rightarrow> server option" where
  "server_does e (Server_poll t) s = map_option snd (udtcp_server_poll e t s)"
| "server_does e (Server_send udp i d) s =
     Some (if 2 \<le> i \<and> i < poll_nfds s then snd (run_state (server_send e udp i d) s) else s)"
| "server_does e Server_session s = server_session e s"
| "server_does e Server_set_callbacks s = Some (set_callbacks s)"

fun server_legal :: "server_call \<Rightarrow> bool" where
  "server_legal (Server_send udp i d) = message_ok d"
| "server_legal _ = True"

section \<open>What a server holds in between\<close>

definition sent_blocks :: "server \<Rightarrow> int multiset" where
  "sent_blocks s = \<Sum>\<^sub># (mset (map (\<lambda>k. send_block (sends s ! k)) [2..<UDTCP_POLL_TABLE_SIZE]))"

lemma server_blocks_sent: "server_blocks s = sent_blocks s + buffer_block s + {#uint (server_addr s)#}"
  by (simp add: server_blocks_def sent_blocks_def)

lemma sent_blocks_update:
  assumes "2 \<le> k" "k < UDTCP_POLL_TABLE_SIZE" "length (sends s) = UDTCP_POLL_TABLE_SIZE"
  shows "sent_blocks (s\<lparr>sends := (sends s)[k := sd]\<rparr>) + send_block (sends s ! k) = sent_blocks s + send_block sd"
proof -
  let ?I = "{2..<UDTCP_POLL_TABLE_SIZE}"
  have sum: "\<Sum>\<^sub># (mset (map f [2..<UDTCP_POLL_TABLE_SIZE])) = sum f ?I" for f :: "nat \<Rightarrow> int multiset"
    by (simp add: sum_unfold_sum_mset)
  have "sum (\<lambda>j. send_block ((sends s)[k := sd] ! j)) (?I - {k}) = sum (\<lambda>j. send_block (sends s ! j)) (?I - {k})"
    by (rule sum.cong) simp_all
  with assms show ?thesis
    by (simp add: sent_blocks_def sum sum.remove [of ?I k] del: mset_map)
qed

text \<open>Since \<open>h\<close>, the server has the descriptors \<open>D\<close> besides those of its clients, and the mutexes \<open>M\<close>; it
  owns its structure, the receive buffer and the blocks of its send structures; and no undefined
  behaviour was met after \<open>F\<close> but that of closing gaps.\<close>

definition serving ::
    "server \<Rightarrow> int multiset \<Rightarrow> u64 multiset \<Rightarrow> event list \<Rightarrow> event list \<Rightarrow> int multiset \<Rightarrow> server \<Rightarrow> bool" where
  "serving s0 D M h F K s \<longleftrightarrow> accounted (s0\<lparr>sends := sends s\<rparr>) D M h 0 s \<and> buffer_sized s \<and>
     send_pointers s \<subseteq> send_elements (sends_base s) \<and> (\<forall>k < UDTCP_POLL_TABLE_SIZE. send_ready (sends s ! k)) \<and>
     (\<exists>F'. gap_faults F F' \<and> mem_ok F' (sent_blocks s + {#uint (server_addr s)#} + K) s)"

lemma serving_cong:
  assumes "serving s0 D M h F K t"
    and "infos s = infos t" "poll_fds s = poll_fds t" "poll_nfds s = poll_nfds t" "sends s = sends t"
    "sends_base s = sends_base t" "buffer_data s = buffer_data t" "buffer_size s = buffer_size t"
    and "\<And>D. holds D M h t \<Longrightarrow> holds D M h s" "allocated (hist s) = allocated (hist t)"
    "freed (hist s) = freed (hist t)" "faults (hist s) = faults (hist t)"
  shows "serving s0 D M h F K s"
proof -
  note f = assms(2-8)
  have "mem_ok F' X s = mem_ok F' X t" for F' X
    by (simp add: mem_ok_def buffer_ok_def heap_balanced_def buffer_block_def f assms(10-12) cong: option.case_cong)
  moreover have "send_pointers s = send_pointers t" "conn_fds s = conn_fds t"
    by (simp_all add: send_pointers_def conn_fds_def clients_def f)
  moreover have "server_wf s = server_wf t" by (simp add: server_wf_def f)
  ultimately show ?thesis
    using assms(1,9)
    by (auto simp: serving_def accounted_def same_core_def slot_live_def sent_blocks_def buffer_sized_def server_addr_def f)
qed

lemma keeps_serving:
  "neutral c \<Longrightarrow> (\<And>r. silent (Ev c r)) \<Longrightarrow> keeps (serving s0 D M h F K) (syscall e c)"
  "keeps (serving s0 D M h F K) (udtcp_log e l)"
  "keeps (serving s0 D M h F K) (modify (\<lambda>s. s\<lparr>poll_loop := x\<rparr>))"
  "keeps (serving s0 D M h F K) (modify (\<lambda>s. s\<lparr>is_started := x\<rparr>))"
  "keeps (serving s0 D M h F K) (modify set_callbacks)"
proof -
  show "keeps (serving s0 D M h F K) (syscall e c)" if "neutral c" "\<And>r. silent (Ev c r)"
    using neutral_events [OF that(1)] that(2)
    by (auto simp: keeps_def silent_def holds_def intro!: wp_syscallI elim!: serving_cong)
qed (auto simp: keeps_def wp_simps after_log_def set_callbacks_def holds_def elim!: serving_cong)

lemma serving_poll:
  assumes "handshake_whole e" "polite e" "serving s0 D M h F K s" "udtcp_server_poll e t s = Some (r, s')"
  shows "serving s0 D M h F K s'"
proof -
  let ?B = "sent_blocks s + {#uint (server_addr s)#} + K"
  from assms(3) obtain F' where acc: "accounted (s0\<lparr>sends := sends s\<rparr>) D M h 0 s" and sz: "buffer_sized s"
    and ptr: "send_pointers s \<subseteq> send_elements (sends_base s)" and ready: "\<forall>k < UDTCP_POLL_TABLE_SIZE. send_ready (sends s ! k)"
    and F: "gap_faults F F'" and mem: "mem_ok F' ?B s" by (auto simp: serving_def)
  note acc' = server_poll_accounted [OF assms(1) acc assms(4)]
  have same: "sends s' = sends s" "sends_base s' = sends_base s"
    using acc acc' by (simp_all add: accounted_def same_core_def)
  have wf: "server_wf s" by (rule accounted_wf [OF acc])
  then have "sends_inv (sends s) (sends_base s) s'"
    using ptr by (intro server_poll_sends [OF assms(4)]) (simp add: sends_inv_def)
  then have ptr': "send_pointers s' \<subseteq> send_elements (sends_base s')" by (simp add: sends_inv_def)
  have B: "sent_blocks s' + {#uint (server_addr s')#} + K = ?B"
    by (simp add: sent_blocks_def server_addr_def same)
  have "buffer_ok s" "heap_balanced ?B s" "faults (hist s) = F'" using mem by (simp_all add: mem_ok_def)
  from server_poll_safe [OF assms(2) wf this(1,2) assms(4)] this(3)
  have "mem_ok (faults (hist s')) ?B s'" "gap_faults F' (faults (hist s'))"
    by (auto simp: mem_ok_def gap_faults_def)
  with gap_faults_trans [OF F] acc' server_poll_sized [OF assms(4) sz] ptr' ready show ?thesis
    unfolding serving_def B by (auto simp: same)
qed

lemma accounted_sends:
  assumes "length xs = length (sends s)"
  shows "accounted (s0\<lparr>sends := xs\<rparr>) D M h 0 (s\<lparr>sends := xs\<rparr>) = accounted (s0\<lparr>sends := sends s\<rparr>) D M h 0 s"
  using assms
  by (simp add: accounted_def same_core_def server_wf_def slot_live_def holds_def conn_fds_def clients_def)

lemma element_of_addr:
  assumes "k < UDTCP_POLL_TABLE_SIZE"
  shows "send_element s (sends_addr s k) = Some k"
proof -
  have other: "sends_addr s j \<noteq> sends_addr s k" if "j < k" for j
    using that assms sends_addr_inj [of s j k] by auto
  show ?thesis
    unfolding send_element_def find_Some_iff by (intro exI [of _ k]) (use assms other in auto)
qed

lemma element_of_client:
  assumes "server_wf s" "send_pointers s \<subseteq> send_elements (sends_base s)" "2 \<le> i" "i < poll_nfds s"
  obtains k where "send_element s (send_ptr (infos s ! i)) = Some k" "2 \<le> k" "k < UDTCP_POLL_TABLE_SIZE"
proof -
  have "send_ptr (infos s ! i) \<in> send_pointers s" using assms(3,4) by (simp add: send_pointers_slots [OF assms(1)])
  with assms(2) obtain k where k: "send_ptr (infos s ! i) = sends_addr s k" "2 \<le> k" "k < UDTCP_POLL_TABLE_SIZE"
    by (auto simp: send_elements_def sends_addr_def)
  show thesis by (rule that [OF _ k(2,3)]) (simp add: k(1) element_of_addr [OF k(3)])
qed

text \<open>A message over TCP goes out on the socket of the slot.\<close>

lemma server_send_frame:
  assumes "send_ptr (infos s ! i) = sends_addr s k" "k < UDTCP_POLL_TABLE_SIZE" "send_ok (sends s ! k)" "message_ok d"
  shows "wp (server_send e False i d) (\<lambda>r u. sent_on (tcp_socket (infos s ! i)) (hist u) =
    sent_on (tcp_socket (infos s ! i)) (hist s) @ take (nat r) (frame d) \<and> faults (hist u) = faults (hist s)) s"
proof -
  note d = message_okD(5,4) [OF assms(4)]
  obtain r sd t where run: "run_state (udtcp_send_tcp e (infos s ! i) (sends s ! k) d (of_nat (length d))) s = ((r, sd), t)"
    by (metis surj_pair)
  from wp_runI [OF send_tcp_outcome [OF assms(3) d] run] run show ?thesis
    by (simp add: wp_def server_send_def assms(1) element_of_addr [OF assms(2)] udtcp_send_over_def send_outcome_def)
qed

lemma serving_send:
  assumes "serving s0 D M h F K s" "message_ok d" "2 \<le> i" "i < poll_nfds s"
  shows "serving s0 D M h F K (snd (run_state (server_send e udp i d) s))"
proof -
  from assms(1) obtain F' where acc: "accounted (s0\<lparr>sends := sends s\<rparr>) D M h 0 s" and sz: "buffer_sized s"
    and ptr: "send_pointers s \<subseteq> send_elements (sends_base s)" and ready: "\<forall>k < UDTCP_POLL_TABLE_SIZE. send_ready (sends s ! k)"
    and F: "gap_faults F F'" and mem: "mem_ok F' (sent_blocks s + {#uint (server_addr s)#} + K) s"
    by (auto simp: serving_def)
  have wf: "server_wf s" by (rule accounted_wf [OF acc])
  then have len: "length (sends s) = UDTCP_POLL_TABLE_SIZE" by (simp add: server_wf_def)
  obtain k where k: "send_element s (send_ptr (infos s ! i)) = Some k" "2 \<le> k" "k < UDTCP_POLL_TABLE_SIZE"
    by (rule element_of_client [OF wf ptr assms(3,4)])
  obtain r sd t where run: "run_state (udtcp_send_over udp e (infos s ! i) (sends s ! k) d) s = ((r, sd), t)"
    by (metis surj_pair)
  have sd0: "send_ready (sends s ! k)" using ready k(3) by blast
  note eff = send_over_effect [OF sd0 assms(2) run]
  note f = frame_server [OF eff(2)] sys_frame_server [OF eff(2)]
  let ?xs = "(sends s)[k := sd]"
  have s': "snd (run_state (server_send e udp i d) s) = t\<lparr>sends := ?xs\<rparr>"
    by (simp add: server_send_def k(1) run f(1))
  have "accounted (s0\<lparr>sends := sends s\<rparr>) D M h 0 t"
  proof -
    have "conn_fds t = conn_fds s" by (simp add: conn_fds_def clients_def f)
    moreover have "server_wf t = server_wf s" by (simp add: server_wf_def f)
    ultimately show ?thesis
      using acc eff(4) by (simp add: accounted_def same_core_def slot_live_def f)
  qed
  then have "accounted (s0\<lparr>sends := ?xs\<rparr>) D M h 0 (t\<lparr>sends := ?xs\<rparr>)"
    using accounted_sends [of ?xs t s0 D M h] by (simp add: f(1))
  moreover have "buffer_sized (t\<lparr>sends := ?xs\<rparr>)" using sz by (simp add: buffer_sized_def f)
  moreover have "send_pointers (t\<lparr>sends := ?xs\<rparr>) = send_pointers s" by (simp add: send_pointers_def clients_def f)
  moreover have "\<forall>j < UDTCP_POLL_TABLE_SIZE. send_ready (?xs ! j)"
  proof (intro allI impI)
    fix j assume "j < UDTCP_POLL_TABLE_SIZE"
    with ready eff(1) len show "send_ready (?xs ! j)" by (cases "j = k") simp_all
  qed
  moreover have "mem_ok F' (sent_blocks (t\<lparr>sends := ?xs\<rparr>) + {#uint (server_addr (t\<lparr>sends := ?xs\<rparr>))#} + K) (t\<lparr>sends := ?xs\<rparr>)"
  proof -
    have b: "sent_blocks (t\<lparr>sends := ?xs\<rparr>) = sent_blocks (s\<lparr>sends := ?xs\<rparr>)" "server_addr (t\<lparr>sends := ?xs\<rparr>) = server_addr s"
      by (simp_all add: sent_blocks_def server_addr_def f)
    have "allocated (hist t) = freed (hist t) + buffer_block s + (sent_blocks (s\<lparr>sends := ?xs\<rparr>) + {#uint (server_addr s)#} + K)"
      by (rule balance_swap [OF _ eff(5) sent_blocks_update [OF k(2,3) len]])
        (use mem in \<open>simp add: mem_ok_def heap_balanced_def\<close>)
    with mem eff(3) show ?thesis
      unfolding b by (simp add: mem_ok_def buffer_ok_def heap_balanced_def buffer_block_def f cong: option.case_cong)
  qed
  ultimately show ?thesis
    unfolding s' using ptr F by (auto simp: serving_def f)
qed

section \<open>Sessions\<close>

interpretation service_thread: polled e "udtcp_server_poll e t"
    "\<lambda>s. handshake_whole e \<and> polite e \<and> serving s0 D M h F K s" for e t s0 D M h F K
proof unfold_locales
  fix s :: server assume s: "handshake_whole e \<and> polite e \<and> serving s0 D M h F K s"
  then show "handshake_whole e \<and> polite e \<and> serving s0 D M h F K (after_log e UDTCP_LOG_LEVEL_INFO s)"
    "handshake_whole e \<and> polite e \<and> serving s0 D M h F K (s\<lparr>is_started := 0\<rparr>)"
    using keepsD [OF keeps_serving(2), of s0 D M h F K s e UDTCP_LOG_LEVEL_INFO]
      keepsD [OF keeps_serving(4), of s0 D M h F K s 0] by (simp_all add: wp_simps)
qed (blast intro: serving_poll)

lemma start_stop_serving:
  "keeps (serving s0 D M h F K) (udtcp_start_server e)" "keeps (serving s0 D M h F K) (udtcp_stop_server e)"
  unfolding udtcp_start_server_def udtcp_stop_server_def udtcp_stop_def sys_int_def sys_do_def
  by (intro inv_intros keeps_serving; simp add: silent_def)+

lemma serving_session:
  assumes "handshake_whole e" "polite e" "serving s0 D M h F K s" "server_session e s = Some s'"
  shows "serving s0 D M h F K s'"
proof (rule server_session_inv [OF start_stop_serving _ assms(3,4)])
  show "serving s0 D M h F K v" if "serving s0 D M h F K u" "thread_server_poll e u = Some v" for u v
    using service_thread.thread_inv that assms(1,2) unfolding thread_server_poll_def by blast
qed

section \<open>The service\<close>

interpretation server_service: service "server_does e" server_legal
    "\<lambda>s. handshake_whole e \<and> polite e \<and> serving s0 D M h F K s" for e s0 D M h F K
proof unfold_locales
  fix c s s'
  assume "server_legal c" "handshake_whole e \<and> polite e \<and> serving s0 D M h F K s" "server_does e c s = Some s'"
  then show "handshake_whole e \<and> polite e \<and> serving s0 D M h F K s'"
    by (cases c) (auto intro: serving_poll serving_send serving_session keepsD [OF keeps_serving(5), unfolded wp_modify] split: if_splits)
qed

lemma serving_deleted:
  assumes b: "server_building h tcp us uc b s0" and s: "serving s0 {#tcp, us, uc#} (mutex_set b) h F K s"
  shows "wp (udtcp_delete_server e) (\<lambda>_ s'. holds {#} {#} h s' \<and> (\<exists>F'. gap_faults F F' \<and> freed_all F' K s')) s"
proof -
  from s obtain F' where acc: "accounted (s0\<lparr>sends := sends s\<rparr>) {#tcp, us, uc#} (mutex_set b) h 0 s"
    and sz: "buffer_sized s" "\<forall>k \<in> {2..<UDTCP_POLL_TABLE_SIZE}. sized (sends s ! k)"
    and F: "gap_faults F F'" and mem: "mem_ok F' (sent_blocks s + {#uint (server_addr s)#} + K) s"
    by (auto simp: serving_def send_ready_def)
  note o = owns_server_building [OF b]
  have wf: "server_wf s" by (rule accounted_wf [OF acc])
  have h: "holds ({#tcp, us, uc#} + conn_fds s) (mutex_set b) h s"
    and f: "infos s ! 0 = infos s0 ! 0" "sends_base s = b"
    using acc o(3) by (simp_all add: accounted_def same_core_def)
  have fds: "server_fds s = {#tcp, us, uc#} + conn_fds s"
    unfolding server_fds_def conn_fds_sum [OF wf] using o(4-9) by (simp add: f valid_fd_def add_mset_commute)
  have "destructs (server_fds s) (server_mutexes s) (server_blocks s) s s' \<Longrightarrow>
      holds {#} {#} h s' \<and> (\<exists>F'. gap_faults F F' \<and> freed_all F' K s')" for s'
    using holds_release [OF h] F freed_by_destructor [OF mem]
    unfolding fds server_mutexes_base f(2) server_blocks_sent by (auto simp: ac_simps)
  then show ?thesis by (rule wp_mono [OF delete_server_destructs [OF sz]])
qed

lemma born_serving:
  assumes "server_building h tcp us uc b s" "server_born F K b' s"
  shows "serving s {#tcp, us, uc#} (mutex_set b) h F K s"
proof -
  note o = owns_server_building [OF assms(1)]
  have "send_pointers s = {}"
    using assms(1) by (simp add: server_building_def new_server_def send_pointers_def clients_def server_wf_def)
  moreover have "sent_blocks s = {#}"
  proof -
    have "map (\<lambda>k. send_block (sends s ! k)) [2..<UDTCP_POLL_TABLE_SIZE] = map (\<lambda>_. {#}) [2..<UDTCP_POLL_TABLE_SIZE]"
      by (rule map_cong) (simp_all add: o(2) send_block_def zero_send_def)
    then show ?thesis by (simp add: sent_blocks_def)
  qed
  moreover have "send_ready zero_send" by (simp add: send_ready_def send_ok_def sized_def zero_send_def)
  moreover have "server_addr s = b' - 15856"
    using assms(2) by (simp add: server_born_def server_alloc_def server_plain_def server_addr_def)
  moreover have "accounted (s\<lparr>sends := sends s\<rparr>) {#tcp, us, uc#} (mutex_set b) h 0 s" "buffer_sized s"
    using o(1) by (simp_all add: server_owns_def)
  ultimately show ?thesis
    using assms(2) by (auto simp: serving_def o(2) server_born_def server_alloc_def intro!: exI [of _ F])
qed

lemma server_service_outcome:
  assumes "handshake_whole e" "polite e" "freed_all F K s"
    and "run_state (udtcp_create_server e host p1 p2 p3) s = (0, s0)"
    and "list_all server_legal cs" "serves (server_does e) cs s0 = Some s1"
    and "run_state (udtcp_delete_server e) s1 = (x, s2)"
  shows "holds {#} {#} (hist s) s2 \<and> (\<exists>F'. gap_faults F F' \<and> freed_all F' K s2)"
proof -
  have names: "names_fit e" using assms(2) by (simp add: polite_def)
  from wp_runI [OF create_server_outcome assms(4)] wp_runI [OF create_server_heap [OF names assms(3)] assms(4)]
  obtain tcp us uc b b' where b: "server_building (hist s) tcp us uc b s0" "server_born F K b' s0"
    by (auto simp: create_outcome_def)
  have "serving s0 {#tcp, us, uc#} (mutex_set b) (hist s) F K s1"
    using server_service.calls [OF assms(5) _ assms(6), of s0] born_serving [OF b] assms(1,2) by blast
  from wp_runI [OF serving_deleted [OF b(1) this] assms(7)] show ?thesis .
qed

section \<open>The calls return\<close>

lemma session_wf:
  assumes "runs_dry e N" "stops_by e M" "server_wf s" "server_session e s = Some s'"
  shows "server_wf s'"
proof (rule server_session_inv [OF start_stop_wf _ assms(3,4)])
  show "server_wf v" if "server_wf u" "thread_server_poll e u = Some v" for u v
    using server_thread.thread_inv that assms(1,2) unfolding thread_server_poll_def by blast
qed

lemma send_wf: "server_wf s \<Longrightarrow> server_wf (snd (run_state (server_send e udp i d) s))"
proof -
  assume wf: "server_wf s"
  show ?thesis
  proof (cases "send_element s (send_ptr (infos s ! i))")
    case (Some k)
    obtain r sd t where run: "run_state (udtcp_send_over udp e (infos s ! i) (sends s ! k) d) s = ((r, sd), t)"
      by (metis surj_pair)
    from sys_frame_server [OF keeps_run [OF send_over_keeps(1) sys_frame_refl run]] wf Some run
    show ?thesis by (simp add: server_send_def server_wf_def)
  qed (use wf in \<open>simp add: server_send_def server_wf_def emit_def\<close>)
qed

interpretation server_lasts: lasting_service "server_does e" server_legal
    "\<lambda>s. runs_dry e N \<and> stops_by e M \<and> server_wf s" for e N M
proof unfold_locales
  fix c s
  assume inv: "runs_dry e N \<and> stops_by e M \<and> server_wf s"
  have "\<exists>s' r. udtcp_server_poll e t s = Some (r, s')" for t using inv server_poll_ends by blast
  with inv session_returns [of e N M s] show "\<exists>s'. server_does e c s = Some s'" by (cases c) auto
  fix s' assume "server_does e c s = Some s'"
  with inv show "runs_dry e N \<and> stops_by e M \<and> server_wf s'"
    by (cases c) (auto intro: server_poll_wf session_wf send_wf keepsD [OF keeps_wf_fields(3), unfolded wp_modify] split: if_splits)
qed

lemma service_returns:
  assumes "runs_dry e N" "stops_by e M" "run_state (udtcp_create_server e host p1 p2 p3) s = (0, s0)"
    and "list_all server_legal cs"
  shows "\<exists>s1. serves (server_does e) cs s0 = Some s1"
proof -
  have "server_wf s0"
    using wp_runI [OF create_server_outcome assms(3)] by (auto simp: create_outcome_def server_building_def new_server_def)
  with server_lasts.calls_return [OF assms(4), of e N M s0] assms(1,2) show ?thesis by blast
qed

end
