(* ===== verification/Udtcp_Client_Service.thy ===== *)
theory Udtcp_Client_Service
  imports Udtcp_Service Udtcp_Application_Memory
begin

text \<open>
  A client in the hands of an application: any sequence of attempts to connect, polls, messages and
  sessions of its thread, between \<open>udtcp_create_client\<close> and \<open>udtcp_delete_client\<close>.
\<close>

section \<open>The calls on a client\<close>

text \<open>A message to the server: over \<open>server_infos->send\<close>, which is the member \<open>send\<close> of the client
  when a connection has succeeded.\<close>

definition client_send :: "env \<Rightarrow> bool \<Rightarrow> byte list \<Rightarrow> (client, int) state" where
  "client_send e udp d = do {
     s \<leftarrow> gets id;
     if send_ptr (infos s ! 1) \<noteq> send_addr s then do { emit (Fault WildPointer); ret 0 }
     else do {
       (r, sd) \<leftarrow> udtcp_send_over udp e (infos s ! 1) (csend s) d;
       modify (\<lambda>s. s\<lparr>csend := sd\<rparr>);
       ret r } }"

datatype client_call =
    Client_connect "byte list" u16 int
  | Client_poll int
  | Client_send bool "byte list"
  | Client_session
  | Client_set_callbacks

text \<open>The application sends when its last attempt to connect has succeeded, which it remembers.\<close>

fun client_does :: "env \<Rightarrow> client_call \<Rightarrow> bool \<times> client \<Rightarrow> (bool \<times> client) option" where
  "client_does e (Client_connect host port t) (up, s) =
     (case run_state (udtcp_connect_client e host port t) s of (r, s') \<Rightarrow> Some (r = UDTCP_CONNECT_SUCCESS, s'))"
| "client_does e (Client_poll t) (up, s) = map_option (\<lambda>(_, s'). (up, s')) (udtcp_client_poll e t s)"
| "client_does e (Client_send udp d) (up, s) =
     Some (up, if up then snd (run_state (client_send e udp d) s) else s)"
| "client_does e Client_session (up, s) = map_option (Pair up) (client_session e s)"
| "client_does e Client_set_callbacks (up, s) = Some (up, set_callbacks s)"

fun client_legal :: "client_call \<Rightarrow> bool" where
  "client_legal (Client_send udp d) = message_ok d"
| "client_legal _ = True"

section \<open>What a client holds in between\<close>

text \<open>The structure of the server after a success, and the memory.\<close>

definition reachable :: "client \<Rightarrow> bool" where
  "reachable s \<longleftrightarrow> send_ptr (infos s ! 1) = send_addr s"

definition client_serving :: "event list \<Rightarrow> int multiset \<Rightarrow> u64 \<Rightarrow> bool \<Rightarrow> client \<Rightarrow> bool" where
  "client_serving F K m up s \<longleftrightarrow>
     client_wf s \<and> send_ready (csend s) \<and> client_alloc (csend s) F K m s \<and> (up \<longrightarrow> reachable s)"

text \<open>It does not depend on the rest of the state.\<close>

definition client_rest :: "client \<Rightarrow> client \<Rightarrow> bool" where
  "client_rest s t \<longleftrightarrow> infos t = infos s \<and> length (poll_fds t) = length (poll_fds s) \<and> poll_nfds t = poll_nfds s \<and>
     csend t = csend s \<and> send_addr t = send_addr s"

lemma rest_serving:
  assumes "client_serving F K m up s" "client_rest s t" "client_alloc (csend s) F K m s \<Longrightarrow> client_alloc (csend s) F K m t"
  shows "client_serving F K m up t"
  using assms by (auto simp: client_serving_def client_rest_def client_wf_def reachable_def)

lemma keeps_client_serving:
  "\<not> heap_call c \<Longrightarrow> keeps (client_serving F K m up) (syscall e c)"
  "keeps (client_serving F K m up) (udtcp_log e l)"
  "keeps (client_serving F K m up) (modify (\<lambda>s. s\<lparr>poll_loop := x\<rparr>))"
  "keeps (client_serving F K m up) (modify (\<lambda>s. s\<lparr>is_started := x\<rparr>))"
  "keeps (client_serving F K m up) (modify (\<lambda>s. s\<lparr>poll_loop := x, is_started := y\<rparr>))"
  "keeps (client_serving F K m up) (modify set_callbacks)"
proof -
  have lift: "keeps (client_serving F K m up) op"
    if "\<And>sd. keeps (client_alloc sd F K m) op" "\<And>s. keeps (client_rest s) op" for op :: "(client, 'r) state"
    unfolding keeps_def wp_run
  proof (intro allI impI)
    fix s r t assume s: "client_serving F K m up s" and run: "run_state op s = (r, t)"
    have "client_rest s t" by (rule keeps_run [OF that(2) _ run]) (simp add: client_rest_def)
    with s show "client_serving F K m up t" by (rule rest_serving) (rule keeps_run [OF that(1) _ run])
  qed
  show "keeps (client_serving F K m up) (syscall e c)" if "\<not> heap_call c"
    by (rule lift [OF keeps_client_alloc(1) [OF that]]) (auto simp: keeps_def client_rest_def intro!: wp_syscallI)
  show "keeps (client_serving F K m up) (udtcp_log e l)"
    by (rule lift [OF keeps_client_alloc(2)]) (auto simp: keeps_def wp_simps client_rest_def after_log_def)
  have field: "keeps (client_serving F K m up) (modify f)"
    if "\<And>sd s. client_alloc sd F K m (f s) = client_alloc sd F K m s" "\<And>s t. client_rest s (f t) = client_rest s t" for f
    by (rule lift) (simp_all add: keeps_def wp_modify that)
  show "keeps (client_serving F K m up) (modify (\<lambda>s. s\<lparr>poll_loop := x\<rparr>))"
    "keeps (client_serving F K m up) (modify (\<lambda>s. s\<lparr>is_started := x\<rparr>))"
    "keeps (client_serving F K m up) (modify (\<lambda>s. s\<lparr>poll_loop := x, is_started := y\<rparr>))"
    "keeps (client_serving F K m up) (modify set_callbacks)"
    by (rule field; simp add: alloc_fields client_rest_def; simp add: set_callbacks_def)+
qed

section \<open>Every call keeps it\<close>

lemma client_serving_poll:
  assumes "udp_sizes_fit e" "client_serving F K m up s" "udtcp_client_poll e t s = Some (r, s')"
  shows "client_serving F K m up s'"
proof -
  have a: "client_alloc (csend s) F K m s'"
    using client_poll_heap [OF assms(1) _ assms(3)] assms(2) by (simp add: client_serving_def)
  from client_poll_outcome [OF assms(3)]
  have same: "client_same s s'" and i: "connection_kept s s' \<or> connection_closed s s'" by auto
  have "infos s' ! 1 = infos s ! 1" "length (infos s') = length (infos s)"
    using i by (auto simp: connection_kept_def connection_closed_def)
  moreover have "length (poll_fds s') = length (poll_fds s)"
    using same by (metis client_same_def length_map)
  ultimately show ?thesis
    using assms(2) a same by (auto simp: client_serving_def client_wf_def reachable_def client_same_def)
qed

lemma client_serving_connect:
  assumes "handshake_fits e" "names_fit e" "client_serving F K m up s"
    and "run_state (udtcp_connect_client e host port t) s = (r, s')"
  shows "client_serving F K m (r = UDTCP_CONNECT_SUCCESS) s'"
proof -
  have s: "client_wf s" "client_alloc (csend s) F K m s" "send_ready (csend s)"
    using assms(3) by (simp_all add: client_serving_def)
  have a: "client_alloc (csend s) F K m s'" by (rule keeps_run [OF connect_heap [OF assms(1,2)] s(2) assms(4)])
  from wp_runI [OF connect_client_outcome [OF s(1)] assms(4)] obtain b fd where "connecting s b fd s'"
    and c: "r = UDTCP_CONNECT_SUCCESS \<Longrightarrow> \<exists>a x. completed a x s'"
    by (auto simp: connect_outcome_def split: if_splits)
  then have "length (infos s') = 2" "poll_fds s' = poll_fds s" "poll_nfds s' = poll_nfds s" "csend s' = csend s"
    by (simp_all add: connecting_def linked_def)
  moreover have "reachable s'" if "r = UDTCP_CONNECT_SUCCESS"
    using c [OF that] by (auto simp: completed_def reachable_def Let_def)
  ultimately show ?thesis using s a by (simp add: client_serving_def client_wf_def)
qed

lemma client_serving_send:
  assumes "client_serving F K m True s" "message_ok d"
  shows "client_serving F K m True (snd (run_state (client_send e udp d) s))"
proof -
  have s: "client_wf s" "client_alloc (csend s) F K m s" "send_ready (csend s)" "reachable s"
    using assms(1) by (simp_all add: client_serving_def)
  obtain r sd t where run: "run_state (udtcp_send_over udp e (infos s ! 1) (csend s) d) s = ((r, sd), t)"
    by (metis surj_pair)
  note eff = send_over_effect [OF s(3) assms(2) run]
  note f = frame_client [OF eff(2)]
  have s': "snd (run_state (client_send e udp d) s) = t\<lparr>csend := sd\<rparr>"
    using s(4) by (simp add: client_send_def reachable_def run [unfolded One_nat_def])
  have mem: "mem_ok F (send_block (csend s) + {#uint (m - 736)#} + K) s" using s(2) by (simp add: client_alloc_def)
  have "allocated (hist t) = freed (hist t) + buffer_block s + (send_block sd + {#uint (m - 736)#} + K)"
    by (rule balance_swap [OF _ eff(5)]) (use mem in \<open>simp_all add: mem_ok_def heap_balanced_def\<close>)
  with mem eff(3) have "mem_ok F (send_block sd + {#uint (m - 736)#} + K) (t\<lparr>csend := sd\<rparr>)"
    by (simp add: mem_ok_def buffer_ok_def heap_balanced_def buffer_block_def f cong: option.case_cong)
  with s eff(1) show ?thesis
    unfolding s' by (simp add: client_serving_def client_alloc_def client_plain_def client_wf_def reachable_def
        buffer_sized_def f)
qed

interpretation client_service_thread: polled e "udtcp_client_poll e t"
    "\<lambda>s. udp_sizes_fit e \<and> client_serving F K m up s" for e t F K m up
proof unfold_locales
  fix s :: client assume s: "udp_sizes_fit e \<and> client_serving F K m up s"
  then show "udp_sizes_fit e \<and> client_serving F K m up (after_log e UDTCP_LOG_LEVEL_INFO s)"
    "udp_sizes_fit e \<and> client_serving F K m up (s\<lparr>is_started := 0\<rparr>)"
    using keepsD [OF keeps_client_serving(2), of F K m up s e UDTCP_LOG_LEVEL_INFO]
      keepsD [OF keeps_client_serving(4), of F K m up s 0] by (simp_all add: wp_simps)
qed (blast intro: client_serving_poll)

lemma client_serving_session:
  assumes "udp_sizes_fit e" "client_serving F K m up s" "client_session e s = Some s'"
  shows "client_serving F K m up s'"
proof (rule client_session_inv [where I = "client_serving F K m up", OF _ _ _ assms(2,3)])
  show "keeps (client_serving F K m up) (udtcp_start_client e)" "keeps (client_serving F K m up) (udtcp_stop_client e)"
    unfolding udtcp_start_client_def udtcp_stop_client_def udtcp_stop_def sys_int_def sys_do_def
    by (intro inv_intros keeps_client_serving; simp)+
  show "client_serving F K m up v" if "client_serving F K m up u" "thread_client_poll e u = Some v" for u v
    using client_service_thread.thread_inv that assms(1) unfolding thread_client_poll_def by blast
qed

section \<open>The service\<close>

interpretation client_service: service "client_does e" client_legal
    "\<lambda>(up, s). polite e \<and> client_serving F K m up s" for e F K m
proof unfold_locales
  fix c and us us' :: "bool \<times> client"
  obtain up s up' s' where us: "us = (up, s)" "us' = (up', s')" by (cases us, cases us')
  assume "client_legal c" "case us of (up, s) \<Rightarrow> polite e \<and> client_serving F K m up s" "client_does e c us = Some us'"
  then have c: "client_legal c" "client_does e c (up, s) = Some (up', s')" and e: "udp_sizes_fit e" "handshake_fits e"
    "names_fit e" "polite e" and s: "client_serving F K m up s" by (simp_all add: us polite_def)
  have "client_serving F K m up' s'"
    using c s
    by (cases c) (auto intro: client_serving_poll [OF e(1)] client_serving_connect [OF e(2,3) s] client_serving_send
        client_serving_session [OF e(1)] keepsD [OF keeps_client_serving(6), unfolded wp_modify] split: if_splits prod.splits)
  with e(4) show "case us' of (up, s) \<Rightarrow> polite e \<and> client_serving F K m up s" by (simp add: us)
qed

lemma client_service_outcome:
  assumes "polite e" "host_names_fit e" "freed_all F K s"
    and "run_state (udtcp_create_client e host p1 p2 p3) s = (0, s0)"
    and "list_all client_legal cs" "serves (client_does e) cs (False, s0) = Some (up, s1)"
    and "run_state (udtcp_delete_client e) s1 = (x, s2)"
  shows "freed_all F K s2"
proof -
  from wp_runI [OF create_client_outcome assms(4)] have wf: "client_wf s0" by (auto simp: created_client_def)
  from wp_runI [OF create_client_heap [OF assms(2,3)] assms(4)] obtain m where "client_born F K m s0" by auto
  then have a: "client_alloc zero_send F K m s0" by (simp add: client_born_def)
  then have "csend s0 = zero_send" by (simp add: client_alloc_def client_plain_def)
  with a wf have "client_serving F K m False s0"
    by (simp add: client_serving_def send_ready_def send_ok_def sized_def zero_send_def)
  then have "client_serving F K m up s1"
    using client_service.calls [OF assms(5) _ assms(6), of F K m] assms(1) by simp
  then have "client_alloc (csend s1) F K m s1" "sized (csend s1)" by (simp_all add: client_serving_def send_ready_def)
  from wp_runI [OF delete_client_heap [OF this] assms(7)] show ?thesis .
qed

section \<open>The calls return\<close>

interpretation client_lasts: lasting_service "client_does e" client_legal
    "\<lambda>_. runs_dry e N \<and> stops_by e M" for e N M
proof unfold_locales
  fix c and us :: "bool \<times> client"
  assume e: "runs_dry e N \<and> stops_by e M"
  obtain up s where us: "us = (up, s)" by (cases us)
  obtain r s1 where start: "run_state (udtcp_start_client e) s = (r, s1)" by fastforce
  have "\<exists>s'. client_session e s = Some s'"
    using client_thread_ends [of e N M s1] e by (auto simp: client_session_def start)
  moreover have "\<exists>s' r. udtcp_client_poll e t s = Some (r, s')" for t using e client_poll_ends by blast
  ultimately show "\<exists>us'. client_does e c us = Some us'"
    unfolding us by (cases c) (auto split: prod.splits)
qed

end
