(* ===== verification/Udtcp_Claims_Service.thy ===== *)
theory Udtcp_Claims_Service
  imports Udtcp_Claims_Application Udtcp_Server_Service Udtcp_Client_Service
begin

text \<open>
  The properties of a server and a client in the hands of any application, not only of the example: what
  is left behind after any sequence of calls, and what becomes of the pointers the library hands out.
\<close>

section \<open>A system for the instances\<close>

text \<open>Every call succeeds, and one peer shakes hands.\<close>

definition service_env :: env where
  "service_env = mk_env (\<lambda>h c. case c of
      C_gethostbyname _ \<Rightarrow> ok_reply\<lparr>rv := 1, payload := [127, 0, 0, 1]\<rparr>
    | C_new_server \<Rightarrow> ok_reply\<lparr>rv := 4096\<rparr>
    | C_new_client \<Rightarrow> ok_reply\<lparr>rv := 4096\<rparr>
    | C_malloc _ \<Rightarrow> ok_reply\<lparr>rv := 65536\<rparr>
    | C_socket _ \<Rightarrow> ok_reply\<lparr>rv := 7\<rparr>
    | C_poll _ _ \<Rightarrow> ok_reply\<lparr>rv := 1, revs := [POLLIN]\<rparr>
    | C_accept _ \<Rightarrow> if reads h = 0 then ok_reply\<lparr>rv := 8\<rparr> else ok_reply\<lparr>rv := -1, err := EWOULDBLOCK\<rparr>
    | C_send _ d \<Rightarrow> ok_reply\<lparr>rv := int (length d)\<rparr>
    | C_recv _ n \<Rightarrow> if reads h = 0 \<and> n = sizeof_udtcp_infos + 1 then ok_reply\<lparr>payload := infos_bytes zero_infos\<rparr>
        else ok_reply\<lparr>rv := -1, err := EWOULDBLOCK\<rparr>
    | C_recvfrom _ _ _ \<Rightarrow> ok_reply\<lparr>rv := -1, err := EWOULDBLOCK\<rparr>
    | _ \<Rightarrow> ok_reply)\<lparr>stop_seen := \<lambda>h. 200 \<le> length h\<rparr>"

lemma service_env_ok:
  "handshake_whole service_env" "runs_dry service_env 1" "stops_by service_env 200" "polite service_env"
  "host_names_fit service_env"
  by (auto simp: service_env_def ok_reply_def handshake_whole_def recv_result_def runs_dry_def stops_by_def
      polite_def udp_sizes_fit_def handshake_fits_def names_fit_def host_names_fit_def c_string_def Let_def)

lemma init_mutexes_all:
  "(\<And>h a. rv (os e h (C_mutex_init a)) = 0) \<Longrightarrow> wp (init_mutexes e i n) (\<lambda>ok _. ok) s"
  by (induction n arbitrary: i s) (simp_all add: wp_simps wp_calls wp_syscall)

text \<open>Constructors whose stages all succeed.\<close>

lemma stage_taken:
  "wp m (\<lambda>ok _. ok) t \<Longrightarrow> (\<And>u. wp rest Q u) \<Longrightarrow> wp (do { ok \<leftarrow> m; if \<not> ok then bad else rest }) Q t"
  by (rule wp_bindI, assumption) simp

lemma stage_modified: "(\<And>u. wp rest Q u) \<Longrightarrow> wp (do { modify f; rest }) Q t"
  by (simp add: wp_bind wp_modify)

lemma service_env_creates:
  "wp (udtcp_create_server service_env [] 1 2 3) (\<lambda>r _. r = 0) s"
proof -
  have init: "wp (init_mutexes service_env i n) (\<lambda>ok _. ok) t" for i n t
    by (rule init_mutexes_all) (simp add: service_env_def ok_reply_def)
  have open_: "wp (server_open_sockets service_env) (\<lambda>ok _. ok) t" for t
    by (simp add: server_open_sockets_def set_poll_fd_def wp_simps wp_calls wp_syscall service_env_def ok_reply_def)
  have bind_: "wp (server_bind service_env a p1 p2 p3) (\<lambda>ok _. ok) t" for a p1 p2 p3 t
    by (simp add: server_bind_def bind_named_def wp_simps wp_calls wp_syscall service_env_def ok_reply_def)
  have listen_: "wp (server_listen service_env) (\<lambda>ok _. ok) t" for t
    by (simp add: server_listen_def udtcp_socket_add_option_def wp_simps wp_calls wp_syscall service_env_def ok_reply_def)
  have fin: "wp (do { server_finish service_env; ret 0 }) (\<lambda>r _. r = (0::int)) t" for t
    by (simp add: wp_run split: prod.split)
  have host: "wp (syscall service_env (C_gethostbyname n)) (\<lambda>r _. rv r = 1) t" for n and t :: server
    by (simp add: wp_syscall service_env_def)
  have new: "wp (udtcp_new_server service_env) (\<lambda>p _. p = 4096) t" for t :: server
    by (simp add: udtcp_new_server_def wp_calls wp_syscall service_env_def)
  show ?thesis
    unfolding udtcp_create_server_def
    by (rule wp_bindI [OF host], simp only: one_neq_zero if_False, rule wp_bindI [OF new],
        simp only: numeral_neq_zero if_False, rule stage_modified, (rule stage_taken init open_ bind_ listen_ fin)+)
qed

section \<open>The life of a server\<close>


text \<open>The application of the instances: it accepts a client, sends to it both ways, and runs the thread.\<close>

definition some_calls :: "server_call list" where
  "some_calls = [Server_set_callbacks, Server_poll 0, Server_send False 2 [1, 2, 3], Server_send True 2 [4],
     Server_session, Server_poll 0]"

lemma some_calls_run:
  obtains s0 s1 where "run_state (udtcp_create_server service_env [] 1 2 3) blank_server = (0, s0)"
    "list_all server_legal some_calls" "serves (server_does service_env) some_calls s0 = Some s1"
proof -
  obtain r s0 where "run_state (udtcp_create_server service_env [] 1 2 3) blank_server = (r, s0)" by fastforce
  with wp_runI [OF service_env_creates this]
  have run: "run_state (udtcp_create_server service_env [] 1 2 3) blank_server = (0, s0)" by simp
  have legal: "list_all server_legal some_calls" by (simp add: some_calls_def message_ok_def)
  from service_returns [OF service_env_ok(2,3) run legal] that [OF run legal] show thesis by blast
qed


section \<open>The life of a client\<close>


lemma service_env_creates_client:
  "wp (udtcp_create_client service_env [] 1 2 3) (\<lambda>r _. r = 0) s"
proof -
  have os: "rv (os service_env h (C_socket k)) = 7" "rv (os service_env h (C_setsockopt fd o')) = 0"
    "rv (os service_env h (C_bind fd a)) = 0" "rv (os service_env h (C_getsockname fd)) = 0"
    "rv (os service_env h (C_getfl fd)) = 0" "rv (os service_env h (C_setfl fd v)) = 0"
    "rv (os service_env h (C_mutex_init m)) = 0" "rv (os service_env h (C_gethostbyname n)) = 1"
    "rv (os service_env h C_new_client) = 4096" for h k fd o' a v m n
    by (simp_all add: service_env_def ok_reply_def)
  have fin: "wp (do { client_finish service_env n; ret 0 }) (\<lambda>r _. r = (0::int)) t" for n t
    by (simp add: wp_run split: prod.split)
  have open_: "wp (client_open_sockets service_env) (\<lambda>ok _. ok) t" for t
    by (simp add: client_open_sockets_def wp_simps wp_calls wp_syscall os)
  have reuse: "wp (client_reuse service_env) (\<lambda>ok _. ok) t" for t
    by (simp add: client_reuse_def wp_simps wp_calls wp_syscall os)
  have bind_: "wp (client_bind service_env a p1 p2 p3) (\<lambda>ok _. ok) t" for a p1 p2 p3 t
    by (simp add: client_bind_def bind_named_def wp_simps wp_calls wp_syscall Let_def os)
  have nonblock: "wp (client_nonblock service_env) (\<lambda>ok _. ok) t" for t
    by (simp add: client_nonblock_def udtcp_socket_add_option_def wp_simps wp_calls wp_syscall os)
  have calls: "wp (syscall service_env (C_gethostbyname n)) (\<lambda>r _. rv r = 1) t"
    "wp (udtcp_new_client service_env) (\<lambda>p _. p = 4096) t"
    "wp (sys_int service_env (C_mutex_init m)) (\<lambda>r _. r = 0) t" for n m and t :: client
    by (simp_all add: udtcp_new_client_def wp_calls wp_syscall os)
  show ?thesis
    unfolding udtcp_create_client_def
    by (rule wp_bindI [OF calls(1)], simp only: one_neq_zero if_False, rule wp_bindI [OF calls(2)],
        simp only: numeral_neq_zero if_False, rule stage_modified, rule wp_bind_gets,
        rule wp_bindI [OF calls(3)], simp only: simp_thms if_False, (rule stage_taken open_ reuse bind_ nonblock fin)+)
qed

text \<open>An application that connects, sends both ways, polls and runs the thread.\<close>

definition some_client_calls :: "client_call list" where
  "some_client_calls = [Client_set_callbacks, Client_connect [] 1 1000, Client_send False [1, 2, 3], Client_send True [4],
     Client_poll 0, Client_session, Client_connect [] 1 1000]"

lemma some_client_calls_run:
  obtains s0 up s1 where "run_state (udtcp_create_client service_env [] 1 2 3) blank_client = (0, s0)"
    "list_all client_legal some_client_calls"
    "serves (client_does service_env) some_client_calls (False, s0) = Some (up, s1)"
proof -
  obtain r s0 where "run_state (udtcp_create_client service_env [] 1 2 3) blank_client = (r, s0)" by fastforce
  with wp_runI [OF service_env_creates_client this]
  have run: "run_state (udtcp_create_client service_env [] 1 2 3) blank_client = (0, s0)" by simp
  have legal: "list_all client_legal some_client_calls" by (simp add: some_client_calls_def message_ok_def)
  with client_lasts.calls_return [OF legal, of service_env 1 200 "(False, s0)"] service_env_ok(2,3)
  show thesis using that [OF run legal] by (metis surj_pair)
qed


section \<open>The calls return\<close>



section \<open>The send structures of the clients\<close>


text \<open>Two clients, of whom the first has left.\<close>

definition pair_server :: server where
  "pair_server = blank_server\<lparr>poll_nfds := 4, poll_fds := (poll_fds blank_server)[2 := zero_pollfd\<lparr>pfd := -1\<rparr>],
     infos := (infos blank_server)[3 := zero_infos\<lparr>send_ptr := sends_addr blank_server 3\<rparr>]\<rparr>"

lemma pair_server_ok:
  "one_gap 2 3 pair_server" "send_ptr (infos pair_server ! 3) = sends_addr pair_server 3"
  using blank_server_wf
  by (auto simp: pair_server_def one_gap_def server_wf_def sends_addr_def nth_list_update zero_pollfd_def
      UDTCP_POLL_TABLE_SIZE_def UDTCP_MAX_CONNECTION_def)


text \<open>When a client that was not the last one has left and another connects, the last client and the
  new one have the same send structure: the last one has kept that of its old position, which the
  new one is given too.  (Their messages are then serialised by one mutex.)\<close>

theorem clients_share_send_structure:
  assumes "one_gap i n s" "send_ptr (infos s ! n) = sends_addr s n"
  shows "wp (accept_client e) (\<lambda>r u. r = 0 \<longrightarrow> poll_nfds u = Suc n \<and>
    send_ptr (infos u ! (n - 1)) = send_ptr (infos u ! n)) (compact_table 2 s)"
  by (rule wp_mono [OF accept_client_wf_run [OF gap_moves_down(1) [OF assms(1)]]])
    (use gap_then_accept_shares [OF assms] in \<open>auto simp: accept_outcome_def\<close>)

lemma text_peer_accepts:
  assumes "poll_nfds s < UDTCP_POLL_TABLE_SIZE" "poll_nfds s < length (infos s)"
  shows "wp (accept_client text_peer_env) (\<lambda>r _. r = 0) s"
proof -
  have wf: "infos_wf text_peer"
    by (simp add: text_peer_def infos_wf_def zero_infos_def in_int_def sockaddr_wf_def zero_sockaddr_def)
  have recv: "recv_result (sizeof_udtcp_infos + 1) (os text_peer_env h (C_recv fd (sizeof_udtcp_infos + 1))) =
      (int sizeof_udtcp_infos, infos_bytes text_peer)" for h fd
    by (simp add: text_peer_env_def ok_reply_def recv_result_def)
  note r = recv [unfolded Suc_eq_plus1 [symmetric]]
  have ne: "0 < sizeof_udtcp_infos" by (simp add: sizeof_udtcp_infos_def)
  then have ne': "infos_bytes text_peer \<noteq> []" by (simp flip: length_0_conv)
  have io: "rv (os text_peer_env h (C_send fd d)) = int (length d)" "rv (os text_peer_env h (C_poll fds tm)) = 1"
    "rv (os text_peer_env h (C_accept fd)) = 0" "rv (os text_peer_env h (C_getfl fd)) = 0"
    "rv (os text_peer_env h (C_setfl fd w)) = 0" for h fd d fds tm w
    by (simp_all add: text_peer_env_def ok_reply_def)
  have init: "wp (server_initialize_connection text_peer_env n) (\<lambda>r _. r = 0) t" if "n < length (infos t)" for n t
    using that ne ne' by (simp add: server_initialize_connection_def wp_simps wp_calls wp_syscall wp_recv_infos Let_def r io)
  have exchange: "wp (exchange_informations text_peer_env n) (\<lambda>r _. r = 0) t" if "n < length (infos t)" for n t
    unfolding exchange_informations_def
    by (rule wp_bindI [OF init [OF that]]) (simp add: wp_run split: prod.splits)
  show ?thesis
    using assms
    by (auto simp: accept_client_def udtcp_socket_add_option_def wp_simps wp_calls wp_sys_accept wp_syscall io intro!: exchange)
qed

lemma clients_share_send_structure_witness:
  "\<exists>u. run_state (accept_client text_peer_env) (compact_table 2 pair_server) = (0, u) \<and> poll_nfds u = 4 \<and>
     send_ptr (infos u ! 2) = send_ptr (infos u ! 3)"
proof -
  let ?t = "compact_table 2 pair_server"
  note t = gap_moves_down [OF pair_server_ok(1)]
  have room: "poll_nfds ?t < UDTCP_POLL_TABLE_SIZE" "poll_nfds ?t < length (infos ?t)"
    using t(1) by (simp_all add: t(2) server_wf_def UDTCP_POLL_TABLE_SIZE_def UDTCP_MAX_CONNECTION_def)
  obtain r u where run: "run_state (accept_client text_peer_env) ?t = (r, u)" by fastforce
  with wp_runI [OF text_peer_accepts [OF room] run] have "run_state (accept_client text_peer_env) ?t = (0, u)" by simp
  moreover from wp_runI [OF clients_share_send_structure [OF pair_server_ok] this]
  have "poll_nfds u = 4 \<and> send_ptr (infos u ! 2) = send_ptr (infos u ! 3)" by simp
  ultimately show ?thesis by blast
qed

section \<open>The structures an application has been given\<close>

text \<open>C25. The callbacks hand the application the address of \<open>infos[j]\<close>, over which it sends to the client
  of that slot.  After a client in a slot before it has left, the same address describes the next
  client: a message sent over it goes out on the socket of another client.\<close>

theorem kept_pointer_reaches_other_client:
  assumes "one_gap i n s" "i \<le> j" "j < n" "message_ok d"
    and "send_ptr (infos s ! Suc j) = sends_addr s k" "k < UDTCP_POLL_TABLE_SIZE" "send_ok (sends s ! k)"
  shows "infos (compact_table 2 s) ! j = infos s ! Suc j \<and>
    wp (server_send e False j d) (\<lambda>r u. sent_on (tcp_socket (infos s ! Suc j)) (hist u) =
      sent_on (tcp_socket (infos s ! Suc j)) (hist (compact_table 2 s)) @ take (nat r) (frame d)) (compact_table 2 s)"
proof -
  let ?t = "compact_table 2 s"
  have i: "infos ?t ! j = infos s ! Suc j" by (rule gap_moves_down(3) [OF assms(1-3)])
  have f: "sends ?t = sends s" "sends_base ?t = sends_base s" using compact_table_hist [of 2 s] by auto
  have "wp (server_send e False j d) (\<lambda>r u. sent_on (tcp_socket (infos ?t ! j)) (hist u) =
      sent_on (tcp_socket (infos ?t ! j)) (hist ?t) @ take (nat r) (frame d) \<and> faults (hist u) = faults (hist ?t)) ?t"
    by (rule server_send_frame) (use assms(4-7) in \<open>simp_all add: i f sends_addr_def\<close>)
  then show ?thesis by (simp add: i wp_conj)
qed

lemma kept_pointer_reaches_other_client_witness:
  "infos (compact_table 2 pair_server) ! 2 = infos pair_server ! 3 \<and>
   (\<exists>r u. run_state (server_send service_env False 2 [1, 2, 3]) (compact_table 2 pair_server) = (r, u) \<and>
     (let fd = tcp_socket (infos pair_server ! 3) in
      sent_on fd (hist u) = sent_on fd (hist (compact_table 2 pair_server)) @ take (nat r) (frame [1, 2, 3])))"
proof -
  obtain r u where run: "run_state (server_send service_env False 2 [1, 2, 3]) (compact_table 2 pair_server) = (r, u)"
    by fastforce
  have "send_ok (sends pair_server ! 3)"
    by (simp add: pair_server_def blank_server_def send_ok_zero UDTCP_POLL_TABLE_SIZE_def UDTCP_MAX_CONNECTION_def)
  moreover have "message_ok [1, 2, 3]" "3 < UDTCP_POLL_TABLE_SIZE"
    by (simp_all add: message_ok_def UDTCP_POLL_TABLE_SIZE_def UDTCP_MAX_CONNECTION_def)
  ultimately have w: "infos (compact_table 2 pair_server) ! 2 = infos pair_server ! Suc 2 \<and>
    wp (server_send service_env False 2 [1, 2, 3]) (\<lambda>r u. sent_on (tcp_socket (infos pair_server ! Suc 2)) (hist u) =
      sent_on (tcp_socket (infos pair_server ! Suc 2)) (hist (compact_table 2 pair_server)) @
        take (nat r) (frame [1, 2, 3])) (compact_table 2 pair_server)"
    using kept_pointer_reaches_other_client [OF pair_server_ok(1), of 2 "[1, 2, 3]" 3 service_env] pair_server_ok(2)
    by (simp del: frame_def)
  with wp_runI [OF conjunct2 [OF w] run] run show ?thesis by (auto simp: Let_def numeral_3_eq_3 numeral_2_eq_2)
qed

end
