(* ===== verification/Spec2Isabelle.thy ===== *)
theory Spec2Isabelle
  imports Udtcp_Claims_Conversation Udtcp_Claims_Transport Udtcp_Claims_Server Udtcp_Claims_Client
    Udtcp_Claims_Lifecycle Udtcp_Claims_Application Udtcp_Claims_Service
begin

text \<open>
  A verification development for UDTCP, a C library that pairs a TCP connection with UDP sockets:
  clients connect to a server over TCP, both sides exchange the structure \<open>udtcp_infos\<close> that
  describes their UDP ports, and messages then travel over both transports to callbacks.

  \<^bold>\<open>The parts of the program and their theories.\<close>  The sources of the library are under
  \<open>src/udtcp/\<close>.
  \<^item> \<open>Udtcp_Prelude\<close>: bytes and little-endian numbers, the state monad and its weakest
    preconditions (\<open>wp\<close>), invariants of programs (\<open>keeps\<close>), the collections of rules.
  \<^item> \<open>Udtcp_Types\<close>: \<open>include/udtcp.h\<close>: enumerations, structures and their memory images.  A
    structure is a record with the members of the C structure; members that only point into the
    same structure (\<open>server_infos\<close>, \<open>clients_infos\<close>, \<open>client_infos\<close>) are the slots 0, 2 and 0, 1
    of \<open>infos\<close> themselves.
  \<^item> \<open>Udtcp_Posix\<close>: the operating system.  A call of libc is a value of \<open>call\<close>, answered by an
    environment from the history of all events so far; callbacks and undefined behaviours
    (\<open>Fault\<close>) are events too.  A statement for every \<open>env\<close> holds for every kernel, peer and
    schedule.
  \<^item> \<open>Udtcp_Peer\<close>: what server and client have in common: the members both structures have, the
    log macros, \<open>new_free.c\<close>, the receive buffer.
  \<^item> \<open>Udtcp_Socket_Option\<close>, \<open>Udtcp_String_Infos\<close>, \<open>Udtcp_Send\<close>: \<open>socket_option.c\<close>,
    \<open>set_string_infos.c\<close>, \<open>send.c\<close>.
  \<^item> \<open>Udtcp_Receive\<close>: \<open>receive_tcp\<close> and \<open>receive_udp\<close> of \<open>server_poll.c\<close> and \<open>client_poll.c\<close>, with
    what differs between the two as parameters.
  \<^item> \<open>Udtcp_Server\<close>, \<open>Udtcp_Server_Receive\<close>, \<open>Udtcp_Server_Accept\<close>, \<open>Udtcp_Server_Poll\<close>: the rest
    of \<open>server_poll.c\<close>: the client table, accepting with the handshake, the scan of the poll
    table, the closing of its gaps.
  \<^item> \<open>Udtcp_Client\<close>, \<open>Udtcp_Connect\<close>: the rest of \<open>client_poll.c\<close>, and \<open>connect_client.c\<close>.
  \<^item> \<open>Udtcp_Client_Lifecycle\<close>, \<open>Udtcp_Server_Lifecycle\<close>: \<open>create_client.c\<close>, \<open>delete_client.c\<close>,
    \<open>create_server.c\<close>, \<open>delete_server.c\<close>.
  \<^item> \<open>Udtcp_Start_Stop\<close>: \<open>client_start_stop.c\<close>, \<open>server_start_stop.c\<close>, as functions and as two
    interleaved threads.
  \<^item> \<open>Udtcp_Application\<close>: the two programs of \<open>src/examples/simple_connection/\<close>, which compose all
    of these: \<open>main\<close> of either, the loop of connections and sessions of the client, the texts of
    the callbacks.
  \<^item> \<open>Udtcp_Concurrent_Send\<close>: \<open>send.c\<close> again, statement by statement, for threads that send over one
    send structure at the same time.

  \<^bold>\<open>The interfaces.\<close>  \<open>wire_codec\<close> is what the protocol needs of a memory image.  \<open>drained\<close> and
  \<open>drained_finite\<close> (\<open>Udtcp_Drain\<close>) are what the loops \<open>while (poll_loop && ret > 0)\<close> need of the
  function they call: an invariant, and a bound on its successes.  \<open>scan_keeps\<close> and \<open>client_keeps\<close>
  say which invariants of the operations on one entry of the table a whole poll of the server or
  the client keeps; \<open>polled\<close> and \<open>polled_finite\<close> what the poll thread needs of a poll function;
  \<open>staged\<close> what a constructor needs of its steps to release everything when one of them fails.
  \<open>service\<close> and \<open>lasting_service\<close> are the contract of the calls on a server or a client with the
  application: what they keep, and that they return.  Each is interpreted on the functions of the model.

  \<^bold>\<open>The lemmas.\<close>  \<open>Udtcp_Server_Invariant\<close> shows that a poll keeps the client table and refines the
  registry of identifiers, \<open>Udtcp_Server_Safety\<close> and \<open>Udtcp_Client_Safety\<close> the memory safety and
  termination of the polls, from that of receiving (\<open>Udtcp_Receive_Safety\<close>); \<open>Udtcp_Stream\<close> that
  frames are reassembled from a stream and what is sent; \<open>Udtcp_Connect_Outcome\<close> what connecting
  yields.  \<open>Udtcp_Resources\<close> accounts for descriptors and mutexes, \<open>Udtcp_Server_Construction\<close> for
  those of a server under construction, \<open>Udtcp_Server_Descriptors\<close> for the sockets of its clients,
  \<open>Udtcp_Thread_End\<close> shows that the threads end.  \<open>Udtcp_Application_Account\<close> and
  \<open>Udtcp_Application_Memory\<close> sum this up over the programs: descriptors and mutexes, and the heap.
  \<open>Udtcp_Server_Sends\<close> follows the pointers of the clients to their send structures,
  \<open>Udtcp_Origin\<close> the hosts their connections were accepted from, and
  \<open>Udtcp_Service\<close>, \<open>Udtcp_Server_Service\<close> and \<open>Udtcp_Client_Service\<close> a server or a client between its
  creation and its deletion, through any sequence of polls, connections, messages sent and sessions
  (\<open>server_call\<close>, \<open>client_call\<close>).
  \<open>Udtcp_Concurrent_Send\<close> shows that concurrent calls of \<open>udtcp_send_tcp\<close> and \<open>udtcp_send_udp\<close> are
  serialised, \<open>Udtcp_Channel\<close> that a poll hands out the messages of a connection in order, \<open>Udtcp_Datagrams\<close> the
  datagrams of a socket.
  \<open>Udtcp_Example\<close> holds environments and states on which the statements are instantiated.  The properties are in the theories \<open>Udtcp_Claims_*\<close> and, where they join both
  sides, here.

  \<^bold>\<open>Bounds and loops.\<close>  The table has \<open>UDTCP_MAX_CONNECTION = 42\<close> client slots, as the header's
  default.  Loops that the kernel can prolong for ever are \<open>partial_function (option)\<close>: \<open>None\<close> is a
  call that does not return, and termination is a theorem.  The loop that waits for the rest of a
  payload and the compaction are total functions with their measures.  Identifiers are 64-bit
  words: that they are distinct needs a counter at least 44 below its wrap-around.

  \<^bold>\<open>Not modelled.\<close>  The layout is that of x86-64 Linux.  A callback is an event with its arguments:
  what it does to the structure is not modelled, beyond clearing \<open>poll_loop\<close> (\<open>stop_seen\<close>).  A log
  message is an event with its level, without its text, and \<open>errno\<close> is not changed by callbacks or
  by the formatting of a message.  After a \<open>Fault\<close> the model goes on with the write left out (for
  an overlapping \<open>memcpy\<close> with a copy in ascending order), so what follows a fault is not a claim
  about the program.  The threads share their structure only through \<open>poll_loop\<close> and \<open>is_started\<close>,
  and, where several send, the send structure; other data races are not modelled.  In the example
  programs \<open>g_is_run\<close>, which the signal handler
  clears, is a function of the history, and the seconds \<open>main\<close> sleeps while its thread runs are not
  events.  The tests and the build files are not modelled.
\<close>

section \<open>From one side to the other\<close>

text \<open>One message over TCP: when \<open>udtcp_send_tcp\<close> reports that the kernel took the whole message,
  a server that reads the connection and has consumed everything sent before receives exactly
  that message, whatever else was sent before or is sent later and however the stream is cut.\<close>

theorem tcp_end_to_end:
  assumes "send_ok sd" "sendable sd n" "length data = unat n" "data \<noteq> []" "length data < 2 ^ 31"
    and "run_state (udtcp_send_tcp e x sd data n) t = ((int (length data + 4), sd'), t')"
    and "delivers e' fd (sent_on (tcp_socket x) (hist t') @ later)"
    and "consumed fd (hist s) = length (sent_on (tcp_socket x) (hist t))"
    and "fd = tcp_socket (infos s ! i)" "buffer_ok s" "whole_header e' fd (hist s)"
  shows "\<exists>s'. run_state (server_receive_tcp e' i) s = (int (length data), s') \<and>
    callbacks (hist s') = callbacks (hist s) @
      (if receive_tcp_callback s then [Cb ReceiveTcpCb i data] else [])"
proof -
  let ?old = "sent_on (tcp_socket x) (hist t)"
  have "take (length data + 4) (frame data) = frame data" by simp
  with wp_runI [OF send_tcp_outcome [OF assms(1-3)] assms(6)]
  have sent: "sent_on (tcp_socket x) (hist t') = ?old @ frame data"
    by (simp add: send_outcome_def)
  have "sint (of_nat (length data) :: u32) = int (length data)"
    using c_int_id [of "int (length data)"] assms(5) by (simp add: c_int_def)
  with receive_tcp_delivers [OF assms(7,10,9) _ _ assms(4) _ assms(11), of later False sint] assms(5,8)
  show ?thesis by (auto simp: server_receive_tcp_def sent)
qed

lemma tcp_end_to_end_witness:
  "\<exists>sd' t' s'. run_state (udtcp_send_tcp (stream_env 0 []) zero_infos zero_send [1, 2, 3] 3) blank_client =
      ((7, sd'), t') \<and>
    run_state (server_receive_tcp (stream_env 0 (sent_on 0 (hist t'))) 2) blank_server = (3, s') \<and>
    callbacks (hist s') = [Cb ReceiveTcpCb 2 [1, 2, 3]]"
proof -
  let ?d = "[1, 2, 3] :: byte list"
  obtain sd' t' where send: "run_state (udtcp_send_tcp (stream_env 0 []) zero_infos zero_send ?d 3) blank_client =
      ((7, sd'), t')"
    by (simp add: udtcp_send_tcp_def sys_defs run_syscall stream_env_def ok_reply_def buffer_copy_def
        grow_send_buffer_def udtcp_new_buffer_def zero_send_def write_block_def frame_out_def overlay_def)
  have n: "sendable zero_send 3" by (simp add: sendable_def)
  have h: "4 \<le> length (sent_on 0 (hist t'))"
    using wp_runI [OF send_tcp_outcome [OF send_ok_zero n, of ?d] send] by (simp add: send_outcome_def)
  have "consumed 0 (hist blank_server) = 0" by simp
  then have w: "whole_header (stream_env 0 (sent_on 0 (hist t'))) 0 (hist blank_server)"
    using h by (intro stream_env_whole_header) simp
  have "\<exists>s'. run_state (server_receive_tcp (stream_env 0 (sent_on 0 (hist t'))) 2) blank_server =
      (int (length ?d), s') \<and> callbacks (hist s') = callbacks (hist blank_server) @
        (if receive_tcp_callback blank_server then [Cb ReceiveTcpCb 2 ?d] else [])"
    by (rule tcp_end_to_end [OF send_ok_zero n, where data = ?d and later = "[]" and fd = 0
        and x = zero_infos and t' = t' and t = blank_client])
      (use send w blank_server_ok(3) in \<open>simp_all add: stream_env_delivers sent_on_def\<close>)
  with send show ?thesis by auto
qed

text \<open>End to end over UDP: the datagram that \<open>udtcp_send_udp\<close> has sent last, when it is the next one
  of the server and comes from the UDP address of a connected client, is received as exactly the
  message, in the name of that client.\<close>

theorem udp_end_to_end:
  assumes "send_ok sd" "sendable sd n" "length data = unat n" "length data + 4 < 2 ^ 31"
    and "run_state (udtcp_send_udp e x sd data n) t = ((r, sd'), t')" "0 < r"
    and "next_datagram e' (udp_server_socket (infos s ! 0)) (fst (snd (last (datagrams (hist t'))))) a (hist s)"
    and "buffer_ok s" "udtcp_get_infos a s = Some j"
  shows "\<exists>s'. run_state (server_receive_udp e') s = (int (length data), s') \<and>
    callbacks (hist s') = callbacks (hist s) @
      (if receive_udp_callback s then [Cb ReceiveUdpCb j data] else [])"
proof -
  from wp_runI [OF send_udp_outcome [OF assms(1-3)] assms(5)] assms(6)
  have "fst (snd (last (datagrams (hist t')))) = frame data" by (auto simp: send_outcome_def)
  with assms(7) have nx: "next_datagram e' (udp_server_socket (infos s ! 0)) (frame data) a (hist s)" by simp
  have sender: "udtcp_get_infos a u = Some j" if "buffer_frame s u" for u
    using assms(9) buffer_frame_fields(1,3) [OF that] by (simp add: udtcp_get_infos_def)
  have "sint (of_nat (length data) :: u32) = int (length data)"
    using c_int_id [of "int (length data)"] assms(4) by (simp add: c_int_def)
  with receive_udp_delivers [where sender = udtcp_get_infos and j = j, OF nx assms(8) refl assms(4) sender,
      of False sint]
  show ?thesis by (auto simp: server_receive_udp_def)
qed

text \<open>A socket whose next datagram is \<open>d\<close>, from \<open>a\<close>.\<close>

definition datagram_env :: "byte list \<Rightarrow> sockaddr_in \<Rightarrow> env" where
  "datagram_env d a = mk_env (\<lambda>_ c. case c of
      C_recvfrom _ _ _ \<Rightarrow> ok_reply\<lparr>payload := d, from_addr := a\<rparr>
    | C_malloc _ \<Rightarrow> ok_reply\<lparr>rv := 4096\<rparr>
    | _ \<Rightarrow> ok_reply)"

lemma datagram_env_next: "next_datagram (datagram_env d a) fd d a h"
  by (simp add: next_datagram_def datagram_env_def ok_reply_def recv_result_def)

lemma udp_end_to_end_witness:
  "\<exists>sd' t' s'. run_state (udtcp_send_udp (stream_env 0 []) zero_infos zero_send [1, 2, 3] 3) blank_client =
      ((7, sd'), t') \<and>
    run_state (server_receive_udp (datagram_env (fst (snd (last (datagrams (hist t'))))) zero_sockaddr))
      (blank_server\<lparr>poll_nfds := 3\<rparr>) = (3, s') \<and>
    callbacks (hist s') = [Cb ReceiveUdpCb 2 [1, 2, 3]]"
proof -
  let ?d = "[1, 2, 3] :: byte list" and ?s = "blank_server\<lparr>poll_nfds := 3\<rparr>"
  obtain sd' t' where send: "run_state (udtcp_send_udp (stream_env 0 []) zero_infos zero_send ?d 3) blank_client =
      ((7, sd'), t')"
    by (simp add: udtcp_send_udp_def sys_defs run_syscall stream_env_def ok_reply_def buffer_copy_def
        grow_send_buffer_def udtcp_new_buffer_def zero_send_def write_block_def frame_out_def overlay_def)
  let ?e = "datagram_env (fst (snd (last (datagrams (hist t'))))) zero_sockaddr"
  have n: "sendable zero_send 3" by (simp add: sendable_def)
  have ok: "buffer_ok ?s" using blank_server_ok(3) by (simp add: buffer_ok_def)
  have g: "udtcp_get_infos zero_sockaddr ?s = Some 2" by (simp add: udtcp_get_infos_def upt_rec)
  have "\<exists>s'. run_state (server_receive_udp ?e) ?s = (int (length ?d), s') \<and> callbacks (hist s') =
      callbacks (hist ?s) @ (if receive_udp_callback ?s then [Cb ReceiveUdpCb 2 ?d] else [])"
    by (rule udp_end_to_end [OF send_ok_zero n _ _ send _ datagram_env_next ok g]) simp_all
  then have "\<exists>s'. run_state (server_receive_udp ?e) ?s = (3, s') \<and>
      callbacks (hist s') = [Cb ReceiveUdpCb 2 ?d]" by simp
  with send show ?thesis by blast
qed

section \<open>The handshake\<close>

text \<open>What either half does when it succeeds.\<close>

lemma server_half:
  assumes "n < length (infos t)"
  shows "wp (server_initialize_connection e n) (\<lambda>r t'. r = 0 \<longrightarrow>
    sent_on (tcp_socket (infos t ! n)) (hist t') = sent_on (tcp_socket (infos t ! n)) (hist t) @ infos_bytes (infos t ! 0) \<and>
    (\<exists>h. infos t' ! n = apply_distant (infos t ! 0) (infos t ! n) (infos_recv (snd (recv_result (sizeof_udtcp_infos + 1)
      (os e h (C_recv (tcp_socket (infos t ! n)) (sizeof_udtcp_infos + 1))))) (infos t ! n)))) t"
proof -
  have ne: "snd (recv_result k x) \<noteq> []" if "fst (recv_result k x) = int sizeof_udtcp_infos" for k x
    using that by (auto simp: recv_result_def sizeof_udtcp_infos_def split: if_splits)
  have all: "take (nat (rv x)) d = d" if "min (rv x) (int sizeof_udtcp_infos) = int sizeof_udtcp_infos"
    "length d = sizeof_udtcp_infos" for x :: reply and d :: "byte list"
    using that by simp
  show ?thesis
    using assms
    by (auto simp: server_initialize_connection_def wp_simps wp_calls wp_syscall wp_recv_infos Let_def all
        dest: ne intro!: exI)
qed

lemma client_half:
  assumes "1 < length (infos c)"
  shows "wp (client_initialize_connection e) (\<lambda>r c'. r = UDTCP_CONNECT_SUCCESS \<longrightarrow>
    sent_on (tcp_socket (infos c ! 0)) (hist c') = sent_on (tcp_socket (infos c ! 0)) (hist c) @ infos_bytes (infos c ! 0) \<and>
    (\<exists>h. infos c' ! 1 = infos_recv (snd (recv_result (sizeof_udtcp_infos + 1)
      (os e h (C_recv (tcp_socket (infos c ! 0)) (sizeof_udtcp_infos + 1))))) (infos c ! 1))) c"
proof -
  have ne: "snd (recv_result k x) \<noteq> []" if "fst (recv_result k x) = int sizeof_udtcp_infos" for k x
    using that by (auto simp: recv_result_def sizeof_udtcp_infos_def split: if_splits)
  have all: "take (nat (rv x)) d = d" if "min (rv x) (int sizeof_udtcp_infos) = int sizeof_udtcp_infos"
    "length d = sizeof_udtcp_infos" for x :: reply and d :: "byte list"
    using that by simp
  show ?thesis
    using assms
    by (auto simp: client_initialize_connection_def wp_simps wp_calls wp_syscall wp_recv_infos Let_def all
        dest: ne intro!: exI)
qed

text \<open>C10. The handshake exchanges the two structures: when both halves succeed and each side has
  received what the other has sent, the client holds the structure of the server, and the server's
  new slot that of the client with the connection's own socket and address in it.\<close>

theorem handshake_exchanges_structures:
  assumes "run_state (server_initialize_connection e n) t = (0, t')" "n < length (infos t)"
    and "run_state (client_initialize_connection e') c = (UDTCP_CONNECT_SUCCESS, c')" "1 < length (infos c)"
    and "infos_wf (infos t ! 0)" "infos_wf (infos c ! 0)"
    and "\<And>h. snd (recv_result (sizeof_udtcp_infos + 1) (os e h (C_recv (tcp_socket (infos t ! n)) (sizeof_udtcp_infos + 1)))) =
      drop (length (sent_on (tcp_socket (infos c ! 0)) (hist c))) (sent_on (tcp_socket (infos c ! 0)) (hist c'))"
    and "\<And>h. snd (recv_result (sizeof_udtcp_infos + 1) (os e' h (C_recv (tcp_socket (infos c ! 0)) (sizeof_udtcp_infos + 1)))) =
      drop (length (sent_on (tcp_socket (infos t ! n)) (hist t))) (sent_on (tcp_socket (infos t ! n)) (hist t'))"
  shows "infos c' ! 1 = infos t ! 0 \<and>
    infos t' ! n = apply_distant (infos t ! 0) (infos t ! n) (infos c ! 0)"
  using wp_runI [OF server_half [OF assms(2)] assms(1)] wp_runI [OF client_half [OF assms(4)] assms(3)]
    assms(5,6) unfolding assms(7,8) by (auto simp: infos_recv_whole)

lemma handshake_exchanges_structures_witness:
  "\<exists>t' c'. run_state (server_initialize_connection zero_peer_env 2)
       (blank_server\<lparr>infos := replicate UDTCP_POLL_TABLE_SIZE zero_infos\<rparr>) = (0, t') \<and>
     run_state (client_initialize_connection zero_peer_env) blank_client = (UDTCP_CONNECT_SUCCESS, c') \<and>
     infos c' ! 1 = zero_infos \<and> infos t' ! 2 = zero_infos"
proof -
  let ?t = "blank_server\<lparr>infos := replicate UDTCP_POLL_TABLE_SIZE zero_infos\<rparr>"
  have os: "rv (os zero_peer_env h (C_poll fds tm)) = 1" "rv (os zero_peer_env h (C_send fd d)) = int (length d)"
    "recv_result (sizeof_udtcp_infos + 1) (os zero_peer_env h (C_recv fd (sizeof_udtcp_infos + 1))) =
      (int sizeof_udtcp_infos, infos_bytes zero_infos)" for h fds tm fd d
    by (simp_all add: zero_peer_env_def ok_reply_def recv_result_def)
  note recv = os(3) [unfolded Suc_eq_plus1 [symmetric]]
  have wf: "infos_wf zero_infos"
    by (simp add: infos_wf_def zero_infos_def in_int_def sockaddr_wf_def zero_sockaddr_def)
  have T: "2 < length (infos ?t)" "infos ?t ! 0 = zero_infos" "infos ?t ! 2 = zero_infos"
    using table_size_gt_2 by simp_all
  have ne: "sizeof_udtcp_infos \<noteq> 0" by (simp add: sizeof_udtcp_infos_def)
  have "wp (server_initialize_connection zero_peer_env 2) (\<lambda>r _. r = 0 \<and> True) ?t"
    using ne by (simp add: server_initialize_connection_def wp_simps wp_calls wp_syscall wp_recv_infos os recv Let_def)
  from wp_returns [OF this]
  obtain t' where run1: "run_state (server_initialize_connection zero_peer_env 2) ?t = (0, t')"
    by blast
  have "wp (client_initialize_connection zero_peer_env) (\<lambda>r _. r = UDTCP_CONNECT_SUCCESS \<and> True) blank_client"
    using ne by (simp add: client_initialize_connection_def wp_simps wp_calls wp_syscall wp_recv_infos os recv Let_def)
  from wp_returns [OF this]
  obtain c' where run2: "run_state (client_initialize_connection zero_peer_env) blank_client =
      (UDTCP_CONNECT_SUCCESS, c')"
    by blast
  have sent: "sent_on 0 (hist t') = infos_bytes zero_infos" "sent_on 0 (hist c') = infos_bytes zero_infos"
    using wp_runI [OF server_half [OF T(1)] run1] wp_runI [OF client_half run2] T by simp_all
  have "infos c' ! 1 = infos ?t ! 0 \<and> infos t' ! 2 = apply_distant (infos ?t ! 0) (infos ?t ! 2) (infos blank_client ! 0)"
    by (rule handshake_exchanges_structures [OF run1 T(1) run2]) (use T wf os(3) sent in simp_all)
  moreover have "apply_distant zero_infos zero_infos zero_infos = zero_infos"
    by (simp add: apply_distant_def zero_infos_def)
  ultimately show ?thesis using run1 run2 T by auto
qed

text \<open>C34. A server whose table is full tells so: it accepts the connection, sends one byte and closes
  it, and the table stays as it is; a client that receives what was sent there reports
  \<open>UDTCP_CONNECT_TOO_MANY\<close>.\<close>

theorem full_server_refuses:
  assumes "UDTCP_POLL_TABLE_SIZE \<le> poll_nfds t" "fd = rv (os e (hist t) (C_accept (tcp_socket (infos t ! 0))))"
    and "0 \<le> fd" "\<And>h. rv (os e h (C_send fd [0])) = 1"
    and "\<And>h ev. 0 < rv (os e' h (C_poll [(tcp_socket (infos c ! 0), ev)] (-1)))"
    and "\<And>h t'. run_state (accept_client e) t = (-1, t') \<Longrightarrow>
      recv_result (sizeof_udtcp_infos + 1) (os e' h (C_recv (tcp_socket (infos c ! 0)) (sizeof_udtcp_infos + 1))) =
        (int (length (sent_on fd (hist t')) - length (sent_on fd (hist t))),
         drop (length (sent_on fd (hist t))) (sent_on fd (hist t')))"
  shows "\<exists>t' c'. run_state (accept_client e) t = (-1, t') \<and> infos t' = infos t \<and> poll_fds t' = poll_fds t \<and>
    poll_nfds t' = poll_nfds t \<and> opened (hist t') = opened (hist t) + {#fd#} \<and> closed (hist t') = closed (hist t) + {#fd#} \<and>
    run_state (client_initialize_connection e') c = (UDTCP_CONNECT_TOO_MANY, c')"
proof -
  let ?Q = "\<lambda>t'. infos t' = infos t \<and> poll_fds t' = poll_fds t \<and> poll_nfds t' = poll_nfds t \<and>
    opened (hist t') = opened (hist t) + {#fd#} \<and> closed (hist t') = closed (hist t) + {#fd#} \<and>
    sent_on fd (hist t') = sent_on fd (hist t) @ [0]"
  have log: "sent_on x (hist (after_log e l u)) = sent_on x (hist u)" for x l and u :: server
    by (simp add: after_log_def)
  have "wp (accept_client e) (\<lambda>r t'. r = -1 \<and> ?Q t') t"
    using assms(1-4) by (simp add: accept_client_def refuse_client_def wp_simps wp_calls wp_syscall log)
  from wp_returns [OF this]
  obtain t' where t': "run_state (accept_client e) t = (-1, t')" "?Q t'" by blast
  have recv: "recv_result (sizeof_udtcp_infos + 1) (os e' h (C_recv (tcp_socket (infos c ! 0)) (sizeof_udtcp_infos + 1))) =
      (1, [0])" for h
    using assms(6) [OF t'(1)] t'(2) by simp
  note recv' = recv [unfolded Suc_eq_plus1 [symmetric]]
  have ne: "sizeof_udtcp_infos \<noteq> Suc 0" by (simp add: sizeof_udtcp_infos_def)
  have pos: "\<not> rv (os e' h (C_poll [(tcp_socket (infos c ! 0), ev)] (-1))) < 0"
    "rv (os e' h (C_poll [(tcp_socket (infos c ! 0), ev)] (-1))) \<noteq> 0" for h ev
    using assms(5) [of h ev] by simp_all
  have "wp (client_initialize_connection e') (\<lambda>r _. r = UDTCP_CONNECT_TOO_MANY \<and> True) c"
    by (simp add: client_initialize_connection_def wp_simps wp_calls wp_syscall wp_recv_infos
        recv recv' pos ne Let_def)
  from wp_returns [OF this] t' show ?thesis by blast
qed

text \<open>A kernel with a connection waiting at the server, and a client that was sent one byte.\<close>

definition refusing_env :: env where
  "refusing_env = mk_env (\<lambda>_ c. case c of
      C_accept _ \<Rightarrow> ok_reply\<lparr>rv := 9\<rparr>
    | C_send _ d \<Rightarrow> ok_reply\<lparr>rv := int (length d)\<rparr>
    | C_poll _ _ \<Rightarrow> ok_reply\<lparr>rv := 1\<rparr>
    | C_recv _ _ \<Rightarrow> ok_reply\<lparr>rv := 1, payload := [0]\<rparr>
    | _ \<Rightarrow> ok_reply)"

lemma full_server_refuses_witness:
  "\<exists>t' c'. run_state (accept_client refusing_env) (blank_server\<lparr>poll_nfds := UDTCP_POLL_TABLE_SIZE\<rparr>) = (-1, t') \<and>
    closed (hist t') = {#9#} \<and>
    run_state (client_initialize_connection refusing_env) blank_client = (UDTCP_CONNECT_TOO_MANY, c')"
proof -
  let ?t = "blank_server\<lparr>poll_nfds := UDTCP_POLL_TABLE_SIZE\<rparr>" and ?e = refusing_env
  have log: "sent_on x (hist (after_log e l u)) = sent_on x (hist u)" for x e l and u :: server
    by (simp add: after_log_def)
  have "wp (accept_client ?e) (\<lambda>_ t'. sent_on 9 (hist t') = [0]) ?t"
    by (simp add: accept_client_def refuse_client_def wp_simps wp_calls wp_syscall log refusing_env_def ok_reply_def)
  then have sent: "sent_on 9 (hist t') = [0]" if "run_state (accept_client ?e) ?t = (-1, t')" for t'
    using that by (rule wp_runI)
  have "\<exists>t' c'. run_state (accept_client ?e) ?t = (-1, t') \<and> infos t' = infos ?t \<and> poll_fds t' = poll_fds ?t \<and>
    poll_nfds t' = poll_nfds ?t \<and> opened (hist t') = opened (hist ?t) + {#9#} \<and>
    closed (hist t') = closed (hist ?t) + {#9#} \<and>
    run_state (client_initialize_connection ?e) blank_client = (UDTCP_CONNECT_TOO_MANY, c')"
    by (rule full_server_refuses)
      (use sent in \<open>simp_all add: refusing_env_def ok_reply_def recv_result_def sizeof_udtcp_infos_def\<close>)
  then show ?thesis by auto
qed

end
